(* ===== verification/Prelude.thy ===== *)
theory Prelude
  imports Main
begin

text \<open>
  What every component shares: the collections of rewrite rules, and the operations of
  Go's \<^verbatim>\<open>slices\<close> package on lists with the lemmas that carry the component proofs.
\<close>

named_theorems go_simps \<open>rewrite rules for the operations of the Go standard library\<close>
named_theorems handler_defs \<open>definitions of the handlers, for unfolding a whole handler\<close>

section \<open>Results that may panic\<close>

text \<open>
  A Go function returns, or it panics: \<open>NilDeref\<close> is a read through a nil pointer,
  \<open>NilMapWrite\<close> an assignment to an entry of a nil map, \<open>OutOfRange\<close> a slice index.
\<close>

datatype panic_kind = NilDeref | NilMapWrite | OutOfRange

datatype 'a outcome = Returns 'a | Panics panic_kind

primrec bind_outcome :: "'a outcome \<Rightarrow> ('a \<Rightarrow> 'b outcome) \<Rightarrow> 'b outcome" where
  "bind_outcome (Returns x) f = f x"
| "bind_outcome (Panics k) f = Panics k"

lemma bind_outcome_Returns_iff [simp]:
  "bind_outcome m f = Returns y \<longleftrightarrow> (\<exists>x. m = Returns x \<and> f x = Returns y)"
  by (cases m) auto

lemma Returns_bind_outcome_iff [simp]:
  "Returns y = bind_outcome m f \<longleftrightarrow> (\<exists>x. m = Returns x \<and> f x = Returns y)"
  by (cases m) auto

lemma bind_outcome_Panics_iff:
  "bind_outcome m f = Panics k \<longleftrightarrow> m = Panics k \<or> (\<exists>x. m = Returns x \<and> f x = Panics k)"
  by (cases m) auto

lemma bind_outcome_assoc [simp]:
  "bind_outcome (bind_outcome m f) g = bind_outcome m (\<lambda>x. bind_outcome (f x) g)"
  by (cases m) auto

section \<open>The slices package\<close>

text \<open>\<^verbatim>\<open>slices.IndexFunc\<close>: the index of the first match; \<open>None\<close> is the result -1.\<close>

fun index_func :: "('a \<Rightarrow> bool) \<Rightarrow> 'a list \<Rightarrow> nat option" where
  "index_func P [] = None"
| "index_func P (x # xs) = (if P x then Some 0 else map_option Suc (index_func P xs))"

definition contains_func :: "('a \<Rightarrow> bool) \<Rightarrow> 'a list \<Rightarrow> bool" where
  "contains_func P xs \<longleftrightarrow> index_func P xs \<noteq> None"

definition delete_func :: "('a \<Rightarrow> bool) \<Rightarrow> 'a list \<Rightarrow> 'a list" where
  "delete_func P xs = filter (\<lambda>x. \<not> P x) xs"

text \<open>\<^verbatim>\<open>slices.EqualFunc\<close>: equal lengths, and equal elements at each index.\<close>

fun equal_func :: "('a \<Rightarrow> 'b \<Rightarrow> bool) \<Rightarrow> 'a list \<Rightarrow> 'b list \<Rightarrow> bool" where
  "equal_func eq [] [] = True"
| "equal_func eq (x # xs) (y # ys) = (eq x y \<and> equal_func eq xs ys)"
| "equal_func eq _ _ = False"

lemma index_func_None_iff [simp]: "index_func P xs = None \<longleftrightarrow> (\<forall>x \<in> set xs. \<not> P x)"
  by (induction xs) auto

lemma contains_func_iff [simp]: "contains_func P xs \<longleftrightarrow> (\<exists>x \<in> set xs. P x)"
  by (auto simp: contains_func_def)

lemma index_func_SomeD:
  assumes "index_func P xs = Some i"
  shows "i < length xs" and "P (xs ! i)" and "\<And>j. j < i \<Longrightarrow> \<not> P (xs ! j)"
proof -
  have "i < length xs \<and> P (xs ! i) \<and> (\<forall>j < i. \<not> P (xs ! j))"
    using assms
  proof (induction xs arbitrary: i)
    case Nil
    then show ?case by simp
  next
    case (Cons x xs)
    then show ?case
      by (auto simp: less_Suc_eq_0_disj split: if_splits)
  qed
  then show "i < length xs" and "P (xs ! i)" and "\<And>j. j < i \<Longrightarrow> \<not> P (xs ! j)"
    by auto
qed

lemma index_func_append:
  "index_func P (xs @ ys) =
     (case index_func P xs of
        Some i \<Rightarrow> Some i
      | None \<Rightarrow> map_option (\<lambda>i. length xs + i) (index_func P ys))"
proof (induction xs)
  case Nil
  have "((+) (0::nat)) = (\<lambda>i. i)" by auto
  then show ?case by (simp add: option.map_ident)
next
  case (Cons x xs)
  then show ?case
    by (cases "index_func P xs"; cases "index_func P ys") (auto simp del: index_func_None_iff)
qed

lemma index_func_map: "index_func P (map f xs) = index_func (P \<circ> f) xs"
  by (induction xs) auto

lemma index_func_cong:
  "(\<And>x. x \<in> set xs \<Longrightarrow> P x = Q x) \<Longrightarrow> index_func P xs = index_func Q xs"
  by (induction xs) auto

text \<open>Replacing the element found keeps the index, when the new element matches too.\<close>

lemma index_func_update:
  assumes "index_func P xs = Some i" and "P y"
  shows "index_func P (xs[i := y]) = Some i"
  using assms
proof (induction xs arbitrary: i)
  case Nil
  then show ?case by simp
next
  case (Cons x xs)
  then show ?case by (auto split: if_splits)
qed

text \<open>Replacing another element does not disturb a search it does not match.\<close>

lemma index_func_update_same:
  assumes "i < length xs" and "P y = P (xs ! i)"
  shows "index_func P (xs[i := y]) = index_func P xs"
  using assms
proof (induction xs arbitrary: i)
  case Nil
  then show ?case by simp
next
  case (Cons x xs)
  then show ?case by (cases i) auto
qed

lemma set_delete_func [simp]: "set (delete_func P xs) = {x \<in> set xs. \<not> P x}"
  by (auto simp: delete_func_def)

lemma delete_func_append [simp]:
  "delete_func P (xs @ ys) = delete_func P xs @ delete_func P ys"
  by (simp add: delete_func_def)

lemma delete_func_none: "\<forall>x \<in> set xs. \<not> P x \<Longrightarrow> delete_func P xs = xs"
  by (simp add: delete_func_def)

lemma delete_func_all: "\<forall>x \<in> set xs. P x \<Longrightarrow> delete_func P xs = []"
  by (simp add: delete_func_def)

lemma delete_func_idem [simp]: "delete_func P (delete_func P xs) = delete_func P xs"
  by (simp add: delete_func_def)

lemma length_delete_func_eq_iff:
  "length (delete_func P xs) = length xs \<longleftrightarrow> (\<forall>x \<in> set xs. \<not> P x)"
proof
  assume "length (delete_func P xs) = length xs"
  then have "filter (\<lambda>x. \<not> P x) xs = xs"
    by (metis delete_func_def filter_True length_filter_less less_irrefl)
  then show "\<forall>x \<in> set xs. \<not> P x" by (simp add: filter_id_conv)
qed (simp add: delete_func_none)

lemma equal_func_iff: "equal_func eq xs ys \<longleftrightarrow> list_all2 eq xs ys"
  by (induction eq xs ys rule: equal_func.induct) auto

text \<open>The element found, and searches that deletions and updates do not disturb.\<close>

lemma find_index_func: "find P xs = map_option ((!) xs) (index_func P xs)"
proof (induction xs)
  case Nil
  then show ?case by simp
next
  case (Cons x xs)
  then show ?case by (cases "index_func P xs") auto
qed

lemma find_delete_func:
  assumes "\<And>x. x \<in> set xs \<Longrightarrow> P x \<Longrightarrow> \<not> Q x"
  shows "find P (delete_func Q xs) = find P xs"
  using assms by (induction xs) (auto simp: delete_func_def)

section \<open>Generic facts\<close>

lemma set_conv_update:
  assumes "i < length xs"
  shows "set (xs[i := y]) = insert y (set (take i xs) \<union> set (drop (Suc i) xs))"
  using assms by (simp add: upd_conv_take_nth_drop)

lemma hd_tl_collapse [simp]: "xs \<noteq> [] \<Longrightarrow> hd xs # tl xs = xs"
  by simp

end
