(* ===== verification/Go_Maps.thy ===== *)
theory Go_Maps
  imports Prelude "HOL-Library.AList" "HOL-Library.Multiset"
begin

text \<open>
  Go maps. The entries of a map are an association list whose keys are distinct
  (\<open>map_ok\<close>); a \<^verbatim>\<open>map[string]string\<close> that may be nil is a \<open>gomap\<close>, with \<open>None\<close> for nil.
  Reading a nil map gives the zero value, writing one panics. Go leaves the order of a
  \<^verbatim>\<open>range\<close> over a map open, and may choose another one each time: every such loop of the
  model takes the order as a parameter.
\<close>

type_synonym entries = "(string \<times> string) list"
type_synonym gomap = "entries option"

definition map_ok :: "('k \<times> 'v) list \<Rightarrow> bool" where
  "map_ok kvs \<longleftrightarrow> distinct (map fst kvs)"

definition map_get :: "gomap \<Rightarrow> string \<Rightarrow> string option" where
  "map_get m k = (case m of None \<Rightarrow> None | Some kvs \<Rightarrow> map_of kvs k)"

definition map_index :: "gomap \<Rightarrow> string \<Rightarrow> string" where
  "map_index m k = (case map_get m k of None \<Rightarrow> [] | Some v \<Rightarrow> v)"

definition map_put :: "string \<Rightarrow> string \<Rightarrow> gomap \<Rightarrow> gomap outcome" where
  "map_put k v m =
     (case m of None \<Rightarrow> Panics NilMapWrite | Some kvs \<Rightarrow> Returns (Some (AList.update k v kvs)))"

definition map_make :: gomap where
  "map_make = Some []"

lemma map_get_simps [go_simps, simp]:
  "map_get None k = None"
  "map_get (Some kvs) k = map_of kvs k"
  by (simp_all add: map_get_def)

lemma map_get_map_make [go_simps, simp]: "map_get map_make k = None"
  by (simp add: map_make_def)

lemma map_index_None [go_simps, simp]: "map_index None k = []"
  by (simp add: map_index_def)

lemma map_index_get: "map_get m k = Some v \<Longrightarrow> map_index m k = v"
  by (simp add: map_index_def)

lemma map_index_nonempty: "map_index m k = v \<Longrightarrow> v \<noteq> [] \<Longrightarrow> map_get m k = Some v"
  by (auto simp: map_index_def split: option.splits)

lemma map_put_Some [go_simps, simp]:
  "map_put k v (Some kvs) = Returns (Some (AList.update k v kvs))"
  by (simp add: map_put_def)

lemma map_put_panics_iff: "map_put k v m = Panics p \<longleftrightarrow> m = None \<and> p = NilMapWrite"
  by (auto simp: map_put_def split: option.splits)

lemma map_get_put:
  "map_put k v m = Returns m' \<Longrightarrow> map_get m' k' = (if k' = k then Some v else map_get m k')"
  by (auto simp: map_put_def update_conv' split: option.splits)

lemma map_get_NoneD: "map_get m k = Some v \<Longrightarrow> m \<noteq> None"
  by (auto simp: map_get_def split: option.splits)

lemma map_ok_update [simp]: "map_ok kvs \<Longrightarrow> map_ok (AList.update k v kvs)"
  by (simp add: map_ok_def distinct_update)

lemma map_ok_Nil [simp]: "map_ok []"
  by (simp add: map_ok_def)

lemma set_update: "map_ok kvs \<Longrightarrow> set (AList.update k v kvs) = {p \<in> set kvs. fst p \<noteq> k} \<union> {(k, v)}"
proof (induction kvs)
  case Nil
  then show ?case by simp
next
  case (Cons p kvs)
  show ?case
  proof (cases "fst p = k")
    case True
    with Cons.prems have "{q \<in> set kvs. fst q \<noteq> k} = set kvs"
      by (auto simp: map_ok_def) (metis fst_conv image_eqI)
    with True show ?thesis by auto
  next
    case False
    with Cons show ?thesis by (auto simp: map_ok_def)
  qed
qed

section \<open>Range over a map\<close>

definition range_ok :: "(string list \<Rightarrow> string list) \<Rightarrow> bool" where
  "range_ok ord \<longleftrightarrow> (\<forall>ks. mset (ord ks) = mset ks)"

definition range_over :: "(string list \<Rightarrow> string list) \<Rightarrow> (string \<times> 'v) list \<Rightarrow> (string \<times> 'v) list" where
  "range_over ord kvs = map (\<lambda>k. (k, the (map_of kvs k))) (ord (map fst kvs))"

lemma range_ok_id [simp]: "range_ok (\<lambda>ks. ks)"
  by (simp add: range_ok_def)

lemma range_ok_rev [simp]: "range_ok rev"
  by (simp add: range_ok_def)

lemma map_lookup_self:
  assumes "map_ok kvs"
  shows "map (\<lambda>k. (k, the (map_of kvs k))) (map fst kvs) = kvs"
proof -
  have "(fst p, the (map_of kvs (fst p))) = p" if "p \<in> set kvs" for p
    using assms that by (cases p) (simp add: map_ok_def map_of_is_SomeI)
  then show ?thesis by (simp add: map_idI)
qed

lemma mset_range_over:
  assumes "range_ok ord" and "map_ok kvs"
  shows "mset (range_over ord kvs) = mset kvs"
proof -
  let ?g = "\<lambda>k. (k, the (map_of kvs k))"
  have "mset (range_over ord kvs) = image_mset ?g (mset (ord (map fst kvs)))"
    by (simp add: range_over_def)
  also have "\<dots> = mset (map ?g (map fst kvs))"
    using assms(1) by (simp only: range_ok_def mset_map)
  also have "\<dots> = mset kvs"
    using map_lookup_self [OF assms(2)] by simp
  finally show ?thesis .
qed

lemma set_range_over [simp]: "range_ok ord \<Longrightarrow> map_ok kvs \<Longrightarrow> set (range_over ord kvs) = set kvs"
  by (metis mset_range_over set_mset_mset)

lemma map_ok_range_over [simp]:
  assumes "range_ok ord" and "map_ok kvs"
  shows "map_ok (range_over ord kvs)"
proof -
  have "mset (map fst (range_over ord kvs)) = mset (map fst kvs)"
    using mset_range_over [OF assms] by simp
  with assms(2) show ?thesis
    unfolding map_ok_def by (metis mset_eq_imp_distinct_iff)
qed

lemma range_over_id [simp]: "map_ok kvs \<Longrightarrow> range_over (\<lambda>ks. ks) kvs = kvs"
  by (simp only: range_over_def map_lookup_self)

lemma length_range_over: "range_ok ord \<Longrightarrow> length (range_over ord kvs) = length kvs"
  unfolding range_over_def range_ok_def by (metis length_map size_mset)

end
