(* ===== verification/Go_Strings.thy ===== *)
theory Go_Strings
  imports Prelude "HOL-Library.Word"
begin

text \<open>
  The parts of Go's \<^verbatim>\<open>strings\<close>, \<^verbatim>\<open>strconv\<close> and \<^verbatim>\<open>fmt\<close> packages the program uses.
  A Go string is its list of bytes (\<open>string\<close>); \<open>length\<close> counts bytes, as \<^verbatim>\<open>len\<close> does.
\<close>

section \<open>Prefixes and suffixes\<close>

definition has_prefix :: "string \<Rightarrow> string \<Rightarrow> bool" where
  "has_prefix s p \<longleftrightarrow> take (length p) s = p"

definition has_suffix :: "string \<Rightarrow> string \<Rightarrow> bool" where
  "has_suffix s p \<longleftrightarrow> length p \<le> length s \<and> drop (length s - length p) s = p"

definition trim_prefix :: "string \<Rightarrow> string \<Rightarrow> string" where
  "trim_prefix s p = (if has_prefix s p then drop (length p) s else s)"

definition trim_suffix :: "string \<Rightarrow> string \<Rightarrow> string" where
  "trim_suffix s p = (if has_suffix s p then take (length s - length p) s else s)"

lemma has_prefix_iff: "has_prefix s p \<longleftrightarrow> (\<exists>t. s = p @ t)"
  unfolding has_prefix_def by (metis append_eq_conv_conj append_take_drop_id)

lemma has_suffix_iff: "has_suffix s p \<longleftrightarrow> (\<exists>t. s = t @ p)"
  unfolding has_suffix_def
  by (metis append_eq_conv_conj append_take_drop_id diff_add_inverse2 le_add2 length_append)

lemma has_prefix_append [go_simps, simp]: "has_prefix (p @ t) p"
  by (simp add: has_prefix_def)

lemma has_suffix_append [go_simps, simp]: "has_suffix (t @ p) p"
  by (simp add: has_suffix_def)

lemma trim_prefix_append [go_simps, simp]: "trim_prefix (p @ t) p = t"
  by (simp add: trim_prefix_def)

lemma trim_suffix_append [go_simps, simp]: "trim_suffix (t @ p) p = t"
  by (simp add: trim_suffix_def)

lemma trim_suffix_id: "\<not> has_suffix s p \<Longrightarrow> trim_suffix s p = s"
  by (simp add: trim_suffix_def)

lemma trim_prefix_eq_iff: "trim_prefix s p = s \<longleftrightarrow> p = [] \<or> \<not> has_prefix s p"
proof (cases "has_prefix s p")
  case True
  then obtain t where "s = p @ t" by (auto simp: has_prefix_iff)
  then show ?thesis by auto
qed (simp add: trim_prefix_def)

lemma trim_suffix_eq_iff: "trim_suffix s p = s \<longleftrightarrow> p = [] \<or> \<not> has_suffix s p"
proof (cases "has_suffix s p")
  case True
  then obtain t where "s = t @ p" by (auto simp: has_suffix_iff)
  then show ?thesis by auto
qed (simp add: trim_suffix_def)

text \<open>Both trims split their argument: what is cut off is the affix or nothing.\<close>

lemma trim_prefix_cases:
  obtains "s = p @ trim_prefix s p" | "trim_prefix s p = s" and "\<not> has_prefix s p"
  by (metis has_prefix_iff trim_prefix_append trim_prefix_def)

fun contains_sub :: "string \<Rightarrow> string \<Rightarrow> bool" where
  "contains_sub [] p = has_prefix [] p"
| "contains_sub (c # s) p = (has_prefix (c # s) p \<or> contains_sub s p)"

lemma contains_sub_iff: "contains_sub s p \<longleftrightarrow> (\<exists>a b. s = a @ p @ b)"
proof (induction s)
  case Nil
  then show ?case by (auto simp: has_prefix_iff)
next
  case (Cons c s)
  have "(\<exists>a b. c # s = a @ p @ b) \<longleftrightarrow>
        (\<exists>b. c # s = p @ b) \<or> (\<exists>a b. s = a @ p @ b)"
    by (metis (no_types, opaque_lifting) append_Cons append_Nil list.exhaust list.inject)
  with Cons show ?case by (simp add: has_prefix_iff)
qed

section \<open>Split, join and replace\<close>

text \<open>Every separator and every replaced string of the program is a single byte.\<close>

fun split_on :: "char \<Rightarrow> string \<Rightarrow> string list" where
  "split_on c [] = [[]]"
| "split_on c (x # xs) =
     (if x = c then [] # split_on c xs
      else (x # hd (split_on c xs)) # tl (split_on c xs))"

fun join :: "string \<Rightarrow> string list \<Rightarrow> string" where
  "join sep [] = []"
| "join sep [w] = w"
| "join sep (w # v # ws) = w @ sep @ join sep (v # ws)"

definition replace_all :: "char \<Rightarrow> string \<Rightarrow> string \<Rightarrow> string" where
  "replace_all c r s = concat (map (\<lambda>x. if x = c then r else [x]) s)"

fun replace_first :: "char \<Rightarrow> string \<Rightarrow> string \<Rightarrow> string" where
  "replace_first c r [] = []"
| "replace_first c r (x # xs) = (if x = c then r @ xs else x # replace_first c r xs)"

lemma split_on_not_Nil [simp]: "split_on c s \<noteq> []"
  by (induction s) auto

lemma join_Cons: "ws \<noteq> [] \<Longrightarrow> join sep (w # ws) = w @ sep @ join sep ws"
  by (cases ws) auto

lemma join_hd_extend: "ws \<noteq> [] \<Longrightarrow> join sep ((x # hd ws) # tl ws) = x # join sep ws"
  by (cases ws rule: list.exhaust; cases "tl ws") (auto simp: join_Cons)

lemma join_split_on [simp]: "join [c] (split_on c s) = s"
  by (induction s) (auto simp: join_Cons join_hd_extend)

lemma split_on_no_sep: "c \<notin> set s \<Longrightarrow> split_on c s = [s]"
  by (induction s) auto

lemma split_on_append_sep:
  "c \<notin> set w \<Longrightarrow> split_on c (w @ c # s) = w # split_on c s"
  by (induction w) auto

lemma split_on_append: "split_on c (a @ c # b) = split_on c a @ split_on c b"
  by (induction a) auto

lemma split_on_join:
  assumes "ws \<noteq> []" and "\<forall>w \<in> set ws. c \<notin> set w"
  shows "split_on c (join [c] ws) = ws"
  using assms
proof (induction "[c]" ws rule: join.induct)
  case 1
  then show ?case by simp
next
  case (2 w)
  then show ?case by (simp add: split_on_no_sep)
next
  case (3 w v ws)
  then show ?case by (simp add: split_on_append_sep)
qed

lemma split_on_sep_free: "w \<in> set (split_on c s) \<Longrightarrow> c \<notin> set w"
proof (induction s arbitrary: w)
  case Nil
  then show ?case by simp
next
  case (Cons x xs)
  then show ?case
    by (auto split: if_splits dest: list.set_sel(2) [OF split_on_not_Nil])
qed

lemma join_snoc: "ws \<noteq> [] \<Longrightarrow> join sep (ws @ [w]) = join sep ws @ sep @ w"
  by (induction sep ws rule: join.induct) auto

lemma replace_all_no_occurrence: "c \<notin> set s \<Longrightarrow> replace_all c r s = s"
  by (induction s) (auto simp: replace_all_def)

lemma replace_all_append [simp]:
  "replace_all c r (s @ t) = replace_all c r s @ replace_all c r t"
  by (simp add: replace_all_def)

section \<open>TrimSpace\<close>

text \<open>
  \<^verbatim>\<open>strings.TrimSpace\<close> removes the runes of \<^verbatim>\<open>unicode.IsSpace\<close> at both ends. Over bytes,
  these are the six ASCII blanks and the UTF-8 encodings of U+0085, U+00A0, U+1680,
  U+2000 to U+200A, U+2028, U+2029, U+202F, U+205F and U+3000.
\<close>

definition space_runes :: "string list" where
  "space_runes =
     map (\<lambda>c. [char_of (c :: nat)]) [9, 10, 11, 12, 13, 32] @
     map (map char_of)
       ([[0xC2, 0x85], [0xC2, 0xA0], [0xE1, 0x9A, 0x80],
         [0xE2, 0x80, 0xA8], [0xE2, 0x80, 0xA9], [0xE2, 0x80, 0xAF],
         [0xE2, 0x81, 0x9F], [0xE3, 0x80, 0x80]] @
        map (\<lambda>i. [0xE2, 0x80, 0x80 + i]) [0 ..< (11 :: nat)])"

function trim_left_of :: "string list \<Rightarrow> string \<Rightarrow> string" where
  "trim_left_of rs s =
     (case find (\<lambda>r. r \<noteq> [] \<and> has_prefix s r) rs of
        None \<Rightarrow> s
      | Some r \<Rightarrow> trim_left_of rs (drop (length r) s))"
  by pat_completeness auto
termination
proof (relation "measure (\<lambda>(rs, s). length s)")
  fix rs s r
  assume "find (\<lambda>r. r \<noteq> [] \<and> has_prefix s r) rs = Some r"
  then have "r \<noteq> []" and "has_prefix s r"
    by (auto simp: find_Some_iff)
  then show "((rs, drop (length r) s), (rs, s)) \<in> measure (\<lambda>(rs, s). length s)"
    by (auto simp: has_prefix_iff)
qed simp

declare trim_left_of.simps [simp del]

definition trim_space :: "string \<Rightarrow> string" where
  "trim_space s =
     rev (trim_left_of (map rev space_runes)
            (rev (trim_left_of space_runes s)))"

lemma trim_left_of_nil [simp]: "trim_left_of rs [] = []"
proof -
  have "find (\<lambda>r. r \<noteq> [] \<and> has_prefix [] r) rs = None"
    by (auto simp: find_None_iff has_prefix_iff)
  then show ?thesis by (subst trim_left_of.simps) simp
qed

lemma trim_left_of_stuck:
  "\<forall>r \<in> set rs. r = [] \<or> \<not> has_prefix s r \<Longrightarrow> trim_left_of rs s = s"
  by (subst trim_left_of.simps) (auto simp: find_None_iff find_Some_iff split: option.splits)

lemma trim_left_of_suffix: "\<exists>t. s = t @ trim_left_of rs s"
proof (induction rs s rule: trim_left_of.induct)
  case (1 rs s)
  show ?case
  proof (cases "find (\<lambda>r. r \<noteq> [] \<and> has_prefix s r) rs")
    case None
    then show ?thesis by (subst trim_left_of.simps) simp
  next
    case (Some r)
    with 1 obtain t where "drop (length r) s = t @ trim_left_of rs (drop (length r) s)"
      by blast
    then have "s = (take (length r) s @ t) @ trim_left_of rs (drop (length r) s)"
      by (metis append.assoc append_take_drop_id)
    moreover from Some have "trim_left_of rs s = trim_left_of rs (drop (length r) s)"
      by (subst trim_left_of.simps) simp
    ultimately show ?thesis by metis
  qed
qed

text \<open>No blank is left at the front.\<close>

lemma trim_left_of_no_prefix:
  "r \<in> set rs \<Longrightarrow> r \<noteq> [] \<Longrightarrow> \<not> has_prefix (trim_left_of rs s) r"
proof (induction rs s rule: trim_left_of.induct)
  case (1 rs s)
  show ?case
  proof (cases "find (\<lambda>r. r \<noteq> [] \<and> has_prefix s r) rs")
    case None
    then have "trim_left_of rs s = s" by (subst trim_left_of.simps) simp
    with None 1(2,3) show ?thesis by (auto simp: find_None_iff)
  next
    case (Some r')
    with 1 have "\<not> has_prefix (trim_left_of rs (drop (length r') s)) r" by blast
    with Some show ?thesis by (subst trim_left_of.simps) simp
  qed
qed

text \<open>The trimmed string is a factor of the string.\<close>

lemma trim_space_factor: "\<exists>a b. s = a @ trim_space s @ b"
proof -
  obtain a where a: "s = a @ trim_left_of space_runes s"
    using trim_left_of_suffix by blast
  obtain b where b: "rev (trim_left_of space_runes s) = b @ rev (trim_space s)"
    unfolding trim_space_def using trim_left_of_suffix by fastforce
  from b have "trim_left_of space_runes s = trim_space s @ rev b"
    by (metis rev_append rev_rev_ident)
  with a show ?thesis by metis
qed

end
