(* ===== verification/Go_Time.thy ===== *)
theory Go_Time
  imports Go_Numbers
begin

text \<open>
  The parts of Go's \<^verbatim>\<open>time\<close> package the program uses. A \<^verbatim>\<open>time.Duration\<close> is its count
  of nanoseconds, an \<open>int\<close> between \<open>- 2^63\<close> and \<open>2^63 - 1\<close>; a \<^verbatim>\<open>time.Time\<close> is the
  \<open>int\<close> of nanoseconds since the Unix epoch.
\<close>

type_synonym duration = int
type_synonym gotime = int

section \<open>float64 on the values ParseDuration computes\<close>

text \<open>
  A positive \<^verbatim>\<open>float64\<close> is \<open>(m, e)\<close> for \<open>m * 2^e\<close>. Results are rounded to the nearest
  53-bit significand, ties to even. The exponent is not bounded: where \<^verbatim>\<open>float64\<close> would
  overflow or be subnormal the fraction below is less than one nanosecond and truncates
  to 0 on both sides.
\<close>

type_synonym f64 = "nat \<times> int"

fun bit_length :: "nat \<Rightarrow> nat" where
  "bit_length n = (if n = 0 then 0 else Suc (bit_length (n div 2)))"

declare bit_length.simps [simp del]

definition div_to_even :: "nat \<Rightarrow> nat \<Rightarrow> nat" where
  "div_to_even p q =
     (let d = p div q; r = p mod q
      in if 2 * r < q then d else if q < 2 * r then Suc d else if even d then d else Suc d)"

definition f64_round :: "nat \<Rightarrow> nat \<Rightarrow> int \<Rightarrow> f64" where
  "f64_round p q e =
     (if p = 0 then (0, 0)
      else
        let s = int (bit_length p) - int (bit_length q) - 53;
            scaled = (\<lambda>k. if 0 \<le> k then (p, q * 2 ^ nat k) else (p * 2 ^ nat (- k), q));
            k = (if 2 ^ 53 * snd (scaled s) \<le> fst (scaled s) then s + 1 else s)
        in (div_to_even (fst (scaled k)) (snd (scaled k)), e + k))"

definition f64_of_nat :: "nat \<Rightarrow> f64" where
  "f64_of_nat n = f64_round n 1 0"

definition f64_mul :: "f64 \<Rightarrow> f64 \<Rightarrow> f64" where
  "f64_mul x y = f64_round (fst x * fst y) 1 (snd x + snd y)"

definition f64_div :: "f64 \<Rightarrow> f64 \<Rightarrow> f64" where
  "f64_div x y = f64_round (fst x) (fst y) (snd x - snd y)"

definition f64_trunc :: "f64 \<Rightarrow> nat" where
  "f64_trunc x =
     (if 0 \<le> snd x then fst x * 2 ^ nat (snd x) else fst x div 2 ^ nat (- snd x))"

section \<open>ParseDuration\<close>

definition nanosecond :: nat where "nanosecond = 1"
definition microsecond :: nat where "microsecond = 1000"
definition millisecond :: nat where "millisecond = 1000000"
definition second :: nat where "second = 1000000000"
definition minute :: nat where "minute = 60000000000"
definition hour :: nat where "hour = 3600000000000"

lemmas time_units =
  nanosecond_def microsecond_def millisecond_def second_def minute_def hour_def

text \<open>The two spellings of the micro sign are U+00B5 and U+03BC in UTF-8.\<close>

definition unit_map :: "(string \<times> nat) list" where
  "unit_map =
     [(''ns'', nanosecond), (''us'', microsecond),
      ([CHR 0xC2, CHR 0xB5, CHR ''s''], microsecond),
      ([CHR 0xCE, CHR 0xBC, CHR ''s''], microsecond),
      (''ms'', millisecond), (''s'', second), (''m'', minute), (''h'', hour)]"

fun leading_int :: "nat \<Rightarrow> string \<Rightarrow> (nat \<times> string) option" where
  "leading_int x [] = Some (x, [])"
| "leading_int x (c # s) =
     (if \<not> is_digit c then Some (x, c # s)
      else if 2 ^ 63 div 10 < x then None
      else if 2 ^ 63 < 10 * x + digit_val c then None
      else leading_int (10 * x + digit_val c) s)"

fun leading_fraction :: "nat \<Rightarrow> f64 \<Rightarrow> bool \<Rightarrow> string \<Rightarrow> nat \<times> f64 \<times> string" where
  "leading_fraction x scale overflow [] = (x, scale, [])"
| "leading_fraction x scale overflow (c # s) =
     (if \<not> is_digit c then (x, scale, c # s)
      else if overflow then leading_fraction x scale True s
      else if (2 ^ 63 - 1) div 10 < x then leading_fraction x scale True s
      else if 2 ^ 63 < 10 * x + digit_val c then leading_fraction x scale True s
      else leading_fraction (10 * x + digit_val c) (f64_mul scale (f64_of_nat 10)) False s)"

definition is_unit_char :: "char \<Rightarrow> bool" where
  "is_unit_char c \<longleftrightarrow> \<not> (c = CHR ''.'' \<or> is_digit c)"

text \<open>One round of the loop: the nanoseconds of \<^verbatim>\<open>1.5h\<close> and what follows it.\<close>

definition duration_item :: "string \<Rightarrow> (nat \<times> string) option" where
  "duration_item s0 =
     (if s0 = [] \<or> \<not> (hd s0 = CHR ''.'' \<or> is_digit (hd s0)) then None
      else case leading_int 0 s0 of
        None \<Rightarrow> None
      | Some (v, s1) \<Rightarrow>
          let pre = (length s0 \<noteq> length s1);
              dot = (s1 \<noteq> [] \<and> hd s1 = CHR ''.'');
              frac = (if dot then leading_fraction 0 (1, 0) False (tl s1) else (0, (1, 0), s1));
              f = fst frac; scale = fst (snd frac); s2 = snd (snd frac);
              post = (dot \<and> length (tl s1) \<noteq> length s2);
              u = takeWhile is_unit_char s2;
              s3 = dropWhile is_unit_char s2
          in if \<not> pre \<and> \<not> post then None
             else if u = [] then None
             else case map_of unit_map u of
               None \<Rightarrow> None
             | Some unit \<Rightarrow>
                 if 2 ^ 63 div unit < v then None
                 else
                   let w = v * unit +
                         (if 0 < f
                          then f64_trunc (f64_mul (f64_of_nat f) (f64_div (f64_of_nat unit) scale))
                          else 0)
                   in if 2 ^ 63 < w then None else Some (w, s3))"

lemma leading_int_length: "leading_int x s = Some (v, s') \<Longrightarrow> length s' \<le> length s"
  by (induction x s rule: leading_int.induct) (auto split: if_splits)

lemma leading_fraction_length: "length (snd (snd (leading_fraction x sc ov s))) \<le> length s"
  by (induction s arbitrary: x sc ov) (simp_all add: le_SucI)

lemma duration_item_shorter:
  assumes "duration_item s = Some (w, s')"
  shows "length s' < length s"
proof -
  obtain v s1 where li: "leading_int 0 s = Some (v, s1)"
    using assms by (auto simp: duration_item_def split: if_splits option.splits)
  define s2 where "s2 = (if s1 \<noteq> [] \<and> hd s1 = CHR ''.''
    then snd (snd (leading_fraction 0 (1, 0) False (tl s1))) else s1)"
  have "length s1 \<le> length s" using li by (rule leading_int_length)
  moreover have "length s2 \<le> length s1"
    using leading_fraction_length [of 0 "(1, 0)" False "tl s1"] by (auto simp: s2_def)
  moreover have "takeWhile is_unit_char s2 \<noteq> []" and "s' = dropWhile is_unit_char s2"
    using assms li
    by (auto simp: duration_item_def Let_def s2_def split: if_splits option.splits)
  moreover have "length (dropWhile is_unit_char s2) < length s2"
    if "takeWhile is_unit_char s2 \<noteq> []"
  proof -
    have "length s2 = length (takeWhile is_unit_char s2) + length (dropWhile is_unit_char s2)"
      by (metis length_append takeWhile_dropWhile_id)
    with that show ?thesis by simp
  qed
  ultimately show ?thesis by simp
qed

text \<open>
  The loop. The sum is a \<^verbatim>\<open>uint64\<close>: two items of \<open>2^63\<close> each wrap to 0, and the test
  that follows does not see it.
\<close>

function duration_items :: "nat \<Rightarrow> string \<Rightarrow> nat option" where
  "duration_items d s =
     (if s = [] then Some d
      else case duration_item s of
        None \<Rightarrow> None
      | Some (v, s') \<Rightarrow>
          (let d' = (d + v) mod 2 ^ 64
           in if 2 ^ 63 < d' then None else duration_items d' s'))"
  by pat_completeness auto
termination
  by (relation "measure (\<lambda>(d, s). length s)") (auto dest: duration_item_shorter)

declare duration_items.simps [simp del]

definition parse_duration :: "string \<Rightarrow> duration option" where
  "parse_duration s0 =
     (let signed = (s0 \<noteq> [] \<and> (hd s0 = CHR ''-'' \<or> hd s0 = CHR ''+''));
          neg = (signed \<and> hd s0 = CHR ''-'');
          s = (if signed then tl s0 else s0)
      in if s = ''0'' then Some 0
         else if s = [] then None
         else case duration_items 0 s of
           None \<Rightarrow> None
         | Some d \<Rightarrow>
             if neg then Some (- int d)
             else if 2 ^ 63 - 1 < d then None
             else Some (int d))"

lemma duration_items_bound: "duration_items d s = Some r \<Longrightarrow> d \<le> 2 ^ 63 \<Longrightarrow> r \<le> 2 ^ 63"
proof (induction d s rule: duration_items.induct)
  case (1 d s)
  show ?case
  proof (cases "s = []")
    case True
    with 1 show ?thesis by (simp add: duration_items.simps)
  next
    case False
    with "1.prems" obtain v s' where it: "duration_item s = Some (v, s')"
      by (subst (asm) duration_items.simps) (auto split: option.splits)
    have le: "\<not> 2 ^ 63 < (d + v) mod 2 ^ 64"
      and rec: "duration_items ((d + v) mod 2 ^ 64) s' = Some r"
      using "1.prems"(1) False it
      by (subst (asm) duration_items.simps, simp add: Let_def split: if_splits)+
    show ?thesis
      using "1.IH" [OF False it _ refl le rec] le by simp
  qed
qed


text \<open>Whatever is parsed is an \<^verbatim>\<open>int64\<close>.\<close>

lemma parse_duration_range:
  assumes "parse_duration s = Some d"
  shows "- (2 ^ 63) \<le> d" and "d < 2 ^ 63"
proof -
  have "- (2 ^ 63) \<le> d \<and> d < 2 ^ 63"
    using assms
    by (auto simp: parse_duration_def Let_def split: if_splits option.splits
          dest!: duration_items_bound)
  then show "- (2 ^ 63) \<le> d" and "d < 2 ^ 63" by auto
qed

lemma parse_duration_Nil [simp]: "parse_duration [] = None"
  by (simp add: parse_duration_def)

subsection \<open>Parsing whole numbers of units\<close>

definition starts_item :: "string \<Rightarrow> bool" where
  "starts_item s \<longleftrightarrow> s = [] \<or> is_digit (hd s)"

lemma starts_item_simps [simp]: "starts_item []" "starts_item (show_nat n @ s)"
  using show_nat_digits [of "hd (show_nat n)" n] by (simp_all add: starts_item_def)

lemma leading_int_digits:
  assumes "list_all is_digit ds" and "digits_value x ds \<le> 2 ^ 63"
    and "s = [] \<or> \<not> is_digit (hd s)"
  shows "leading_int x (ds @ s) = Some (digits_value x ds, s)"
  using assms
proof (induction ds arbitrary: x)
  case Nil
  then show ?case by (cases s) auto
next
  case (Cons c ds)
  have "10 * x + digit_val c \<le> digits_value (10 * x + digit_val c) ds"
    by (rule digits_value_ge)
  with Cons.prems have le: "10 * x + digit_val c \<le> 2 ^ 63" by simp
  then have "x \<le> 2 ^ 63 div 10" by simp
  with le Cons show ?case by simp
qed

lemma unit_chars:
  assumes "(u, n) \<in> set unit_map"
  shows "u \<noteq> [] \<and> list_all is_unit_char u \<and> map_of unit_map u = Some n \<and> 0 < n"
proof -
  have "list_all (\<lambda>(u, n). u \<noteq> [] \<and> list_all is_unit_char u) unit_map"
    by (simp add: unit_map_def is_unit_char_def is_digit_def)
  moreover have "distinct (map fst unit_map)"
    by (simp add: unit_map_def)
  moreover have "list_all (\<lambda>(u, n). 0 < n) unit_map"
    by (simp add: unit_map_def time_units)
  ultimately show ?thesis using assms by (auto simp: list_all_iff)
qed

lemma takeWhile_unit:
  assumes "list_all is_unit_char u" and "starts_item s"
  shows "takeWhile is_unit_char (u @ s) = u" and "dropWhile is_unit_char (u @ s) = s"
proof -
  have "s = [] \<or> \<not> is_unit_char (hd s)"
    using assms(2) by (auto simp: starts_item_def is_unit_char_def)
  then have "takeWhile is_unit_char s = []" and "dropWhile is_unit_char s = s"
    by (cases s; simp)+
  with assms(1) show "takeWhile is_unit_char (u @ s) = u" "dropWhile is_unit_char (u @ s) = s"
    by (simp_all add: list_all_iff takeWhile_append2 dropWhile_append2)
qed

lemma duration_item_whole:
  assumes "(u, n) \<in> set unit_map" and "v * n \<le> 2 ^ 63" and "starts_item s"
  shows "duration_item (show_nat v @ u @ s) = Some (v * n, s)"
proof -
  from assms(1) have u: "u \<noteq> []" "list_all is_unit_char u" "map_of unit_map u = Some n" "0 < n"
    by (auto dest: unit_chars)
  then have hd_u: "is_unit_char (hd u)" by (cases u) auto
  then have not_dot: "hd u \<noteq> CHR ''.''" and not_digit: "\<not> is_digit (hd u)"
    by (auto simp: is_unit_char_def)
  have le: "v \<le> 2 ^ 63"
    using assms(2) u(4) by (metis le_trans mult.right_neutral mult_le_mono2 Suc_leI One_nat_def)
  have li: "leading_int 0 (show_nat v @ u @ s) = Some (v, u @ s)"
    using leading_int_digits [of "show_nat v" 0 "u @ s"] le u(1) not_digit by simp
  have "v \<le> 2 ^ 63 div n"
    using assms(2) u(4) by (simp add: less_eq_div_iff_mult_less_eq)
  moreover have "is_digit (hd (show_nat v))"
    using show_nat_digits [of "hd (show_nat v)" v] by simp
  ultimately show ?thesis
    using li u not_dot assms(2) takeWhile_unit [OF u(2) assms(3)]
    by (simp add: duration_item_def Let_def)
qed

lemma duration_items_whole:
  assumes "(u, n) \<in> set unit_map" and "d + v * n \<le> 2 ^ 63" and "starts_item s"
  shows "duration_items d (show_nat v @ u @ s) = duration_items (d + v * n) s"
proof -
  have "duration_item (show_nat v @ u @ s) = Some (v * n, s)"
    using assms by (intro duration_item_whole) auto
  then show ?thesis
    using assms(2) by (subst duration_items.simps) (simp add: Let_def)
qed

lemma duration_items_Nil [simp]: "duration_items d [] = Some d"
  by (simp add: duration_items.simps)

text \<open>The usual way to write a duration: a number and a unit.\<close>

lemma parse_duration_single:
  assumes "(u, n) \<in> set unit_map" and "v * n < 2 ^ 63"
  shows "parse_duration (show_nat v @ u) = Some (int (v * n))"
proof -
  have "duration_items 0 (show_nat v @ u) = Some (v * n)"
    using duration_items_whole [OF assms(1), of 0 v "[]"] assms(2) by simp
  moreover have "u \<noteq> []" using assms(1) by (auto dest: unit_chars)
  then have "show_nat v @ u \<noteq> ''0''"
    using show_nat_not_Nil [of v] by (auto simp: append_eq_Cons_conv)
  moreover have "hd (show_nat v @ u) = hd (show_nat v)" by simp
  moreover have "show_nat v @ u \<noteq> []" by simp
  ultimately show ?thesis
    using assms(2) by (simp add: parse_duration_def Let_def)
qed

lemma parse_duration_8h: "parse_duration ''8h'' = Some 28800000000000"
proof -
  have "digit 8 = CHR ''8''" by code_simp
  then show ?thesis
    using parse_duration_single [of "''h''" hour 8]
    by (simp add: unit_map_def hour_def show_nat_small)
qed

section \<open>Duration.String\<close>

text \<open>
  \<^verbatim>\<open>fmtFrac\<close> writes the digits right to left and drops trailing zeros, and the point
  with them when nothing is left.
\<close>

fun fmt_frac :: "nat \<Rightarrow> nat \<Rightarrow> bool \<Rightarrow> string \<Rightarrow> string \<times> nat" where
  "fmt_frac 0 v print acc = (if print then CHR ''.'' # acc else acc, v)"
| "fmt_frac (Suc prec) v print acc =
     (let d = v mod 10; print' = (print \<or> d \<noteq> 0)
      in fmt_frac prec (v div 10) print' (if print' then digit d # acc else acc))"

definition duration_text :: "nat \<Rightarrow> string" where
  "duration_text u =
     (if u < second then
        (if u = 0 then ''0s''
         else
           let (prec, suffix) =
                 (if u < microsecond then (0, ''ns'')
                  else if u < millisecond then (3, [CHR 0xC2, CHR 0xB5, CHR ''s''])
                  else (6, ''ms''));
               (frac, w) = fmt_frac prec u False suffix
           in show_nat w @ frac)
      else
        let (frac, secs) = fmt_frac 9 u False ''s'';
            tail = show_nat (secs mod 60) @ frac;
            mins = secs div 60
        in if mins = 0 then tail
           else
             let tail' = show_nat (mins mod 60) @ ''m'' @ tail;
                 hours = mins div 60
             in if hours = 0 then tail' else show_nat hours @ ''h'' @ tail')"

definition duration_string :: "duration \<Rightarrow> string" where
  "duration_string d =
     (if d < 0 then CHR ''-'' # duration_text (nat \<bar>d\<bar>) else duration_text (nat \<bar>d\<bar>))"

lemma fmt_frac_zero:
  "fmt_frac prec (n * 10 ^ prec) False acc = (acc, n)"
proof (induction prec arbitrary: n)
  case 0
  then show ?case by simp
next
  case (Suc prec)
  have "n * 10 ^ Suc prec mod 10 = 0" and "n * 10 ^ Suc prec div 10 = n * 10 ^ prec"
    by simp_all
  with Suc show ?case by simp
qed

text \<open>The text of a duration of whole seconds, and what the loop reads from it.\<close>

lemma duration_items_string:
  fixes k :: nat
  assumes "k * second \<le> 2 ^ 63"
  defines "s \<equiv> show_nat (k mod 60) @ ''s''"
    and "m \<equiv> k div 60"
  shows "duration_items 0 s = Some (k mod 60 * second)"
    and "duration_items 0 (show_nat (m mod 60) @ ''m'' @ s)
           = Some (m mod 60 * minute + k mod 60 * second)"
    and "duration_items 0 (show_nat (m div 60) @ ''h'' @ show_nat (m mod 60) @ ''m'' @ s)
           = Some (m div 60 * hour + m mod 60 * minute + k mod 60 * second)"
proof -
  have units: "(''s'', second) \<in> set unit_map" "(''m'', minute) \<in> set unit_map"
      "(''h'', hour) \<in> set unit_map"
    by (auto simp: unit_map_def)
  have "k = m * 60 + k mod 60" and "m = m div 60 * 60 + m mod 60"
    unfolding m_def by (simp_all only: div_mult_mod_eq)
  then have k: "k = m div 60 * 3600 + m mod 60 * 60 + k mod 60"
    by linarith
  have h: "m div 60 * hour + m mod 60 * minute + k mod 60 * second = k * second"
    using k unfolding time_units by linarith
  then have b: "m div 60 * hour \<le> 2 ^ 63"
      "m div 60 * hour + m mod 60 * minute \<le> 2 ^ 63"
      "m div 60 * hour + m mod 60 * minute + k mod 60 * second \<le> 2 ^ 63"
      "m mod 60 * minute \<le> 2 ^ 63" "m mod 60 * minute + k mod 60 * second \<le> 2 ^ 63"
      "k mod 60 * second \<le> 2 ^ 63"
    using assms(1) by linarith+
  have sec: "duration_items d (show_nat v @ ''s'') = Some (d + v * second)"
    if "d + v * second \<le> 2 ^ 63" for d v
    using duration_items_whole [OF units(1) that, of "[]"] by simp
  have min_sec: "duration_items d (show_nat v @ ''m'' @ s) = Some (d + v * minute + k mod 60 * second)"
    if "d + v * minute + k mod 60 * second \<le> 2 ^ 63" for d v
    using that duration_items_whole [OF units(2), of d v s]
    by (simp add: s_def sec del: append.simps)
  show "duration_items 0 s = Some (k mod 60 * second)"
    using sec [of 0 "k mod 60"] b(6) by (simp add: s_def del: append.simps)
  show "duration_items 0 (show_nat (m mod 60) @ ''m'' @ s)
           = Some (m mod 60 * minute + k mod 60 * second)"
    using min_sec [of 0 "m mod 60"] b(5) by (simp del: append.simps)
  have "duration_items 0 (show_nat (m div 60) @ ''h'' @ show_nat (m mod 60) @ ''m'' @ s)
      = duration_items (m div 60 * hour) (show_nat (m mod 60) @ ''m'' @ s)"
    using duration_items_whole [OF units(3), of 0 "m div 60" "show_nat (m mod 60) @ ''m'' @ s"] b(1)
    by (simp del: append.simps)
  also have "\<dots> = Some (m div 60 * hour + m mod 60 * minute + k mod 60 * second)"
    using min_sec b(3) by blast
  finally show "duration_items 0 (show_nat (m div 60) @ ''h'' @ show_nat (m mod 60) @ ''m'' @ s)
      = Some (m div 60 * hour + m mod 60 * minute + k mod 60 * second)" .
qed

lemma digit_zero [simp]: "digit 0 = CHR ''0''"
  by code_simp

lemma duration_text_whole:
  assumes "0 < k"
  shows "duration_text (k * second) =
    (let tail = show_nat (k mod 60) @ ''s''; m = k div 60; tail' = show_nat (m mod 60) @ ''m'' @ tail
     in if m = 0 then tail
        else if m div 60 = 0 then tail' else show_nat (m div 60) @ ''h'' @ tail')"
proof -
  have "\<not> k * second < second" using assms by simp
  moreover have "k * second \<noteq> 0" using assms by (simp add: second_def)
  moreover have "fmt_frac 9 (k * second) False ''s'' = (''s'', k)"
    using fmt_frac_zero [of 9 k "''s''"] by (simp add: second_def)
  ultimately show ?thesis
    using assms by (auto simp: duration_text_def Let_def)
qed

lemma duration_items_text:
  assumes "k * second \<le> 2 ^ 63"
  shows "duration_items 0 (duration_text (k * second)) = Some (k * second)"
proof (cases "k = 0")
  case True
  then show ?thesis
    using duration_items_whole [of "''s''" second 0 0 "[]"]
    by (simp add: duration_text_def show_nat_small unit_map_def second_def)
next
  case False
  then have k: "0 < k" by simp
  have "k = k div 60 * 60 + k mod 60" and "k div 60 = k div 60 div 60 * 60 + k div 60 mod 60"
    by (simp_all only: div_mult_mod_eq)
  then have sum: "k div 60 div 60 * hour + k div 60 mod 60 * minute + k mod 60 * second = k * second"
    unfolding time_units by linarith
  note whole = duration_text_whole [OF k] and items = duration_items_string [OF assms]
  consider "k div 60 = 0" | "k div 60 \<noteq> 0" "k div 60 div 60 = 0" | "k div 60 div 60 \<noteq> 0"
    by fastforce
  then show ?thesis
  proof cases
    case 1
    then have "duration_text (k * second) = show_nat (k mod 60) @ ''s''"
      unfolding whole Let_def by simp
    with items(1) sum 1 show ?thesis by simp
  next
    case 2
    then have "duration_text (k * second) = show_nat (k div 60 mod 60) @ ''m'' @ show_nat (k mod 60) @ ''s''"
      unfolding whole Let_def by simp
    with items(2) sum 2 show ?thesis by simp
  next
    case 3
    then have "k div 60 \<noteq> 0" by (metis div_0)
    with 3 have "duration_text (k * second) =
        show_nat (k div 60 div 60) @ ''h'' @ show_nat (k div 60 mod 60) @ ''m'' @ show_nat (k mod 60) @ ''s''"
      unfolding whole Let_def by simp
    with items(3) sum show ?thesis by simp
  qed
qed

lemma duration_text_shape:
  "\<exists>n s. duration_text (k * second) = show_nat n @ s \<and> s \<noteq> []"
proof (cases "k = 0")
  case True
  then have "duration_text (k * second) = show_nat 0 @ ''s''"
    by (simp add: duration_text_def show_nat_small second_def)
  then show ?thesis by blast
next
  case False
  then show ?thesis
    by (auto simp: duration_text_whole Let_def)
qed

text \<open>
  \<^verbatim>\<open>ParseDuration\<close> reads back what \<^verbatim>\<open>Duration.String\<close> prints, for every duration of
  whole seconds.
\<close>

lemma parse_duration_string:
  assumes "d = k * int second" and "- (2 ^ 63) \<le> d" and "d < 2 ^ 63"
  shows "parse_duration (duration_string d) = Some d"
proof -
  define u where "u = nat \<bar>d\<bar>"
  have u: "u = nat \<bar>k\<bar> * second"
    using assms(1) by (simp add: u_def abs_mult nat_mult_distrib second_def)
  have le: "nat \<bar>k\<bar> * second \<le> 2 ^ 63"
    unfolding u [symmetric] u_def using assms(2,3) by simp
  obtain n s where shape: "duration_text u = show_nat n @ s" "s \<noteq> []"
    using duration_text_shape u by blast
  have items: "duration_items 0 (duration_text u) = Some u"
    using duration_items_text [OF le] u by simp
  have hd: "is_digit (hd (duration_text u))" and ne: "duration_text u \<noteq> []"
    using show_nat_digits [of "hd (show_nat n)" n] by (simp_all add: shape)
  then have no_sign: "hd (duration_text u) \<noteq> CHR ''-''" "hd (duration_text u) \<noteq> CHR ''+''"
    by (auto simp: is_digit_def)
  have "0 < length (show_nat n)" and "0 < length s" using shape(2) by simp_all
  then have "1 < length (duration_text u)" unfolding shape(1) length_append by linarith
  then have ne0: "duration_text u \<noteq> ''0''" by auto
  show ?thesis
  proof (cases "d < 0")
    case True
    with items ne ne0 no_sign assms(2) show ?thesis
      by (simp add: parse_duration_def duration_string_def Let_def u_def)
  next
    case False
    with items ne ne0 no_sign assms(3) show ?thesis
      by (simp add: parse_duration_def duration_string_def Let_def u_def)
  qed
qed

section \<open>RFC 3339 timestamps in UTC\<close>

text \<open>The proleptic Gregorian date of a day counted from 1970-01-01.\<close>

definition civil_of_days :: "int \<Rightarrow> int \<times> int \<times> int" where
  "civil_of_days z0 =
     (let z = z0 + 719468;
          era = z div 146097;
          doe = z mod 146097;
          yoe = (doe - doe div 1460 + doe div 36524 - doe div 146096) div 365;
          doy = doe - (365 * yoe + yoe div 4 - yoe div 100);
          mp = (5 * doy + 2) div 153;
          d = doy - (153 * mp + 2) div 5 + 1;
          m = (if mp < 10 then mp + 3 else mp - 9);
          y = yoe + era * 400
      in (if m \<le> 2 then y + 1 else y, m, d))"

definition pad_int :: "nat \<Rightarrow> int \<Rightarrow> string" where
  "pad_int w i =
     (let s = show_nat (nat \<bar>i\<bar>)
      in (if i < 0 then ''-'' else []) @ replicate (w - length s) (CHR ''0'') @ s)"

definition rfc3339_utc :: "gotime \<Rightarrow> string" where
  "rfc3339_utc t =
     (let secs = t div int second;
          (y, m, d) = civil_of_days (secs div 86400);
          r = secs mod 86400
      in pad_int 4 y @ ''-'' @ pad_int 2 m @ ''-'' @ pad_int 2 d @ ''T'' @
         pad_int 2 (r div 3600) @ '':'' @ pad_int 2 (r div 60 mod 60) @ '':'' @
         pad_int 2 (r mod 60) @ ''Z'')"

text \<open>The zero \<^verbatim>\<open>time.Time\<close>: January 1, year 1, 00:00:00 UTC.\<close>

definition zero_time :: gotime where
  "zero_time = - 62135596800 * int second"

end
