(* ===== verification/Kube.thy ===== *)
theory Kube
  imports Go_Maps Go_Time
begin

text \<open>
  The fields of the Kubernetes objects the operator reads or writes. What the code passes
  through untouched is one opaque \<open>_other\<close> field per object, empty in an object the code
  builds itself. A pointer that may be nil is an \<open>option\<close>.
\<close>

section \<open>Metadata\<close>

record namespaced_name =
  nn_namespace :: string
  nn_name :: string

record owner_reference =
  or_kind :: string
  or_api_version :: string
  or_name :: string
  or_uid :: string

record object_meta =
  om_name :: string
  om_namespace :: string
  om_uid :: string
  om_labels :: gomap
  om_annotations :: gomap
  om_finalizers :: "string list"
  om_owners :: "owner_reference list"
  om_creation :: gotime
  om_deletion :: "gotime option"
  om_other :: string

definition empty_meta :: object_meta where
  "empty_meta = \<lparr>om_name = [], om_namespace = [], om_uid = [], om_labels = None,
     om_annotations = None, om_finalizers = [], om_owners = [], om_creation = zero_time,
     om_deletion = None, om_other = []\<rparr>"

text \<open>\<^verbatim>\<open>(*metav1.Time).IsZero\<close>: a nil pointer or the zero time.\<close>

definition time_ptr_is_zero :: "gotime option \<Rightarrow> bool" where
  "time_ptr_is_zero t \<longleftrightarrow> (case t of None \<Rightarrow> True | Some u \<Rightarrow> u = zero_time)"

section \<open>Pods\<close>

record env_var =
  ev_name :: string
  ev_value :: string
  ev_other :: string

record volume_mount =
  vm_name :: string
  vm_path :: string
  vm_sub_path :: string
  vm_read_only :: bool
  vm_other :: string

record container =
  c_name :: string
  c_image :: string
  c_env :: "env_var list"
  c_mounts :: "volume_mount list"
  c_other :: string

record csi_source =
  csi_driver :: string
  csi_read_only :: "bool option"
  csi_attributes :: gomap

record config_map_source =
  cms_name :: string
  cms_mode :: "int32 option"

datatype volume_source =
    CSI csi_source
  | ConfigMapSource config_map_source
  | OtherSource string

record volume =
  v_name :: string
  v_source :: volume_source

record pod_spec =
  ps_volumes :: "volume list"
  ps_containers :: "container list"
  ps_service_account :: string
  ps_restart_policy :: string
  ps_other :: string

record pod_template =
  pt_meta :: object_meta
  pt_spec :: pod_spec

section \<open>The objects\<close>

record service_account =
  sa_meta :: object_meta
  sa_other :: string

record statefulset =
  sfs_meta :: object_meta
  sfs_replicas :: "int32 option"
  sfs_template :: pod_template
  sfs_other :: string

record job =
  job_meta :: object_meta
  job_deadline_seconds :: "int option"
  job_ttl_seconds :: "int32 option"
  job_template :: pod_template
  job_completion :: "gotime option"
  job_other :: string

record config_map =
  cm_meta :: object_meta
  cm_data :: gomap

abbreviation sa_annotations :: "service_account \<Rightarrow> gomap" where
  "sa_annotations sa \<equiv> om_annotations (sa_meta sa)"

abbreviation sfs_annotations :: "statefulset \<Rightarrow> gomap" where
  "sfs_annotations s \<equiv> om_annotations (sfs_meta s)"

abbreviation sfs_pod :: "statefulset \<Rightarrow> pod_spec" where
  "sfs_pod s \<equiv> pt_spec (sfs_template s)"

definition set_sa_annotations :: "gomap \<Rightarrow> service_account \<Rightarrow> service_account" where
  "set_sa_annotations m sa = sa\<lparr>sa_meta := (sa_meta sa)\<lparr>om_annotations := m\<rparr>\<rparr>"

definition set_sa_finalizers :: "string list \<Rightarrow> service_account \<Rightarrow> service_account" where
  "set_sa_finalizers fs sa = sa\<lparr>sa_meta := (sa_meta sa)\<lparr>om_finalizers := fs\<rparr>\<rparr>"

definition set_sfs_annotations :: "gomap \<Rightarrow> statefulset \<Rightarrow> statefulset" where
  "set_sfs_annotations m s = s\<lparr>sfs_meta := (sfs_meta s)\<lparr>om_annotations := m\<rparr>\<rparr>"

definition set_sfs_pod :: "pod_spec \<Rightarrow> statefulset \<Rightarrow> statefulset" where
  "set_sfs_pod p s = s\<lparr>sfs_template := (sfs_template s)\<lparr>pt_spec := p\<rparr>\<rparr>"

definition set_job_finalizers :: "string list \<Rightarrow> job \<Rightarrow> job" where
  "set_job_finalizers fs j = j\<lparr>job_meta := (job_meta j)\<lparr>om_finalizers := fs\<rparr>\<rparr>"

lemma set_object_fields [simp]:
  "sa_annotations (set_sa_annotations m sa) = m"
  "sa_annotations (set_sa_finalizers fs sa) = sa_annotations sa"
  "om_finalizers (sa_meta (set_sa_finalizers fs sa)) = fs"
  "om_finalizers (sa_meta (set_sa_annotations m sa)) = om_finalizers (sa_meta sa)"
  "sfs_annotations (set_sfs_annotations m s) = m"
  "sfs_annotations (set_sfs_pod p s) = sfs_annotations s"
  "sfs_pod (set_sfs_pod p s) = p"
  "sfs_template (set_sfs_annotations m s) = sfs_template s"
  "sfs_replicas (set_sfs_annotations m s) = sfs_replicas s"
  "sfs_replicas (set_sfs_pod p s) = sfs_replicas s"
  "om_finalizers (job_meta (set_job_finalizers fs j)) = fs"
  by (simp_all add: set_sa_annotations_def set_sa_finalizers_def set_sfs_annotations_def
      set_sfs_pod_def set_job_finalizers_def)

section \<open>Containers of a pod by index\<close>

text \<open>
  \<^verbatim>\<open>&pod.Spec.Containers[idx]\<close> is a pointer into the slice: reads and writes through it
  are reads and writes of the element.
\<close>

definition modify_container :: "nat \<Rightarrow> (container \<Rightarrow> container) \<Rightarrow> pod_spec \<Rightarrow> pod_spec" where
  "modify_container i f p =
     p\<lparr>ps_containers := (ps_containers p)[i := f (ps_containers p ! i)]\<rparr>"

lemma modify_container_fields [simp]:
  "ps_volumes (modify_container i f p) = ps_volumes p"
  "ps_service_account (modify_container i f p) = ps_service_account p"
  "ps_restart_policy (modify_container i f p) = ps_restart_policy p"
  "ps_other (modify_container i f p) = ps_other p"
  "length (ps_containers (modify_container i f p)) = length (ps_containers p)"
  by (simp_all add: modify_container_def)

lemma modify_container_nth [simp]:
  "i < length (ps_containers p) \<Longrightarrow>
     ps_containers (modify_container i f p) ! j =
       (if j = i then f (ps_containers p ! i) else ps_containers p ! j)"
  by (simp add: modify_container_def nth_list_update)

lemma modify_container_twice [simp]:
  "i < length (ps_containers p) \<Longrightarrow>
     modify_container i f (modify_container i g p) = modify_container i (f \<circ> g) p"
  by (simp add: modify_container_def)

end
