(* ===== verification/Template.thy ===== *)
theory Template
  imports Go_Strings
begin

text \<open>
  \<^verbatim>\<open>internal/template\<close>: the typed wrapper around \<^verbatim>\<open>text/template\<close>. A parsed template is
  what executing it does: a function from the data to the text, or to an error. The
  engine itself (what \<^verbatim>\<open>New\<close> and \<^verbatim>\<open>Parse\<close> return) is a parameter, because operators may
  configure any template; the field templates below are the fragment the built-in
  defaults use.
\<close>

type_synonym 'd template = "'d \<Rightarrow> string + string"

record 'd engine =
  te_new :: "string \<Rightarrow> 'd template"
  te_parse :: "string \<Rightarrow> string + 'd template"

datatype template_error =
    NilTemplate
  | ExecuteFailed string
  | UnmarshalFailed string
  | ParseFailed string

text \<open>\<^verbatim>\<open>AnonymousTemplate[T]\<close> embeds a pointer to a template, nil in a zero value.\<close>

type_synonym 'd anonymous_template = "'d template option"

definition execute :: "'d anonymous_template \<Rightarrow> 'd \<Rightarrow> template_error + string" where
  "execute t data =
     (case t of
        None \<Rightarrow> Inl NilTemplate
      | Some tpl \<Rightarrow> (case tpl data of Inl e \<Rightarrow> Inl (ExecuteFailed e) | Inr s \<Rightarrow> Inr s))"

text \<open>
  Both decoders install the new, still empty template before they parse, so after a parse
  error the wrapper is not nil.
\<close>

definition unmarshal_text ::
  "'d engine \<Rightarrow> 'd anonymous_template \<Rightarrow> string \<Rightarrow> 'd anonymous_template \<times> template_error option" where
  "unmarshal_text e t txt =
     (case te_parse e txt of
        Inl msg \<Rightarrow> (Some (te_new e txt), Some (ParseFailed msg))
      | Inr tpl \<Rightarrow> (Some tpl, None))"

definition unmarshal_yaml ::
  "'d engine \<Rightarrow> 'd anonymous_template \<Rightarrow> string + string
     \<Rightarrow> 'd anonymous_template \<times> template_error option" where
  "unmarshal_yaml e t node =
     (case node of
        Inl msg \<Rightarrow> (t, Some (UnmarshalFailed msg))
      | Inr txt \<Rightarrow>
          (case te_parse e txt of
             Inl msg \<Rightarrow> (Some (te_new e txt), Some (ParseFailed msg))
           | Inr tpl \<Rightarrow> (Some tpl, None)))"

lemma execute_Some [simp]: "execute (Some tpl) d = Inr s \<longleftrightarrow> tpl d = Inr s"
  by (auto simp: execute_def split: sum.splits)

lemma unmarshal_text_ok_iff:
  "snd (unmarshal_text e t txt) = None \<longleftrightarrow> (\<exists>tpl. te_parse e txt = Inr tpl)"
  by (auto simp: unmarshal_text_def split: sum.splits)

text \<open>A YAML scalar decodes exactly as the same text does.\<close>

lemma unmarshal_yaml_text: "unmarshal_yaml e t (Inr txt) = unmarshal_text e t txt"
  by (simp add: unmarshal_yaml_def unmarshal_text_def)

section \<open>Field templates\<close>

text \<open>
  Text with actions \<^verbatim>\<open>{{.Field}}\<close>. Cutting at the braces, a template of the fragment is
  literal pieces and field names in turn.
\<close>

datatype piece = Lit string | Field string

fun run_pieces :: "(string \<Rightarrow> string option) \<Rightarrow> piece list \<Rightarrow> string + string" where
  "run_pieces env [] = Inr []"
| "run_pieces env (Lit s # ps) = (case run_pieces env ps of Inl e \<Rightarrow> Inl e | Inr t \<Rightarrow> Inr (s @ t))"
| "run_pieces env (Field f # ps) =
     (case env f of
        None \<Rightarrow> Inl (''no field '' @ f)
      | Some v \<Rightarrow> (case run_pieces env ps of Inl e \<Rightarrow> Inl e | Inr t \<Rightarrow> Inr (v @ t)))"

fun print_pieces :: "piece list \<Rightarrow> string" where
  "print_pieces [] = []"
| "print_pieces (Lit s # ps) = s @ print_pieces ps"
| "print_pieces (Field f # ps) = ''{{.'' @ f @ ''}}'' @ print_pieces ps"

text \<open>What \<^verbatim>\<open>text/template\<close> documents for this fragment.\<close>

definition piece_ok :: "piece \<Rightarrow> bool" where
  "piece_ok p \<longleftrightarrow>
     (case p of
        Lit s \<Rightarrow> CHR 0x7B \<notin> set s
      | Field f \<Rightarrow> f \<noteq> [] \<and> (\<forall>c \<in> set f. c \<noteq> CHR 0x7B \<and> c \<noteq> CHR 0x7D \<and> c \<noteq> CHR '' '' \<and> c \<noteq> CHR ''.''))"

definition engine_law :: "'d engine \<Rightarrow> ('d \<Rightarrow> string \<Rightarrow> string option) \<Rightarrow> bool" where
  "engine_law e field_of \<longleftrightarrow>
     (\<forall>ps. list_all piece_ok ps \<longrightarrow>
        te_parse e (print_pieces ps) = Inr (\<lambda>d. run_pieces (field_of d) ps))"

end
