(* ===== verification/Common.thy ===== *)
theory Common
  imports Template Go_Time Go_Maps
begin

text \<open>
  \<^verbatim>\<open>internal/controller/common.go\<close>: the annotation keys the operator reads and writes, and
  the configuration of the access groups.
\<close>

section \<open>Constants\<close>

definition impersonateGroupAnnotation :: string where
  "impersonateGroupAnnotation = ''dapla.ssb.no/impersonate-group''"
definition mountBucketsAnnotation :: string where
  "mountBucketsAnnotation = ''dapla.ssb.no/mount-buckets''"
definition mountStandardBucketsAnnotation :: string where
  "mountStandardBucketsAnnotation = ''dapla.ssb.no/mount-standard-buckets''"
definition mountSharedBucketsAnnotation :: string where
  "mountSharedBucketsAnnotation = ''dapla.ssb.no/mount-shared-buckets''"
definition serviceContainerAnnotation :: string where
  "serviceContainerAnnotation = ''dapla.ssb.no/service-container-name''"
definition requestedServiceDurationAnnotation :: string where
  "requestedServiceDurationAnnotation = ''dapla.ssb.no/requested-service-duration''"
definition accessReasonAnnotation :: string where
  "accessReasonAnnotation = ''dapla.ssb.no/access-reason''"
definition probeJobStatefulsetAnnotation :: string where
  "probeJobStatefulsetAnnotation = ''dapla.ssb.no/statefulset-probe-name''"
definition iamProbeStatus :: string where
  "iamProbeStatus = ''dapla.ssb.no/iam-probe-completed''"
definition iamProbeRunningPrefix :: string where
  "iamProbeRunningPrefix = ''running-replicas-''"
definition iamProbeDone :: string where
  "iamProbeDone = ''done''"
definition daplaTeamLabel :: string where
  "daplaTeamLabel = ''dapla.ssb.no/team''"
definition daplaGroupLabel :: string where
  "daplaGroupLabel = ''dapla.ssb.no/group''"
definition istioExcludedIpRangesAnnotation :: string where
  "istioExcludedIpRangesAnnotation = ''traffic.sidecar.istio.io/excludeOutboundIPRanges''"
definition gcsfuseOutboundIPRange :: string where
  "gcsfuseOutboundIPRange = ''169.254.169.254/32''"
definition gkeWIAnnotation :: string where
  "gkeWIAnnotation = ''iam.gke.io/gcp-service-account''"
definition wiRole :: string where
  "wiRole = ''roles/iam.workloadIdentityUser''"
definition finalizerName :: string where
  "finalizerName = ''dapla.ssb.no/ssbucketeer''"
definition userNamespacePrefix :: string where
  "userNamespacePrefix = ''user-ssb-''"
definition iamConditionKey :: string where
  "iamConditionKey = ''ssbucketeer.namespacedName''"

lemmas annotation_keys =
  impersonateGroupAnnotation_def mountBucketsAnnotation_def mountStandardBucketsAnnotation_def
  mountSharedBucketsAnnotation_def serviceContainerAnnotation_def
  requestedServiceDurationAnnotation_def accessReasonAnnotation_def
  probeJobStatefulsetAnnotation_def iamProbeStatus_def daplaTeamLabel_def daplaGroupLabel_def
  istioExcludedIpRangesAnnotation_def gkeWIAnnotation_def

text \<open>The keys of one object's annotations never collide.\<close>

lemma annotation_keys_distinct:
  "distinct [impersonateGroupAnnotation, mountBucketsAnnotation, mountStandardBucketsAnnotation,
     mountSharedBucketsAnnotation, serviceContainerAnnotation, requestedServiceDurationAnnotation,
     accessReasonAnnotation, probeJobStatefulsetAnnotation, iamProbeStatus, gkeWIAnnotation]"
  by (simp add: annotation_keys)

section \<open>Access groups\<close>

record project_template_data =
  pd_team :: string
  pd_stage :: string

record shared_bucket_template_data =
  sd_team :: string
  sd_short_name :: string
  sd_stage :: string

record access_group_config =
  gc_name :: string
  gc_project_template :: "project_template_data anonymous_template"
  gc_max_duration :: duration
  gc_reason_required :: bool

definition to_team :: "access_group_config \<Rightarrow> string \<Rightarrow> string" where
  "to_team c grp = trim_suffix (trim_suffix grp (gc_name c)) ''-''"

fun get_config :: "access_group_config list \<Rightarrow> string \<Rightarrow> access_group_config option" where
  "get_config [] grp = None"
| "get_config (c # cs) grp =
     (if trim_suffix grp (gc_name c) \<noteq> grp then Some c else get_config cs grp)"

text \<open>A configuration applies to a group when its non-empty name is a suffix of it.\<close>

definition config_applies :: "access_group_config \<Rightarrow> string \<Rightarrow> bool" where
  "config_applies c grp \<longleftrightarrow> gc_name c \<noteq> [] \<and> has_suffix grp (gc_name c)"

lemma trim_suffix_config: "trim_suffix grp (gc_name c) \<noteq> grp \<longleftrightarrow> config_applies c grp"
  by (simp add: trim_suffix_eq_iff config_applies_def)

lemma get_config_find: "get_config cs grp = find (\<lambda>c. config_applies c grp) cs"
  by (induction cs) (simp_all add: trim_suffix_config)

declare get_config.simps [simp del]

lemma get_config_SomeD:
  "get_config cs grp = Some c \<Longrightarrow> c \<in> set cs \<and> config_applies c grp"
  by (auto simp: get_config_find find_Some_iff)

lemma get_config_None_iff:
  "get_config cs grp = None \<longleftrightarrow> (\<forall>c \<in> set cs. \<not> config_applies c grp)"
  by (auto simp: get_config_find find_None_iff)

text \<open>The team of a group named after it: \<^verbatim>\<open>team-suffix\<close> gives \<^verbatim>\<open>team\<close>.\<close>

lemma to_team_group: "to_team c (team @ ''-'' @ gc_name c) = team"
proof -
  have "trim_suffix (team @ ''-'' @ gc_name c) (gc_name c) = team @ ''-''"
    using trim_suffix_append [of "team @ ''-''" "gc_name c"] by simp
  then show ?thesis by (simp add: to_team_def)
qed

end
