(* ===== verification/Go_MD5.thy ===== *)
theory Go_MD5
  imports Go_Numbers
begin

text \<open>
  \<^verbatim>\<open>crypto/md5\<close> of the Go standard library, on the bytes of a string: the padding, the
  sixty-four steps on four 32-bit words, and the little-endian digest of sixteen bytes.
\<close>

unbundle bit_operations_syntax

type_synonym md5_state = "32 word \<times> 32 word \<times> 32 word \<times> 32 word"

definition md5_table :: "32 word list" where
  "md5_table =
     [
      0xd76aa478, 0xe8c7b756, 0x242070db, 0xc1bdceee, 0xf57c0faf, 0x4787c62a,
      0xa8304613, 0xfd469501, 0x698098d8, 0x8b44f7af, 0xffff5bb1, 0x895cd7be,
      0x6b901122, 0xfd987193, 0xa679438e, 0x49b40821, 0xf61e2562, 0xc040b340,
      0x265e5a51, 0xe9b6c7aa, 0xd62f105d, 0x02441453, 0xd8a1e681, 0xe7d3fbc8,
      0x21e1cde6, 0xc33707d6, 0xf4d50d87, 0x455a14ed, 0xa9e3e905, 0xfcefa3f8,
      0x676f02d9, 0x8d2a4c8a, 0xfffa3942, 0x8771f681, 0x6d9d6122, 0xfde5380c,
      0xa4beea44, 0x4bdecfa9, 0xf6bb4b60, 0xbebfbc70, 0x289b7ec6, 0xeaa127fa,
      0xd4ef3085, 0x04881d05, 0xd9d4d039, 0xe6db99e5, 0x1fa27cf8, 0xc4ac5665,
      0xf4292244, 0x432aff97, 0xab9423a7, 0xfc93a039, 0x655b59c3, 0x8f0ccc92,
      0xffeff47d, 0x85845dd1, 0x6fa87e4f, 0xfe2ce6e0, 0xa3014314, 0x4e0811a1,
      0xf7537e82, 0xbd3af235, 0x2ad7d2bb, 0xeb86d391]"

definition md5_shifts :: "nat list" where
  "md5_shifts =
     concat (map (\<lambda>r. concat (replicate 4 r))
       [[7, 12, 17, 22], [5, 9, 14, 20], [4, 11, 16, 23], [6, 10, 15, 21]])"

text \<open>The word of four bytes, lowest first, and back.\<close>

fun word_of_bytes :: "string \<Rightarrow> 32 word" where
  "word_of_bytes [] = 0"
| "word_of_bytes (b # bs) = word_of_nat (of_char b) + 256 * word_of_bytes bs"

fun bytes_of_nat :: "nat \<Rightarrow> nat \<Rightarrow> string" where
  "bytes_of_nat 0 n = []"
| "bytes_of_nat (Suc k) n = char_of (n mod 256) # bytes_of_nat k (n div 256)"

definition md5_pad :: "string \<Rightarrow> string" where
  "md5_pad s =
     s @ [CHR 0x80] @ replicate ((119 - length s mod 64) mod 64) (CHR 0x00)
       @ bytes_of_nat 8 (8 * length s)"

fun md5_block_words :: "nat \<Rightarrow> string \<Rightarrow> 32 word list" where
  "md5_block_words 0 s = []"
| "md5_block_words (Suc k) s = word_of_bytes (take 4 s) # md5_block_words k (drop 4 s)"

definition md5_step :: "32 word list \<Rightarrow> nat \<Rightarrow> md5_state \<Rightarrow> md5_state" where
  "md5_step m i = (\<lambda>(a, b, c, d).
     let (f, g) =
           (if i < 16 then ((b AND c) OR (NOT b AND d), i)
            else if i < 32 then ((d AND b) OR (NOT d AND c), (5 * i + 1) mod 16)
            else if i < 48 then (b XOR c XOR d, (3 * i + 5) mod 16)
            else (c XOR (b OR NOT d), (7 * i) mod 16))
     in (d, b + word_rotl (md5_shifts ! i) (f + a + md5_table ! i + m ! g), b, c))"

definition md5_block :: "string \<Rightarrow> md5_state \<Rightarrow> md5_state" where
  "md5_block s = (\<lambda>(a, b, c, d).
     let m = md5_block_words 16 s;
         (a', b', c', d') = fold (md5_step m) [0 ..< 64] (a, b, c, d)
     in (a + a', b + b', c + c', d + d'))"

fun md5_blocks :: "nat \<Rightarrow> string \<Rightarrow> md5_state \<Rightarrow> md5_state" where
  "md5_blocks 0 s st = st"
| "md5_blocks (Suc n) s st = md5_blocks n (drop 64 s) (md5_block (take 64 s) st)"

definition md5_init :: md5_state where
  "md5_init = (0x67452301, 0xefcdab89, 0x98badcfe, 0x10325476)"

definition md5_sum :: "string \<Rightarrow> string" where
  "md5_sum s =
     (let p = md5_pad s; (a, b, c, d) = md5_blocks (length p div 64) p md5_init
      in concat (map (\<lambda>w. bytes_of_nat 4 (unat w)) [a, b, c, d]))"

lemma length_bytes_of_nat [simp]: "length (bytes_of_nat k n) = k"
  by (induction k n rule: bytes_of_nat.induct) auto

lemma length_md5_sum [simp]: "length (md5_sum s) = 16"
  by (simp add: md5_sum_def Let_def split: prod.split)

text \<open>The padded message is a whole number of blocks, so no byte is dropped.\<close>

lemma length_md5_pad: "length (md5_pad s) mod 64 = 0"
proof -
  define n where "n = length s"
  obtain q r where n: "n = 64 * q + r" and r: "r = n mod 64" "r < 64"
    by (metis mult_div_mod_eq mod_less_divisor zero_less_numeral)
  have "n + 9 + (119 - r) = 64 * (q + 2)"
    using r(2) unfolding n by simp
  then have "(n + 9 + (119 - r) mod 64) mod 64 = 0"
    by (metis mod_add_right_eq mod_mult_self1_is_0)
  then show ?thesis
    unfolding r(1) by (simp add: md5_pad_def n_def add.assoc [symmetric])
qed

end
