(* ===== verification/Audit_Router.thy ===== *)
theory Audit_Router
  imports Go_MD5 Go_Time Go_Maps
begin

text \<open>
  \<^verbatim>\<open>internal/audit\<close>: the audit payload, the two sinks, and the router that hands a payload
  to every sink unless it was recorded recently. JSON text, file names and the outcome of
  writing to the cloud services are the parameters \<open>audit_env\<close>.
\<close>

section \<open>Payloads\<close>

record chart_meta =
  ch_name :: string
  ch_version :: string

record instance_meta =
  in_name :: string
  in_namespace :: string

record payload =
  pl_user :: string
  pl_team :: string
  pl_group :: string
  pl_group_type :: string
  pl_reason :: string
  pl_start :: gotime
  pl_end :: gotime
  pl_duration :: string
  pl_chart :: chart_meta
  pl_instance :: instance_meta
  pl_stage :: string

record log_entry =
  le_payload :: payload
  le_timestamp :: gotime

record storage_object =
  so_name :: string
  so_payload :: payload

record audit_env =
  ae_marshal :: "payload \<Rightarrow> string + string"
  ae_filename :: "storage_object list \<Rightarrow> payload \<Rightarrow> string + string"
  ae_encode :: "storage_object list \<Rightarrow> storage_object \<Rightarrow> string option"
  ae_close :: "storage_object list \<Rightarrow> storage_object \<Rightarrow> string option"
  ae_flush :: "log_entry list \<Rightarrow> string option"

text \<open>\<^verbatim>\<open>Payload.Hash\<close> ignores a marshalling error: then the digest is of no bytes.\<close>

definition payload_hash :: "audit_env \<Rightarrow> payload \<Rightarrow> string" where
  "payload_hash env p =
     hex_encode (md5_sum (case ae_marshal env p of Inl e \<Rightarrow> [] | Inr bytes \<Rightarrow> bytes))"

lemma length_payload_hash [simp]: "length (payload_hash env p) = 32"
  by (simp add: payload_hash_def)

lemma payload_hash_not_Nil [simp]: "payload_hash env p \<noteq> []"
  using length_payload_hash [of env p] by force

section \<open>Sinks\<close>

text \<open>
  A sink is one of the two implementations of the interface, with what it has accepted:
  the entries handed to the Cloud Logging client, or the objects written to the bucket. An
  object exists once its writer was closed without an error.
\<close>

datatype sink_error = FilenameFailed string | EncodeFailed string | CloseFailed string | FlushFailed string

datatype sink = CloudLogging "log_entry list" | CloudStorage "storage_object list"

fun sink_record :: "audit_env \<Rightarrow> payload \<Rightarrow> sink \<Rightarrow> sink_error option \<times> sink" where
  "sink_record env p (CloudLogging es) =
     (None, CloudLogging (es @ [\<lparr>le_payload = p, le_timestamp = pl_start p\<rparr>]))"
| "sink_record env p (CloudStorage objs) =
     (case ae_filename env objs p of
        Inl e \<Rightarrow> (Some (FilenameFailed e), CloudStorage objs)
      | Inr name \<Rightarrow>
          let obj = \<lparr>so_name = name, so_payload = p\<rparr>
          in case ae_encode env objs obj of
               Some e \<Rightarrow> (Some (EncodeFailed e), CloudStorage objs)
             | None \<Rightarrow>
                 (case ae_close env objs obj of
                    Some e \<Rightarrow> (Some (CloseFailed e), CloudStorage objs)
                  | None \<Rightarrow> (None, CloudStorage (objs @ [obj]))))"

fun sink_flush :: "audit_env \<Rightarrow> sink \<Rightarrow> sink_error option \<times> sink" where
  "sink_flush env (CloudLogging es) = (map_option FlushFailed (ae_flush env es), CloudLogging es)"
| "sink_flush env (CloudStorage objs) = (None, CloudStorage objs)"

fun accepted :: "sink \<Rightarrow> payload list" where
  "accepted (CloudLogging es) = map le_payload es"
| "accepted (CloudStorage objs) = map so_payload objs"

text \<open>The characters of the template function \<^verbatim>\<open>randomString\<close>; \<open>rnd i\<close> is the \<open>i\<close>-th draw.\<close>

definition random_chars :: string where
  "random_chars = ''abcdefghijklmnopqrstuvwxyz0123456789''"

definition random_string :: "(nat \<Rightarrow> nat) \<Rightarrow> nat \<Rightarrow> string" where
  "random_string rnd n = map (\<lambda>i. random_chars ! rnd i) [0 ..< n]"

lemma random_string_chars:
  assumes "\<And>i. rnd i < 36"
  shows "length (random_string rnd n) = n" and "set (random_string rnd n) \<subseteq> set random_chars"
proof -
  have len: "length random_chars = 36" by (simp add: random_chars_def)
  have "random_chars ! rnd i \<in> set random_chars" for i
    using assms len by (intro nth_mem) simp
  then show "set (random_string rnd n) \<subseteq> set random_chars"
    by (auto simp: random_string_def)
qed (simp add: random_string_def)

subsection \<open>Configuration\<close>

datatype sink_config_error = MissingProjectId | MissingBucket | ClientFailed string | TemplateFailed string

definition default_filename_format :: string where
  "default_filename_format =
     ''access-grant_{{ .UserPrincipalName }}_{{ .AccessGroup }}_{{ .StartTime.UTC.Format '' @
     [CHR 0x22] @ ''2006-01-02_15:04:05'' @ [CHR 0x22] @ '' }}_{{ randomString 6 }}.json''"

text \<open>The log and bucket a sink is configured for; the clients may fail to start.\<close>

definition new_cloud_logging_sink ::
  "(string \<Rightarrow> string option) \<Rightarrow> gomap \<Rightarrow> sink_config_error + string \<times> string" where
  "new_cloud_logging_sink new_client config =
     (case map_get config ''projectId'' of
        None \<Rightarrow> Inl MissingProjectId
      | Some projectId \<Rightarrow>
          let logName = (case map_get config ''logName'' of None \<Rightarrow> ''ssbucketeer'' | Some n \<Rightarrow> n);
              parent = ''projects/'' @ projectId
          in case new_client parent of
               Some e \<Rightarrow> Inl (ClientFailed e)
             | None \<Rightarrow> Inr (parent, logName))"

definition new_cloud_storage_sink ::
  "string option \<Rightarrow> (string \<Rightarrow> string option) \<Rightarrow> gomap \<Rightarrow> sink_config_error + string \<times> string" where
  "new_cloud_storage_sink client_error parse_error config =
     (case map_get config ''bucket'' of
        None \<Rightarrow> Inl MissingBucket
      | Some bucket \<Rightarrow>
          (case client_error of
             Some e \<Rightarrow> Inl (ClientFailed e)
           | None \<Rightarrow>
               let format = (case map_get config ''filenameFormat'' of
                               None \<Rightarrow> default_filename_format | Some f \<Rightarrow> f)
               in case parse_error format of
                    Some e \<Rightarrow> Inl (TemplateFailed e)
                  | None \<Rightarrow> Inr (bucket, format)))"

section \<open>The router\<close>

record router =
  rt_recent :: "string list"
  rt_index :: nat
  rt_sinks :: "sink list"

definition new_router :: "sink list \<Rightarrow> router" where
  "new_router sinks = \<lparr>rt_recent = replicate 100 [], rt_index = 0, rt_sinks = sinks\<rparr>"

definition record_hash :: "string \<Rightarrow> router \<Rightarrow> router outcome" where
  "record_hash hash rt =
     (if rt_index rt < length (rt_recent rt) then
        Returns (rt\<lparr>rt_recent := (rt_recent rt)[rt_index rt := hash],
                    rt_index := (rt_index rt + 1) mod length (rt_recent rt)\<rparr>)
      else Panics OutOfRange)"

text \<open>\<^verbatim>\<open>errors.Join\<close> over the sinks: the list of the errors, empty for nil.\<close>

fun record_sinks :: "audit_env \<Rightarrow> payload \<Rightarrow> sink list \<Rightarrow> sink_error list \<times> sink list" where
  "record_sinks env p [] = ([], [])"
| "record_sinks env p (s # ss) =
     (let (e, s') = sink_record env p s; (es, ss') = record_sinks env p ss
      in ((case e of None \<Rightarrow> es | Some x \<Rightarrow> x # es), s' # ss'))"

definition record_all :: "audit_env \<Rightarrow> payload \<Rightarrow> router \<Rightarrow> (sink_error list \<times> router) outcome" where
  "record_all env p rt =
     (let hash = payload_hash env p
      in if hash \<in> set (rt_recent rt) then Returns ([], rt)
         else
           bind_outcome (record_hash hash rt)
             (\<lambda>rt'. let (errs, sinks') = record_sinks env p (rt_sinks rt')
                    in Returns (errs, rt'\<lparr>rt_sinks := sinks'\<rparr>)))"

fun flush_sinks :: "audit_env \<Rightarrow> sink list \<Rightarrow> sink_error list \<times> sink list" where
  "flush_sinks env [] = ([], [])"
| "flush_sinks env (s # ss) =
     (let (e, s') = sink_flush env s; (es, ss') = flush_sinks env ss
      in ((case e of None \<Rightarrow> es | Some x \<Rightarrow> x # es), s' # ss'))"

definition flush_all :: "audit_env \<Rightarrow> router \<Rightarrow> sink_error list \<times> router" where
  "flush_all env rt =
     (let (errs, sinks') = flush_sinks env (rt_sinks rt) in (errs, rt\<lparr>rt_sinks := sinks'\<rparr>))"

section \<open>The contract of a sink\<close>

text \<open>
  What the router relies on: recording without an error adds the payload to what the sink
  has accepted, recording with an error adds nothing, and flushing adds and drops nothing.
\<close>

locale audit_sink =
  fixes record_to :: "payload \<Rightarrow> 's \<Rightarrow> 'e option \<times> 's"
    and flush_it :: "'s \<Rightarrow> 'e option \<times> 's"
    and taken :: "'s \<Rightarrow> payload list"
  assumes record_ok: "record_to p s = (None, s') \<Longrightarrow> taken s' = taken s @ [p]"
    and record_failed: "record_to p s = (Some e, s') \<Longrightarrow> taken s' = taken s"
    and flush_keeps: "flush_it s = (e', s') \<Longrightarrow> taken s' = taken s"
begin

lemma record_accounts:
  "taken (snd (record_to p s)) = taken s @ (if fst (record_to p s) = None then [p] else [])"
  by (cases "record_to p s"; cases "fst (record_to p s)") (auto dest: record_ok record_failed)

lemma record_prefix: "\<exists>ps. taken (snd (record_to p s)) = taken s @ ps"
  by (simp add: record_accounts)

text \<open>One payload to many sinks: each sink has it or has failed.\<close>

lemma record_each:
  "map taken (map (\<lambda>s. snd (record_to p s)) ss) =
     map (\<lambda>s. taken s @ (if fst (record_to p s) = None then [p] else [])) ss"
  by (simp add: record_accounts)

lemma flush_each: "map taken (map (\<lambda>s. snd (flush_it s)) ss) = map taken ss"
  by (simp add: flush_keeps [OF prod.collapse [symmetric]])

end

interpretation any_sink: audit_sink "sink_record env" "sink_flush env" accepted for env
proof
  show "sink_record env p s = (None, s') \<Longrightarrow> accepted s' = accepted s @ [p]" for p s s'
    by (cases s) (auto simp: Let_def split: sum.splits option.splits)
  show "sink_record env p s = (Some e, s') \<Longrightarrow> accepted s' = accepted s" for p s e s'
    by (cases s) (auto simp: Let_def split: sum.splits option.splits)
  show "sink_flush env s = (e', s') \<Longrightarrow> accepted s' = accepted s" for s e' s'
    by (cases s) auto
qed

lemma record_sinks_eq:
  "record_sinks env p ss =
     (List.map_filter (\<lambda>s. fst (sink_record env p s)) ss, map (\<lambda>s. snd (sink_record env p s)) ss)"
  by (induction ss) (auto simp: List.map_filter_def split: option.split prod.split)

lemma flush_sinks_eq:
  "flush_sinks env ss =
     (List.map_filter (\<lambda>s. fst (sink_flush env s)) ss, map (\<lambda>s. snd (sink_flush env s)) ss)"
  by (induction ss) (auto simp: List.map_filter_def split: option.split prod.split)

section \<open>The ring of recent hashes\<close>

definition router_ok :: "router \<Rightarrow> bool" where
  "router_ok rt \<longleftrightarrow> length (rt_recent rt) = 100 \<and> rt_index rt < 100"

text \<open>The ring read from the oldest entry to the newest.\<close>

definition ring_window :: "router \<Rightarrow> string list" where
  "ring_window rt = drop (rt_index rt) (rt_recent rt) @ take (rt_index rt) (rt_recent rt)"

lemma set_ring_window [simp]: "set (ring_window rt) = set (rt_recent rt)"
  unfolding ring_window_def by (metis append_take_drop_id set_append Un_commute)

lemma router_ok_new [simp]: "router_ok (new_router sinks)"
  by (simp add: router_ok_def new_router_def)

lemma ring_window_new [simp]: "ring_window (new_router sinks) = replicate 100 []"
  by (simp add: ring_window_def new_router_def)

lemma ring_window_sinks [simp]:
  "ring_window (rt\<lparr>rt_sinks := ss\<rparr>) = ring_window rt"
  "router_ok (rt\<lparr>rt_sinks := ss\<rparr>) = router_ok rt"
  by (simp_all add: ring_window_def router_ok_def)

text \<open>The slot overwritten is the oldest one: the ring is a sliding window.\<close>

lemma ring_rotate:
  assumes "i < length xs"
  shows "drop ((i + 1) mod length xs) (xs[i := x]) @ take ((i + 1) mod length xs) (xs[i := x])
       = tl (drop i xs @ take i xs) @ [x]"
proof (cases "i + 1 = length xs")
  case True
  then have "drop i xs = [xs ! i]"
    using assms by (metis Cons_nth_drop_Suc Suc_eq_plus1 drop_all order_refl)
  moreover have "xs[i := x] = take i xs @ [x]"
    using True assms by (simp add: upd_conv_take_nth_drop)
  ultimately show ?thesis using True by simp
next
  case False
  with assms have i: "Suc i < length xs" by simp
  have "xs[i := x] = take i xs @ x # drop (Suc i) xs"
    using assms by (rule upd_conv_take_nth_drop)
  moreover have "drop i xs = xs ! i # drop (Suc i) xs"
    using assms by (simp add: Cons_nth_drop_Suc)
  ultimately show ?thesis using i by (simp add: min_def)
qed

lemma record_hash_refines:
  assumes "router_ok rt"
  shows "\<exists>rt'. record_hash hash rt = Returns rt' \<and> router_ok rt' \<and> rt_sinks rt' = rt_sinks rt \<and>
    ring_window rt' = tl (ring_window rt) @ [hash]"
  using assms ring_rotate [of "rt_index rt" "rt_recent rt" hash]
  by (simp add: record_hash_def router_ok_def ring_window_def)

section \<open>The router as a filter on the stream of payloads\<close>

text \<open>
  The specification: a payload is delivered unless its hash is among the last hundred
  hashes delivered; \<open>seen\<close> holds them, newest first.
\<close>

fun deliver_spec :: "(payload \<Rightarrow> string) \<Rightarrow> string list \<Rightarrow> payload list \<Rightarrow> payload list" where
  "deliver_spec H seen [] = []"
| "deliver_spec H seen (p # ps) =
     (if H p \<in> set (take 100 seen) then deliver_spec H seen ps
      else p # deliver_spec H (H p # seen) ps)"

text \<open>The router, run on a sequence of payloads.\<close>

fun record_many :: "audit_env \<Rightarrow> payload list \<Rightarrow> router \<Rightarrow> router outcome" where
  "record_many env [] rt = Returns rt"
| "record_many env (p # ps) rt =
     bind_outcome (record_all env p rt) (\<lambda>(errs, rt'). record_many env ps rt')"

definition window_of :: "string list \<Rightarrow> string list" where
  "window_of seen = rev (take 100 (seen @ replicate 100 []))"

lemma window_of_push: "tl (window_of seen) @ [h] = window_of (h # seen)"
proof -
  let ?X = "seen @ replicate 100 []"
  have "tl (rev (take 100 ?X)) = rev (butlast (take 100 ?X))"
    by (metis rev_rev_ident butlast_rev)
  also have "butlast (take 100 ?X) = take 99 ?X"
    by (subst butlast_take) (simp_all del: take_append)
  finally have "tl (window_of seen) = rev (take 99 ?X)"
    by (simp only: window_of_def)
  moreover have "window_of (h # seen) = rev (take 99 ?X) @ [h]"
    by (simp add: window_of_def take_Cons' del: take_append)
  ultimately show ?thesis by simp
qed

lemma window_of_member: "h \<noteq> [] \<Longrightarrow> h \<in> set (window_of seen) \<longleftrightarrow> h \<in> set (take 100 seen)"
  by (auto simp: window_of_def)

lemma record_all_fresh:
  assumes "router_ok rt" and "payload_hash env p \<notin> set (rt_recent rt)"
  shows "\<exists>rt'. record_all env p rt
      = Returns (List.map_filter (\<lambda>s. fst (sink_record env p s)) (rt_sinks rt), rt') \<and>
    router_ok rt' \<and> ring_window rt' = tl (ring_window rt) @ [payload_hash env p] \<and>
    rt_sinks rt' = map (\<lambda>s. snd (sink_record env p s)) (rt_sinks rt)"
proof -
  obtain rt1 where "record_hash (payload_hash env p) rt = Returns rt1" "router_ok rt1"
    "rt_sinks rt1 = rt_sinks rt" "ring_window rt1 = tl (ring_window rt) @ [payload_hash env p]"
    using record_hash_refines [OF assms(1)] by blast
  with assms(2) show ?thesis
    by (simp add: record_all_def record_sinks_eq Let_def)
qed

lemma record_all_seen:
  "payload_hash env p \<in> set (rt_recent rt) \<Longrightarrow> record_all env p rt = Returns ([], rt)"
  by (simp add: record_all_def)

lemma record_all_again:
  assumes "router_ok rt" and "record_all env p rt = Returns (errs, rt')"
  shows "record_all env p rt' = Returns ([], rt')"
proof (cases "payload_hash env p \<in> set (rt_recent rt)")
  case True
  with assms show ?thesis by (simp add: record_all_seen)
next
  case False
  then have "ring_window rt' = tl (ring_window rt) @ [payload_hash env p]"
    using record_all_fresh [OF assms(1)] assms(2) by fastforce
  then have "payload_hash env p \<in> set (rt_recent rt')"
    by (metis in_set_conv_decomp set_ring_window)
  then show ?thesis by (rule record_all_seen)
qed

lemma record_many_refines:
  assumes "router_ok rt" and "ring_window rt = window_of seen"
  shows "\<exists>rt'. record_many env ps rt = Returns rt' \<and> router_ok rt' \<and>
    rt_sinks rt' = fold (\<lambda>p. map (\<lambda>s. snd (sink_record env p s)))
      (deliver_spec (payload_hash env) seen ps) (rt_sinks rt)"
  using assms
proof (induction ps arbitrary: rt seen)
  case Nil
  then show ?case by simp
next
  case (Cons p ps)
  let ?h = "payload_hash env p"
  have seen: "?h \<in> set (rt_recent rt) \<longleftrightarrow> ?h \<in> set (take 100 seen)"
    using Cons.prems(2) window_of_member [of ?h seen] by (metis payload_hash_not_Nil set_ring_window)
  show ?case
  proof (cases "?h \<in> set (rt_recent rt)")
    case True
    with seen Cons show ?thesis by (simp add: record_all_seen)
  next
    case False
    obtain rt1 where rt1: "record_all env p rt
        = Returns (List.map_filter (\<lambda>s. fst (sink_record env p s)) (rt_sinks rt), rt1)"
      "router_ok rt1" "ring_window rt1 = window_of (?h # seen)"
      "rt_sinks rt1 = map (\<lambda>s. snd (sink_record env p s)) (rt_sinks rt)"
      using record_all_fresh [OF Cons.prems(1) False] Cons.prems(2) window_of_push by metis
    from Cons.IH [OF rt1(2,3)] show ?thesis
      using False seen rt1 by simp
  qed
qed

section \<open>Properties\<close>

text \<open>
  C14: The audit router is a filter: run from a fresh router over any sequence of payloads,
  it never panics, and every sink is handed exactly the payloads whose hash is not among
  the last hundred hashes recorded, in order.
\<close>

theorem audit_router_refines_window_filter:
  "\<exists>rt'. record_many env ps (new_router sinks) = Returns rt' \<and>
    rt_sinks rt' = fold (\<lambda>p. map (\<lambda>s. snd (sink_record env p s)))
      (deliver_spec (payload_hash env) [] ps) sinks"
proof -
  have "ring_window (new_router sinks) = window_of []"
    by (simp add: window_of_def)
  from record_many_refines [OF router_ok_new this, of env ps] show ?thesis
    by (auto simp: new_router_def)
qed

text \<open>
  The slot arithmetic of the ring is right: recording a hash drops the oldest entry and
  appends the new one, keeps the ring at a hundred entries with an index inside it, and
  touches no sink.
\<close>

theorem audit_ring_is_sliding_window:
  assumes "router_ok rt"
  shows "\<exists>rt'. record_hash hash rt = Returns rt' \<and> router_ok rt' \<and> rt_sinks rt' = rt_sinks rt \<and>
    ring_window rt' = tl (ring_window rt) @ [hash]"
  using assms by (rule record_hash_refines)

theorem audit_ring_is_sliding_window_witness:
  "\<exists>rt'. record_hash ''aa'' (new_router []) = Returns rt' \<and> router_ok rt' \<and> rt_sinks rt' = [] \<and>
    ring_window rt' = replicate 99 [] @ [''aa'']"
proof -
  have "tl (replicate 100 ([] :: string)) = replicate 99 []"
    by (simp add: replicate_Suc [of 99, simplified, symmetric] numeral_eq_Suc)
  then show ?thesis
    using audit_ring_is_sliding_window [OF router_ok_new, of "''aa''" "[]"]
    by (auto simp: new_router_def ring_window_def)
qed

text \<open>
  When a payload that was not recorded recently is recorded, each sink either has it
  appended to what it accepted, or accepted nothing and reported an error; without any
  error all sinks have it.
\<close>

theorem audit_record_reaches_every_sink:
  assumes "router_ok rt" and "payload_hash env p \<notin> set (rt_recent rt)"
  shows "\<exists>errs rt'. record_all env p rt = Returns (errs, rt') \<and>
    map accepted (rt_sinks rt') =
      map (\<lambda>s. accepted s @ (if fst (sink_record env p s) = None then [p] else [])) (rt_sinks rt) \<and>
    (errs = [] \<longrightarrow> map accepted (rt_sinks rt') = map (\<lambda>s. accepted s @ [p]) (rt_sinks rt))"
proof -
  obtain rt' where rt': "record_all env p rt
      = Returns (List.map_filter (\<lambda>s. fst (sink_record env p s)) (rt_sinks rt), rt')"
    "rt_sinks rt' = map (\<lambda>s. snd (sink_record env p s)) (rt_sinks rt)"
    using record_all_fresh [OF assms] by blast
  moreover have "fst (sink_record env p s) = None"
    if "List.map_filter (\<lambda>s. fst (sink_record env p s)) (rt_sinks rt) = []" "s \<in> set (rt_sinks rt)" for s
    using that by (auto simp: List.map_filter_def filter_empty_conv)
  ultimately show ?thesis
    using any_sink.record_each [of env p "rt_sinks rt"]
    by (intro exI [of _ "List.map_filter (\<lambda>s. fst (sink_record env p s)) (rt_sinks rt)"] exI [of _ rt'])
      (simp add: any_sink.record_accounts)
qed

text \<open>
  A payload is remembered before it is delivered: recording it again right away does
  nothing and reports no error, even when every sink failed the first time.
\<close>

theorem audit_failed_delivery_is_not_retried:
  assumes "router_ok rt" and "record_all env p rt = Returns (errs, rt')"
  shows "record_all env p rt' = Returns ([], rt')"
  using assms by (rule record_all_again)

text \<open>
  Flushing the router flushes every sink whatever the others report, and changes
  nothing that was accepted.
\<close>

theorem audit_flush_keeps_entries:
  "map accepted (rt_sinks (snd (flush_all env rt))) = map accepted (rt_sinks rt) \<and>
   fst (flush_all env rt) = List.map_filter (\<lambda>s. fst (sink_flush env s)) (rt_sinks rt)"
  using any_sink.flush_each [of env "rt_sinks rt"]
  by (simp add: flush_all_def flush_sinks_eq)

section \<open>Witnesses\<close>

definition example_payload :: payload where
  "example_payload = \<lparr>pl_user = ''abc'', pl_team = ''dapla'', pl_group = ''dapla-data-admins'',
     pl_group_type = ''data-admins'', pl_reason = ''debug'', pl_start = 0, pl_end = 0,
     pl_duration = ''1h0m0s'', pl_chart = \<lparr>ch_name = ''jupyter'', ch_version = ''1''\<rparr>,
     pl_instance = \<lparr>in_name = ''j'', in_namespace = ''user-ssb-abc''\<rparr>, pl_stage = ''test''\<rparr>"

definition example_audit_env :: audit_env where
  "example_audit_env = \<lparr>ae_marshal = (\<lambda>p. Inr (pl_user p)), ae_filename = (\<lambda>_ p. Inr (pl_user p)),
     ae_encode = (\<lambda>_ _. None), ae_close = (\<lambda>_ _. Some ''denied''), ae_flush = (\<lambda>_. None)\<rparr>"

lemma example_not_recent: "payload_hash env p \<notin> set (rt_recent (new_router sinks))"
  by (simp add: new_router_def)

theorem audit_record_reaches_every_sink_witness:
  "\<exists>errs rt'. record_all example_audit_env example_payload (new_router [CloudLogging [], CloudStorage []])
      = Returns (errs, rt') \<and>
    map accepted (rt_sinks rt') = [[example_payload], []]"
  using audit_record_reaches_every_sink [OF router_ok_new example_not_recent,
      of example_audit_env example_payload "[CloudLogging [], CloudStorage []]"]
  by (auto simp: new_router_def example_audit_env_def Let_def)

theorem audit_failed_delivery_is_not_retried_witness:
  "\<exists>rt'. record_all example_audit_env example_payload (new_router [CloudStorage []])
      = Returns ([CloseFailed ''denied''], rt') \<and>
    record_all example_audit_env example_payload rt' = Returns ([], rt')"
proof -
  obtain rt' where "record_all example_audit_env example_payload (new_router [CloudStorage []])
      = Returns ([CloseFailed ''denied''], rt')"
    using record_all_fresh [OF router_ok_new example_not_recent,
        of example_audit_env example_payload "[CloudStorage []]"]
    by (auto simp: new_router_def example_audit_env_def List.map_filter_def Let_def)
  with audit_failed_delivery_is_not_retried [OF router_ok_new this] show ?thesis by blast
qed

end
