(* ===== verification/Google_Auth.thy ===== *)
theory Google_Auth
  imports Prelude Go_Strings
begin

text \<open>
  \<^verbatim>\<open>internal/controller/google.go\<close>: asking Cloud Identity whether a user is a member of a
  group. The service itself is the parameter \<open>ci_service\<close>; \<open>ci_check\<close> is told how many
  membership queries were made before, so that it may fail once and answer later.
\<close>

record ci_service =
  ci_lookup :: "string \<Rightarrow> string + string"
  ci_check :: "nat \<Rightarrow> string \<Rightarrow> string \<Rightarrow> string + bool"

definition member_query :: "string \<Rightarrow> string" where
  "member_query email = ''member_key_id == '' @ [CHR 0x27] @ email @ [CHR 0x27]"

text \<open>
  The retry for consultants assigns \<^verbatim>\<open>user\<close> and then sends the query of \<^verbatim>\<open>userEmail\<close>
  again; the variable assigned is not read any more.
\<close>

definition user_is_member_of :: "ci_service \<Rightarrow> string \<Rightarrow> string \<Rightarrow> string + bool" where
  "user_is_member_of ci user grp =
     (let userEmail = user @ ''@ssb.no'';
          groupEmail = grp @ ''@groups.ssb.no''
      in case ci_lookup ci groupEmail of
           Inl err \<Rightarrow> Inl err
         | Inr groupName \<Rightarrow>
             (case ci_check ci 0 groupName (member_query userEmail) of
                Inr isMember \<Rightarrow> Inr isMember
              | Inl err \<Rightarrow>
                  if contains_sub user ''kons'' then
                    let user = replace_first CHR ''-'' ''_'' userEmail
                    in case ci_check ci 1 groupName (member_query userEmail) of
                         Inr isMember \<Rightarrow> Inr isMember
                       | Inl err' \<Rightarrow> Inl err'
                  else Inl err))"

section \<open>The contract of an auther\<close>

text \<open>
  The interface \<^verbatim>\<open>Auther\<close>: an operation that answers or fails, and the relation
  its answers speak of. A client may rely on an answer being the truth of that relation.
\<close>

locale auther =
  fixes is_member :: "string \<Rightarrow> string \<Rightarrow> string + bool"
    and confirmed :: "string \<Rightarrow> string \<Rightarrow> bool"
  assumes positive: "is_member user grp = Inr True \<Longrightarrow> confirmed user grp"
begin

lemma unconfirmed: "\<not> confirmed user grp \<Longrightarrow> is_member user grp \<noteq> Inr True"
  using positive by blast

lemma unconfirmed_cases:
  assumes "\<not> confirmed user grp"
  obtains (failed) e where "is_member user grp = Inl e" | (no) "is_member user grp = Inr False"
proof (cases "is_member user grp")
  case (Inl e)
  then show ?thesis by (rule failed)
next
  case (Inr b)
  with unconfirmed [OF assms] show ?thesis using no by (cases b) auto
qed

end

text \<open>
  For the Google implementation, a membership is confirmed when the service said yes to a
  query that names exactly this user, about the group this group's address stands for.
\<close>

definition ci_confirms :: "ci_service \<Rightarrow> string \<Rightarrow> string \<Rightarrow> bool" where
  "ci_confirms ci user grp \<longleftrightarrow>
     (case ci_lookup ci (grp @ ''@groups.ssb.no'') of
        Inl e \<Rightarrow> False
      | Inr name \<Rightarrow>
          ci_check ci 0 name (member_query (user @ ''@ssb.no'')) = Inr True \<or>
          ci_check ci 1 name (member_query (user @ ''@ssb.no'')) = Inr True)"

lemma member_query_inj [simp]: "member_query a = member_query b \<longleftrightarrow> a = b"
  by (simp add: member_query_def)

lemma user_is_member_of_answer:
  assumes "user_is_member_of ci user grp = Inr b"
  obtains name n where "ci_lookup ci (grp @ ''@groups.ssb.no'') = Inr name" and "n \<le> 1"
    and "ci_check ci n name (member_query (user @ ''@ssb.no'')) = Inr b"
    and "n = 1 \<Longrightarrow> contains_sub user ''kons'' \<and>
      (\<exists>e. ci_check ci 0 name (member_query (user @ ''@ssb.no'')) = Inl e)"
  using assms
  by (auto simp: user_is_member_of_def Let_def split: sum.splits if_splits
      intro: that [of _ 0] that [of _ 1])

interpretation google: auther "user_is_member_of ci" "ci_confirms ci" for ci
proof
  fix user grp
  assume "user_is_member_of ci user grp = Inr True"
  then show "ci_confirms ci user grp"
  proof (rule user_is_member_of_answer)
    fix name n
    assume "ci_lookup ci (grp @ ''@groups.ssb.no'') = Inr name" and n: "n \<le> (1 :: nat)"
      and "ci_check ci n name (member_query (user @ ''@ssb.no'')) = Inr True"
    moreover from n consider "n = 0" | "n = 1" by linarith
    ultimately show ?thesis by cases (auto simp: ci_confirms_def)
  qed
qed

section \<open>Properties\<close>

text \<open>
  The answer is the service's own: whatever it says was said about exactly this user's
  address and the group found under this group's address, in the first query, or in a
  second one that is made only for consultants and only after the first failed.
\<close>

theorem user_is_member_of_faithful:
  assumes "user_is_member_of ci user grp = Inr b"
  shows "\<exists>name n. ci_lookup ci (grp @ ''@groups.ssb.no'') = Inr name \<and>
    ci_check ci n name (member_query (user @ ''@ssb.no'')) = Inr b \<and>
    (n = 0 \<or> n = 1 \<and> contains_sub user ''kons'' \<and>
       (\<exists>e. ci_check ci 0 name (member_query (user @ ''@ssb.no'')) = Inl e))"
  using assms
proof (rule user_is_member_of_answer)
  fix name n
  assume *: "ci_lookup ci (grp @ ''@groups.ssb.no'') = Inr name" "n \<le> 1"
    "ci_check ci n name (member_query (user @ ''@ssb.no'')) = Inr b"
    "n = 1 \<Longrightarrow> contains_sub user ''kons'' \<and>
      (\<exists>e. ci_check ci 0 name (member_query (user @ ''@ssb.no'')) = Inl e)"
  from *(2) consider "n = 0" | "n = 1" by linarith
  then show ?thesis using * by cases auto
qed

text \<open>
  C36: Only the user's own address is ever asked about: two directories that agree on it
  (and on the groups) give the same answer, whatever they say of the address with an
  underscore for the dash. The retry for consultants repeats the query that failed.
\<close>

theorem consultant_retry_repeats_query:
  assumes "ci_lookup ci' = ci_lookup ci"
    and "\<And>n name. ci_check ci' n name (member_query (user @ ''@ssb.no''))
      = ci_check ci n name (member_query (user @ ''@ssb.no''))"
  shows "user_is_member_of ci' user grp = user_is_member_of ci user grp"
  using assms by (simp add: user_is_member_of_def Let_def split: sum.split)

section \<open>Witnesses\<close>

text \<open>A directory that knows one consultant, under an address with an underscore.\<close>

definition example_ci :: ci_service where
  "example_ci = \<lparr>ci_lookup = (\<lambda>g. Inr g),
     ci_check = (\<lambda>n g q. if q = member_query ''kons_abc@ssb.no'' then Inr True else Inl ''no such member'')\<rparr>"

definition example_member_ci :: ci_service where
  "example_member_ci = \<lparr>ci_lookup = (\<lambda>g. Inr g), ci_check = (\<lambda>n g q. Inr True)\<rparr>"

theorem user_is_member_of_faithful_witness:
  "\<exists>name n. ci_lookup example_member_ci (''dapla-developers'' @ ''@groups.ssb.no'') = Inr name \<and>
    ci_check example_member_ci n name (member_query (''abc'' @ ''@ssb.no'')) = Inr True \<and>
    (n = 0 \<or> n = 1 \<and> contains_sub ''abc'' ''kons'' \<and>
       (\<exists>e. ci_check example_member_ci 0 name (member_query (''abc'' @ ''@ssb.no'')) = Inl e))"
  by (rule user_is_member_of_faithful)
    (simp add: user_is_member_of_def example_member_ci_def)

text \<open>
  The consultant \<^verbatim>\<open>kons-abc\<close> is not found, although the directory would confirm her: the
  answer is that of the directory that knows nobody.
\<close>

theorem consultant_retry_repeats_query_witness:
  "replace_first CHR ''-'' ''_'' ''kons-abc@ssb.no'' = ''kons_abc@ssb.no'' \<and>
   ci_check example_ci 1 ''dapla-developers@groups.ssb.no'' (member_query ''kons_abc@ssb.no'') = Inr True \<and>
   user_is_member_of example_ci ''kons-abc'' ''dapla-developers'' = Inl ''no such member''"
proof -
  let ?nobody = "\<lparr>ci_lookup = (\<lambda>g. Inr g),
     ci_check = (\<lambda>(n :: nat) (g :: string) (q :: string). Inl ''no such member'')\<rparr>"
  have "user_is_member_of example_ci ''kons-abc'' ''dapla-developers''
      = user_is_member_of ?nobody ''kons-abc'' ''dapla-developers''"
    by (rule consultant_retry_repeats_query) (simp_all add: example_ci_def)
  then show ?thesis by (simp add: example_ci_def user_is_member_of_def Let_def)
qed

end
