(* ===== verification/ServiceAccount_Webhook.thy ===== *)
theory ServiceAccount_Webhook
  imports Kube Common Audit_Router Google_Auth
begin

text \<open>
  \<^verbatim>\<open>internal/controller/serviceaccount_webhook.go\<close>: the validating webhook that decides
  whether a service account may impersonate a group, and records what it lets through.
  The audit router is its state; the answer is an error, or none for an admission.
\<close>

datatype runtime_object = SAObject service_account | OtherObject string

datatype validate_error =
    UnexpectedType string
  | NoGroupConfig string
  | IllegalNamespace string string
  | AuthFailed string
  | IllegalImpersonation string string
  | DurationRequired string string
  | MalformedDuration string
  | DurationTooLong string string string
  | ReasonMissing string string

record sa_validator =
  va_auth :: "string \<Rightarrow> string \<Rightarrow> string + bool"
  va_configs :: "access_group_config list"
  va_stage :: string

section \<open>What is known of the service\<close>

definition get_chart_name_and_version :: "service_account \<Rightarrow> string \<times> string" where
  "get_chart_name_and_version sa =
     (case map_get (om_labels (sa_meta sa)) ''helm.sh/chart'' of
        Some meta \<Rightarrow>
          let split = split_on CHR ''-'' meta in (join ''-'' (butlast split), last split)
      | None \<Rightarrow> (''unknown'', ''unknown''))"

definition get_instance_meta :: "service_account \<Rightarrow> string \<times> string" where
  "get_instance_meta sa =
     ((case map_get (sa_annotations sa) ''meta.helm.sh/release-name'' of
         None \<Rightarrow> ''unknown'' | Some name \<Rightarrow> name),
      (case map_get (sa_annotations sa) ''meta.helm.sh/release-namespace'' of
         None \<Rightarrow> ''unknown'' | Some namespace \<Rightarrow> namespace))"

section \<open>The decision\<close>

definition audit_entry ::
  "sa_validator \<Rightarrow> service_account \<Rightarrow> access_group_config \<Rightarrow> string \<Rightarrow> string \<Rightarrow> string \<Rightarrow> string
     \<Rightarrow> duration \<Rightarrow> payload" where
  "audit_entry v sa c user team grp reason d =
     (let (chartName, chartVersion) = get_chart_name_and_version sa;
          (instanceName, instanceNamespace) = get_instance_meta sa
      in \<lparr>pl_user = user, pl_team = team, pl_group = grp, pl_group_type = gc_name c,
          pl_reason = reason,
          pl_start = om_creation (sa_meta sa), pl_end = om_creation (sa_meta sa) + d,
          pl_duration = duration_string d,
          pl_chart = \<lparr>ch_name = chartName, ch_version = chartVersion\<rparr>,
          pl_instance = \<lparr>in_name = instanceName, in_namespace = instanceNamespace\<rparr>,
          pl_stage = va_stage v\<rparr>)"

text \<open>The checks for a group that requires a reason, once membership is established.\<close>

definition check_privileged ::
  "access_group_config \<Rightarrow> service_account \<Rightarrow> string \<Rightarrow> validate_error + duration \<times> string" where
  "check_privileged c sa grp =
     (case map_get (sa_annotations sa) requestedServiceDurationAnnotation of
        None \<Rightarrow> Inl (DurationRequired grp (gc_name c))
      | Some durationStr \<Rightarrow>
          (case parse_duration durationStr of
             None \<Rightarrow> Inl (MalformedDuration durationStr)
           | Some d \<Rightarrow>
               if d > gc_max_duration c then
                 Inl (DurationTooLong (duration_string d) (duration_string (gc_max_duration c)) grp)
               else
                 (case map_get (sa_annotations sa) accessReasonAnnotation of
                    None \<Rightarrow> Inl (ReasonMissing grp (gc_name c))
                  | Some reason \<Rightarrow>
                      if reason = [] then Inl (ReasonMissing grp (gc_name c)) else Inr (d, reason))))"

definition validate ::
  "sa_validator \<Rightarrow> audit_env \<Rightarrow> runtime_object \<Rightarrow> router \<Rightarrow> (validate_error option \<times> router) outcome" where
  "validate v env req rt =
     (case req of
        OtherObject typ \<Rightarrow> Returns (Some (UnexpectedType typ), rt)
      | SAObject sa \<Rightarrow>
          (case map_get (sa_annotations sa) impersonateGroupAnnotation of
             None \<Rightarrow> Returns (None, rt)
           | Some grp \<Rightarrow>
               if \<not> time_ptr_is_zero (om_deletion (sa_meta sa)) then Returns (None, rt)
               else
                 (case get_config (va_configs v) grp of
                    None \<Rightarrow> Returns (Some (NoGroupConfig grp), rt)
                  | Some c \<Rightarrow>
                      let team = to_team c grp;
                          user = trim_prefix (om_namespace (sa_meta sa)) userNamespacePrefix
                      in if user = om_namespace (sa_meta sa) then
                           Returns (Some (IllegalNamespace (om_namespace (sa_meta sa)) grp), rt)
                         else
                           (case va_auth v user grp of
                              Inl e \<Rightarrow> Returns (Some (AuthFailed e), rt)
                            | Inr isMember \<Rightarrow>
                                if \<not> isMember then Returns (Some (IllegalImpersonation user grp), rt)
                                else if \<not> gc_reason_required c then Returns (None, rt)
                                else
                                  (case check_privileged c sa grp of
                                     Inl e \<Rightarrow> Returns (Some e, rt)
                                   | Inr (d, reason) \<Rightarrow>
                                       bind_outcome
                                         (record_all env (audit_entry v sa c user team grp reason d) rt)
                                         (\<lambda>(auditErrs, rt'). Returns (None, rt')))))))"

definition validate_create ::
  "sa_validator \<Rightarrow> audit_env \<Rightarrow> runtime_object \<Rightarrow> router \<Rightarrow> (validate_error option \<times> router) outcome" where
  "validate_create v env req rt = validate v env req rt"

definition validate_update ::
  "sa_validator \<Rightarrow> audit_env \<Rightarrow> runtime_object \<Rightarrow> runtime_object \<Rightarrow> router
     \<Rightarrow> (validate_error option \<times> router) outcome" where
  "validate_update v env old new rt = validate v env new rt"

definition validate_delete ::
  "sa_validator \<Rightarrow> audit_env \<Rightarrow> runtime_object \<Rightarrow> router \<Rightarrow> (validate_error option \<times> router) outcome" where
  "validate_delete v env req rt = Returns (None, rt)"

section \<open>The policy the webhook enforces\<close>

text \<open>A user's namespace, and the user it belongs to.\<close>

definition owner_of :: "service_account \<Rightarrow> string option" where
  "owner_of sa =
     (if has_prefix (om_namespace (sa_meta sa)) userNamespacePrefix
      then Some (drop (length userNamespacePrefix) (om_namespace (sa_meta sa))) else None)"

text \<open>A request for time-limited access that carries what it must.\<close>

definition privileged_ok :: "access_group_config \<Rightarrow> service_account \<Rightarrow> duration \<Rightarrow> string \<Rightarrow> bool" where
  "privileged_ok c sa d reason \<longleftrightarrow>
     (\<exists>s. map_get (sa_annotations sa) requestedServiceDurationAnnotation = Some s \<and>
        parse_duration s = Some d) \<and>
     d \<le> gc_max_duration c \<and>
     map_get (sa_annotations sa) accessReasonAnnotation = Some reason \<and> reason \<noteq> []"

lemma check_privileged_Inr_iff:
  "check_privileged c sa grp = Inr (d, reason) \<longleftrightarrow> privileged_ok c sa d reason"
  by (auto simp: check_privileged_def privileged_ok_def split: option.splits)

lemma user_of_namespace:
  "trim_prefix ns userNamespacePrefix = ns \<longleftrightarrow> \<not> has_prefix ns userNamespacePrefix"
  by (simp add: trim_prefix_eq_iff userNamespacePrefix_def)

lemma owner_of_trim:
  "owner_of sa =
     (if trim_prefix (om_namespace (sa_meta sa)) userNamespacePrefix = om_namespace (sa_meta sa)
      then None else Some (trim_prefix (om_namespace (sa_meta sa)) userNamespacePrefix))"
  using trim_prefix_append
  by (auto simp: owner_of_def user_of_namespace has_prefix_iff)

definition may_impersonate :: "sa_validator \<Rightarrow> service_account \<Rightarrow> string \<Rightarrow> bool" where
  "may_impersonate v sa grp \<longleftrightarrow>
     (\<exists>c user. get_config (va_configs v) grp = Some c \<and> owner_of sa = Some user \<and>
        va_auth v user grp = Inr True \<and>
        (gc_reason_required c \<longrightarrow> (\<exists>d reason. privileged_ok c sa d reason)))"

definition impersonates :: "service_account \<Rightarrow> string \<Rightarrow> bool" where
  "impersonates sa grp \<longleftrightarrow>
     map_get (sa_annotations sa) impersonateGroupAnnotation = Some grp \<and>
     time_ptr_is_zero (om_deletion (sa_meta sa))"

lemma check_privileged_cases:
  obtains (refused) e where "check_privileged c sa grp = Inl e" "\<And>d reason. \<not> privileged_ok c sa d reason"
  | (granted) d reason where "check_privileged c sa grp = Inr (d, reason)" "privileged_ok c sa d reason"
proof (cases "check_privileged c sa grp")
  case (Inl e)
  then have "\<not> privileged_ok c sa d reason" for d reason
    using check_privileged_Inr_iff [of c sa grp d reason] by simp
  with Inl show ?thesis by (rule refused)
next
  case (Inr x)
  then show ?thesis using granted by (cases x) (auto simp: check_privileged_Inr_iff)
qed

lemma privileged_ok_unique:
  "privileged_ok c sa d reason \<Longrightarrow> privileged_ok c sa d' reason' \<Longrightarrow> d' = d \<and> reason' = reason"
  by (auto simp: privileged_ok_def)

text \<open>Every run on an impersonating service account, by the outcome of the checks.\<close>

lemma validate_cases [consumes 1]:
  assumes "impersonates sa grp"
  obtains (refused) e where "validate v env (SAObject sa) rt = Returns (Some e, rt)"
      "\<not> may_impersonate v sa grp"
  | (unlimited) c user where "validate v env (SAObject sa) rt = Returns (None, rt)"
      "get_config (va_configs v) grp = Some c" "\<not> gc_reason_required c"
      "owner_of sa = Some user" "va_auth v user grp = Inr True"
  | (limited) c user d reason where
      "validate v env (SAObject sa) rt =
         bind_outcome (record_all env (audit_entry v sa c user (to_team c grp) grp reason d) rt)
           (\<lambda>(auditErrs, rt'). Returns (None, rt'))"
      "get_config (va_configs v) grp = Some c" "gc_reason_required c"
      "owner_of sa = Some user" "va_auth v user grp = Inr True" "privileged_ok c sa d reason"
proof -
  let ?user = "trim_prefix (om_namespace (sa_meta sa)) userNamespacePrefix"
  note imp = assms [unfolded impersonates_def]
  show thesis
  proof (cases "get_config (va_configs v) grp")
    case None
    with imp show thesis by (intro refused) (auto simp: validate_def may_impersonate_def)
  next
    case c: (Some c)
    show thesis
    proof (cases "?user = om_namespace (sa_meta sa)")
      case True
      with imp c show thesis
        by (intro refused) (auto simp: validate_def may_impersonate_def owner_of_trim)
    next
      case False
      then have owner: "owner_of sa = Some ?user" by (simp add: owner_of_trim)
      show thesis
      proof (cases "va_auth v ?user grp = Inr True")
        case no: False
        then consider e where "va_auth v ?user grp = Inl e" | "va_auth v ?user grp = Inr False"
          by (cases "va_auth v ?user grp") auto
        then show thesis
          using imp c False owner
          by cases (auto simp: validate_def may_impersonate_def intro!: refused)
      next
        case yes: True
        note member = imp c False owner yes
        show thesis
        proof (cases "gc_reason_required c")
          case False
          with member show thesis by (intro unlimited) (auto simp: validate_def)
        next
          case required: True
          show thesis
          proof (cases rule: check_privileged_cases [of c sa grp])
            case (refused e)
            with member required show thesis
              by (intro that(1)) (auto simp: validate_def may_impersonate_def)
          next
            case (granted d reason)
            with member required show thesis
              by (intro limited) (auto simp: validate_def Let_def)
          qed
        qed
      qed
    qed
  qed
qed

lemma record_all_returns:
  assumes "router_ok rt"
  obtains errs rt' where "record_all env p rt = Returns (errs, rt')" "router_ok rt'"
proof (cases "payload_hash env p \<in> set (rt_recent rt)")
  case True
  with assms show ?thesis using that by (simp add: record_all_seen)
next
  case False
  with assms show ?thesis using that record_all_fresh by blast
qed

section \<open>What a client of an auther may conclude\<close>

context auther
begin

lemma admitted_confirmed:
  assumes "va_auth v = is_member" and "impersonates sa grp"
    and "validate v env (SAObject sa) rt = Returns (None, rt')"
  shows "\<exists>user. owner_of sa = Some user \<and> confirmed user grp"
  using assms(2)
proof (cases rule: validate_cases [of sa grp v env rt])
  case (refused e)
  with assms(3) show ?thesis by simp
next
  case (unlimited c user)
  with assms(1) positive show ?thesis by auto
next
  case (limited c user d reason)
  with assms(1) positive show ?thesis by auto
qed

lemma unconfirmed_never_admitted:
  assumes "va_auth v = is_member" and "impersonates sa grp"
    and "\<And>user. owner_of sa = Some user \<Longrightarrow> \<not> confirmed user grp"
  shows "validate v env (SAObject sa) rt \<noteq> Returns (None, rt')"
  using admitted_confirmed [OF assms(1,2)] assms(3) by blast

end

lemma owner_of_Some_iff:
  "owner_of sa = Some user \<longleftrightarrow> om_namespace (sa_meta sa) = userNamespacePrefix @ user"
  by (auto simp: owner_of_def has_prefix_iff)

lemma validate_admits_iff:
  assumes "router_ok rt" and "impersonates sa grp"
  shows "(\<exists>rt'. validate v env (SAObject sa) rt = Returns (None, rt')) \<longleftrightarrow> may_impersonate v sa grp"
  using assms(2)
proof (cases rule: validate_cases [of sa grp v env rt])
  case (refused e)
  then show ?thesis by simp
next
  case (unlimited c user)
  then show ?thesis by (auto simp: may_impersonate_def)
next
  case (limited c user d reason)
  obtain errs rt' where "record_all env (audit_entry v sa c user (to_team c grp) grp reason d) rt
      = Returns (errs, rt')"
    using record_all_returns [OF assms(1)] by metis
  with limited show ?thesis by (auto simp: may_impersonate_def)
qed

lemma validate_untouched:
  assumes "\<And>sa grp. req = SAObject sa \<Longrightarrow> \<not> impersonates sa grp"
  shows "validate v env req rt =
    Returns (case req of OtherObject t \<Rightarrow> Some (UnexpectedType t) | SAObject sa \<Rightarrow> None, rt)"
  using assms
  by (auto simp: validate_def impersonates_def split: runtime_object.splits option.splits)

lemma validate_returns:
  assumes "router_ok rt"
  shows "\<exists>res rt'. validate v env req rt = Returns (res, rt') \<and> router_ok rt' \<and>
    (res \<noteq> None \<longrightarrow> rt' = rt)"
proof (cases "\<exists>sa grp. req = SAObject sa \<and> impersonates sa grp")
  case False
  with assms show ?thesis by (subst validate_untouched) auto
next
  case True
  then obtain sa grp where req: "req = SAObject sa" and imp: "impersonates sa grp" by blast
  from imp show ?thesis
  proof (cases rule: validate_cases [of sa grp v env rt])
    case (limited c user d reason)
    obtain errs rt' where "record_all env (audit_entry v sa c user (to_team c grp) grp reason d) rt
        = Returns (errs, rt')" "router_ok rt'"
      using record_all_returns [OF assms] by metis
    with limited req show ?thesis by simp
  qed (use assms req in auto)
qed

section \<open>Properties\<close>

text \<open>
  C19: For a service account that asks for a group and is not being deleted, the webhook
  admits exactly when the policy allows it: a configuration matches the group, the
  namespace is a user's, that user is a member, and, if the group requires a reason, a
  duration within the limit and a non-empty reason are given. Auditing never stands in
  the way: whatever the sinks do, the decision is the same.
\<close>

theorem webhook_admits_iff_allowed:
  assumes "router_ok rt" and "impersonates sa grp"
  shows "(\<exists>rt'. validate v env (SAObject sa) rt = Returns (None, rt')) \<longleftrightarrow>
    (\<exists>c user. get_config (va_configs v) grp = Some c \<and>
       om_namespace (sa_meta sa) = userNamespacePrefix @ user \<and> va_auth v user grp = Inr True \<and>
       (gc_reason_required c \<longrightarrow>
          (\<exists>s d reason. map_get (sa_annotations sa) requestedServiceDurationAnnotation = Some s \<and>
             parse_duration s = Some d \<and> d \<le> gc_max_duration c \<and>
             map_get (sa_annotations sa) accessReasonAnnotation = Some reason \<and> reason \<noteq> [])))"
  unfolding validate_admits_iff [OF assms] may_impersonate_def privileged_ok_def owner_of_Some_iff
  by blast

text \<open>
  With the Google auther, an admitted impersonation is one that Cloud Identity
  confirmed for the user of the very namespace the service account is in.
\<close>

theorem webhook_admits_only_confirmed_members:
  assumes "va_auth v = user_is_member_of ci" and "impersonates sa grp"
    and "validate v env (SAObject sa) rt = Returns (None, rt')"
  shows "\<exists>user. om_namespace (sa_meta sa) = userNamespacePrefix @ user \<and> ci_confirms ci user grp"
  using google.admitted_confirmed [OF assms] by (simp add: owner_of_Some_iff)

text \<open>
  Every admission to a group that requires a reason goes to the audit router, with the
  user, the group and the reason it was given for, and the period it was given for: from
  the creation of the service account, for at most the longest duration configured. Each
  sink has the record unless it was recorded recently or the sink reported an error.
\<close>

theorem webhook_audits_every_privileged_admission:
  assumes "router_ok rt" and "impersonates sa grp"
    and "get_config (va_configs v) grp = Some c" and "gc_reason_required c"
    and "validate v env (SAObject sa) rt = Returns (None, rt')"
  shows "\<exists>p errs. record_all env p rt = Returns (errs, rt') \<and>
    om_namespace (sa_meta sa) = userNamespacePrefix @ pl_user p \<and> pl_group p = grp \<and>
    pl_team p = to_team c grp \<and> pl_group_type p = gc_name c \<and>
    map_get (sa_annotations sa) accessReasonAnnotation = Some (pl_reason p) \<and> pl_reason p \<noteq> [] \<and>
    pl_start p = om_creation (sa_meta sa) \<and> pl_end p \<le> pl_start p + gc_max_duration c \<and>
    (payload_hash env p \<notin> set (rt_recent rt) \<longrightarrow>
       map accepted (rt_sinks rt') =
         map (\<lambda>s. accepted s @ (if fst (sink_record env p s) = None then [p] else [])) (rt_sinks rt))"
  using assms(2)
proof (cases rule: validate_cases [of sa grp v env rt])
  case (refused e)
  with assms(5) show ?thesis by simp
next
  case (unlimited c' user)
  with assms(3,4) show ?thesis by simp
next
  case (limited c' user d reason)
  let ?p = "audit_entry v sa c user (to_team c grp) grp reason d"
  obtain errs where rec: "record_all env ?p rt = Returns (errs, rt')"
    using limited assms(3,5) by auto
  have "map accepted (rt_sinks rt') =
      map (\<lambda>s. accepted s @ (if fst (sink_record env ?p s) = None then [?p] else [])) (rt_sinks rt)"
    if "payload_hash env ?p \<notin> set (rt_recent rt)"
    using record_all_fresh [OF assms(1) that] rec by (auto simp: any_sink.record_accounts)
  moreover have "privileged_ok c sa d reason" "owner_of sa = Some user"
    using limited assms(3) by auto
  ultimately show ?thesis
    using rec
    by (intro exI [of _ ?p] exI [of _ errs])
      (auto simp: audit_entry_def privileged_ok_def owner_of_Some_iff split: prod.split)
qed

text \<open>
  The webhook is total and audits nothing it refuses: from a well-formed router it
  never panics, leaves the router well-formed, and an answer that is an error leaves it
  as it was.
\<close>

theorem webhook_total_and_refusals_silent:
  assumes "router_ok rt"
  shows "\<exists>res rt'. validate v env req rt = Returns (res, rt') \<and> router_ok rt' \<and>
    (res \<noteq> None \<longrightarrow> rt' = rt)"
  using assms by (rule validate_returns)

text \<open>
  Validating the same object again right after it was admitted admits it again and
  records nothing new: the many updates of one service account give one audit record.
\<close>

theorem webhook_revalidation_is_silent:
  assumes "router_ok rt" and "validate v env req rt = Returns (None, rt')"
  shows "validate v env req rt' = Returns (None, rt')"
proof (cases "\<exists>sa grp. req = SAObject sa \<and> impersonates sa grp")
  case False
  with assms(2) show ?thesis
    using validate_untouched [of req v env rt] validate_untouched [of req v env rt'] by auto
next
  case True
  then obtain sa grp where req: "req = SAObject sa" and imp: "impersonates sa grp" by blast
  from imp show ?thesis
  proof (cases rule: validate_cases [of sa grp v env rt])
    case (refused e)
    with assms(2) req show ?thesis by simp
  next
    case (unlimited c user)
    with assms(2) req show ?thesis by simp
  next
    case (limited c user d reason)
    let ?p = "audit_entry v sa c user (to_team c grp) grp reason d"
    obtain errs where "record_all env ?p rt = Returns (errs, rt')"
      using limited assms(2) req by auto
    then have again: "record_all env ?p rt' = Returns ([], rt')"
      by (rule record_all_again [OF assms(1)])
    from imp show ?thesis
    proof (cases rule: validate_cases [of sa grp v env rt'])
      case (refused e)
      with limited show ?thesis by (auto simp: may_impersonate_def)
    next
      case (unlimited c' user')
      with req show ?thesis by simp
    next
      case (limited c' user' d' reason')
      with \<open>get_config (va_configs v) grp = Some c\<close> \<open>owner_of sa = Some user\<close>
        \<open>privileged_ok c sa d reason\<close>
      have "c' = c" "user' = user" "d' = d" "reason' = reason"
        by (auto dest: privileged_ok_unique)
      with limited(1) again req show ?thesis by simp
    qed
  qed
qed

section \<open>Witnesses\<close>

definition example_admin_config :: access_group_config where
  "example_admin_config = \<lparr>gc_name = ''data-admins'', gc_project_template = None,
     gc_max_duration = 28800000000000, gc_reason_required = True\<rparr>"

definition example_validator :: sa_validator where
  "example_validator = \<lparr>va_auth = user_is_member_of example_member_ci,
     va_configs = [example_admin_config], va_stage = ''test''\<rparr>"

definition example_admin_sa :: service_account where
  "example_admin_sa = \<lparr>
     sa_meta = empty_meta\<lparr>om_name := ''app'', om_namespace := ''user-ssb-abc'',
       om_annotations := Some [(impersonateGroupAnnotation, ''dapla-data-admins''),
         (requestedServiceDurationAnnotation, ''8h''), (accessReasonAnnotation, ''debugging'')]\<rparr>,
     sa_other = []\<rparr>"

lemma example_config: "get_config [example_admin_config] ''dapla-data-admins'' = Some example_admin_config"
  by (simp add: get_config_find config_applies_def has_suffix_def example_admin_config_def)

lemma example_impersonates [simp]: "impersonates example_admin_sa ''dapla-data-admins''"
  by (simp add: impersonates_def example_admin_sa_def empty_meta_def time_ptr_is_zero_def)

lemma example_may [simp]:
  "get_config (va_configs example_validator) ''dapla-data-admins'' = Some example_admin_config"
  "gc_reason_required example_admin_config"
  "may_impersonate example_validator example_admin_sa ''dapla-data-admins''"
proof -
  have "privileged_ok example_admin_config example_admin_sa 28800000000000 ''debugging''"
    by (simp add: privileged_ok_def example_admin_sa_def annotation_keys parse_duration_8h
        example_admin_config_def)
  moreover have "owner_of example_admin_sa = Some ''abc''"
    by (simp add: owner_of_Some_iff example_admin_sa_def userNamespacePrefix_def)
  moreover have "user_is_member_of example_member_ci ''abc'' ''dapla-data-admins'' = Inr True"
    by (simp add: user_is_member_of_def example_member_ci_def)
  ultimately show "may_impersonate example_validator example_admin_sa ''dapla-data-admins''"
    by (auto simp: may_impersonate_def example_validator_def example_config)
qed (simp_all add: example_validator_def example_config, simp add: example_admin_config_def)

lemma example_admitted:
  "\<exists>rt'. validate example_validator env (SAObject example_admin_sa) (new_router sinks) = Returns (None, rt')"
  by (simp add: validate_admits_iff [OF router_ok_new example_impersonates])

theorem webhook_admits_iff_allowed_witness:
  "(\<exists>rt'. validate example_validator example_audit_env (SAObject example_admin_sa) (new_router [])
      = Returns (None, rt')) \<longleftrightarrow>
   (\<exists>c user. get_config (va_configs example_validator) ''dapla-data-admins'' = Some c \<and>
       om_namespace (sa_meta example_admin_sa) = userNamespacePrefix @ user \<and>
       va_auth example_validator user ''dapla-data-admins'' = Inr True \<and>
       (gc_reason_required c \<longrightarrow>
          (\<exists>s d reason. map_get (sa_annotations example_admin_sa) requestedServiceDurationAnnotation = Some s \<and>
             parse_duration s = Some d \<and> d \<le> gc_max_duration c \<and>
             map_get (sa_annotations example_admin_sa) accessReasonAnnotation = Some reason \<and> reason \<noteq> [])))"
  by (rule webhook_admits_iff_allowed) simp_all

theorem webhook_admits_only_confirmed_members_witness:
  "\<exists>user. om_namespace (sa_meta example_admin_sa) = userNamespacePrefix @ user \<and>
     ci_confirms example_member_ci user ''dapla-data-admins''"
proof -
  obtain rt' where "validate example_validator example_audit_env (SAObject example_admin_sa) (new_router [])
      = Returns (None, rt')"
    using example_admitted by blast
  then show ?thesis
    by (intro webhook_admits_only_confirmed_members [where v = example_validator])
      (simp_all add: example_validator_def)
qed

theorem webhook_audits_every_privileged_admission_witness:
  "\<exists>p errs rt'. record_all example_audit_env p (new_router [CloudLogging []]) = Returns (errs, rt') \<and>
     pl_group p = ''dapla-data-admins'' \<and> map accepted (rt_sinks rt') = [[p]]"
proof -
  obtain rt' where "validate example_validator example_audit_env (SAObject example_admin_sa)
      (new_router [CloudLogging []]) = Returns (None, rt')"
    using example_admitted by blast
  from webhook_audits_every_privileged_admission [OF router_ok_new example_impersonates
      example_may(1,2) this]
  obtain p errs where p: "record_all example_audit_env p (new_router [CloudLogging []]) = Returns (errs, rt')"
      "pl_group p = ''dapla-data-admins''"
      "payload_hash example_audit_env p \<notin> set (rt_recent (new_router [CloudLogging []])) \<longrightarrow>
         map accepted (rt_sinks rt') =
         map (\<lambda>s. accepted s @ (if fst (sink_record example_audit_env p s) = None then [p] else []))
           (rt_sinks (new_router [CloudLogging []]))"
    by blast
  from p(3) have "map accepted (rt_sinks rt') = [[p]]"
    by (simp add: new_router_def)
  with p(1,2) show ?thesis by (intro exI conjI)
qed

theorem webhook_total_and_refusals_silent_witness:
  "\<exists>res rt'. validate example_validator example_audit_env (OtherObject ''*v1.Pod'') (new_router [])
      = Returns (res, rt') \<and> router_ok rt' \<and> (res \<noteq> None \<longrightarrow> rt' = new_router [])"
  by (rule webhook_total_and_refusals_silent) simp

theorem webhook_revalidation_is_silent_witness:
  "\<exists>rt'. validate example_validator example_audit_env (SAObject example_admin_sa) (new_router [CloudStorage []])
      = Returns (None, rt') \<and>
    validate example_validator example_audit_env (SAObject example_admin_sa) rt' = Returns (None, rt')"
proof -
  obtain rt' where rt': "validate example_validator example_audit_env (SAObject example_admin_sa)
      (new_router [CloudStorage []]) = Returns (None, rt')"
    using example_admitted by blast
  from webhook_revalidation_is_silent [OF router_ok_new rt'] rt' show ?thesis by blast
qed

end
