(* ===== verification/World.thy ===== *)
theory World
  imports Kube
begin

text \<open>
  The services the operator calls: the Kubernetes API server, Google IAM, Resource
  Manager and Cloud Storage, and the helpers of the client libraries. None of their code
  is in the repository, so they are parameters, collected in the record \<open>world\<close>. A
  response may depend on everything that happened before: it is a function of the
  history, the list of the calls made so far, oldest first. A handler takes the history
  and returns it extended by its own calls, which is what the safety properties speak of.
\<close>

section \<open>Errors of the services\<close>

datatype api_error = NotFound | Conflict | AlreadyExists | OtherApiError string

datatype google_error = GoogleApi nat | OtherGoogleError string

section \<open>IAM policies\<close>

record iam_expr =
  ex_title :: string
  ex_expression :: string
  ex_other :: string

record iam_binding =
  b_role :: string
  b_members :: "string list"
  b_condition :: "iam_expr option"

record iam_policy =
  p_bindings :: "iam_binding list"
  p_version :: int
  p_etag :: string

definition empty_policy :: iam_policy where
  "empty_policy = \<lparr>p_bindings = [], p_version = 0, p_etag = []\<rparr>"

section \<open>Resource Manager and Storage\<close>

record folder =
  f_name :: string
  f_display_name :: string

record project =
  prj_name :: string
  prj_id :: string

datatype iter_error = IterDone | IterError string

text \<open>
  A paged listing: the items the iterator yields, and the error with which it ends
  (\<^verbatim>\<open>iterator.Done\<close> when nothing went wrong).
\<close>

type_synonym 'a listing = "'a list \<times> iter_error"

fun next_item :: "'a listing \<Rightarrow> (iter_error + 'a) \<times> 'a listing" where
  "next_item ([], e) = (Inl e, ([], e))"
| "next_item (x # xs, e) = (Inr x, (xs, e))"

section \<open>Events and the world\<close>

datatype event =
    GetSA namespaced_name
  | UpdateSA service_account
  | GetJob namespaced_name
  | UpdateJob job
  | DeleteJob job
  | CreateJob job
  | GetSfs namespaced_name
  | UpdateSfs statefulset
  | CreateConfigMap config_map
  | GetIamPolicy string
  | SetIamPolicy string iam_policy
  | ListFolders string
  | SearchProjects string
  | ListBuckets string string

type_synonym history = "event list"

record world =
  w_get_sa :: "history \<Rightarrow> namespaced_name \<Rightarrow> api_error + service_account"
  w_update_sa :: "history \<Rightarrow> service_account \<Rightarrow> api_error + service_account"
  w_get_job :: "history \<Rightarrow> namespaced_name \<Rightarrow> api_error + job"
  w_update_job :: "history \<Rightarrow> job \<Rightarrow> api_error + job"
  w_delete_job :: "history \<Rightarrow> job \<Rightarrow> api_error option"
  w_create_job :: "history \<Rightarrow> job \<Rightarrow> api_error option"
  w_get_sfs :: "history \<Rightarrow> namespaced_name \<Rightarrow> api_error + statefulset"
  w_update_sfs :: "history \<Rightarrow> statefulset \<Rightarrow> api_error + statefulset"
  w_create_cm :: "history \<Rightarrow> config_map \<Rightarrow> api_error option"
  w_get_iam :: "history \<Rightarrow> string \<Rightarrow> google_error + iam_policy option"
  w_set_iam :: "history \<Rightarrow> string \<Rightarrow> iam_policy \<Rightarrow> nat option \<times> google_error option"
  w_list_folders :: "history \<Rightarrow> string \<Rightarrow> folder listing"
  w_search_projects :: "history \<Rightarrow> string \<Rightarrow> project listing"
  w_list_buckets :: "history \<Rightarrow> string \<Rightarrow> string \<Rightarrow> string listing"
  w_now :: "history \<Rightarrow> gotime"
  w_range :: "history \<Rightarrow> nat \<Rightarrow> string list \<Rightarrow> string list"
  w_contains_finalizer :: "string list \<Rightarrow> string \<Rightarrow> bool"
  w_add_finalizer :: "string list \<Rightarrow> string \<Rightarrow> string list \<times> bool"
  w_remove_finalizer :: "string list \<Rightarrow> string \<Rightarrow> string list \<times> bool"
  w_nn_string :: "namespaced_name \<Rightarrow> string"

text \<open>
  \<open>w_set_iam\<close> answers as the generated client does, with the HTTP status of the policy it
  returns, if any, and an error, if any. An update that succeeds fills the object in with
  the server's version of it. \<open>w_range h i\<close> is the order of the \<open>i\<close>-th \<^verbatim>\<open>range\<close> over a map
  that a handler started with history \<open>h\<close> executes.
\<close>

definition call_get_sa where
  "call_get_sa w nn h = (w_get_sa w h nn, h @ [GetSA nn])"
definition call_update_sa where
  "call_update_sa w sa h = (w_update_sa w h sa, h @ [UpdateSA sa])"
definition call_get_job where
  "call_get_job w nn h = (w_get_job w h nn, h @ [GetJob nn])"
definition call_update_job where
  "call_update_job w j h = (w_update_job w h j, h @ [UpdateJob j])"
definition call_delete_job where
  "call_delete_job w j h = (w_delete_job w h j, h @ [DeleteJob j])"
definition call_create_job where
  "call_create_job w j h = (w_create_job w h j, h @ [CreateJob j])"
definition call_get_sfs where
  "call_get_sfs w nn h = (w_get_sfs w h nn, h @ [GetSfs nn])"
definition call_update_sfs where
  "call_update_sfs w s h = (w_update_sfs w h s, h @ [UpdateSfs s])"
definition call_create_cm where
  "call_create_cm w c h = (w_create_cm w h c, h @ [CreateConfigMap c])"
definition call_get_iam where
  "call_get_iam w ref h = (w_get_iam w h ref, h @ [GetIamPolicy ref])"
definition call_set_iam where
  "call_set_iam w ref p h = (w_set_iam w h ref p, h @ [SetIamPolicy ref p])"
definition call_list_folders where
  "call_list_folders w parent h = (w_list_folders w h parent, h @ [ListFolders parent])"
definition call_search_projects where
  "call_search_projects w q h = (w_search_projects w h q, h @ [SearchProjects q])"
definition call_list_buckets where
  "call_list_buckets w prj pre h = (w_list_buckets w h prj pre, h @ [ListBuckets prj pre])"

lemmas call_defs =
  call_get_sa_def call_update_sa_def call_get_job_def call_update_job_def
  call_delete_job_def call_create_job_def call_get_sfs_def call_update_sfs_def
  call_create_cm_def call_get_iam_def call_set_iam_def call_list_folders_def
  call_search_projects_def call_list_buckets_def

text \<open>What a handler did: its history extends the one it was given by events with \<open>P\<close>.\<close>

definition emits :: "(event \<Rightarrow> bool) \<Rightarrow> history \<Rightarrow> history \<Rightarrow> bool" where
  "emits P h h' \<longleftrightarrow> (\<exists>evs. h' = h @ evs \<and> list_all P evs)"

lemma emits_append [simp]: "emits P h (h @ evs) \<longleftrightarrow> list_all P evs"
  by (simp add: emits_def)

lemma emits_refl [simp]: "emits P h h"
  by (simp add: emits_def)

lemma emits_trans: "emits P h h' \<Longrightarrow> emits P h' h'' \<Longrightarrow> emits P h h''"
  by (auto simp: emits_def)

lemma emits_mono: "emits P h h' \<Longrightarrow> (\<And>e. P e \<Longrightarrow> Q e) \<Longrightarrow> emits Q h h'"
  unfolding emits_def using list.pred_mono_strong by blast

definition new_events :: "history \<Rightarrow> history \<Rightarrow> event list" where
  "new_events h h' = drop (length h) h'"

lemma new_events_append [simp]: "new_events h (h @ evs) = evs"
  by (simp add: new_events_def)

lemma new_events_shift [simp]:
  "new_events (h @ a) (h @ b) = new_events a b"
  "new_events (x # a) (y # b) = new_events a b"
  "new_events [] b = b"
  by (simp_all add: new_events_def)

lemma new_events_refl [simp]: "new_events h h = []"
  by (simp add: new_events_def)

section \<open>Documented behaviour of the libraries\<close>

text \<open>
  \<^verbatim>\<open>controllerutil\<close>: \<^verbatim>\<open>ContainsFinalizer\<close> checks that the finalizer is present,
  \<^verbatim>\<open>AddFinalizer\<close> adds it if not present, \<^verbatim>\<open>RemoveFinalizer\<close> removes it if present; the
  last two return whether they updated the list.
\<close>

definition finalizer_laws :: "world \<Rightarrow> bool" where
  "finalizer_laws w \<longleftrightarrow>
     (\<forall>fs f. w_contains_finalizer w fs f \<longleftrightarrow> f \<in> set fs) \<and>
     (\<forall>fs f. (snd (w_add_finalizer w fs f) \<longleftrightarrow> f \<notin> set fs) \<and>
             set (fst (w_add_finalizer w fs f)) = insert f (set fs)) \<and>
     (\<forall>fs f. (snd (w_remove_finalizer w fs f) \<longleftrightarrow> f \<in> set fs) \<and>
             set (fst (w_remove_finalizer w fs f)) = set fs - {f})"

text \<open>\<^verbatim>\<open>NamespacedName.String\<close> is the namespace and the name, separated by a slash.\<close>

definition nn_string_law :: "world \<Rightarrow> bool" where
  "nn_string_law w \<longleftrightarrow> (\<forall>nn. w_nn_string w nn = nn_namespace nn @ ''/'' @ nn_name nn)"

text \<open>
  The generated client: any status that is not 2xx is an error, and then no policy is
  returned.
\<close>

definition google_status_law :: "world \<Rightarrow> bool" where
  "google_status_law w \<longleftrightarrow>
     (\<forall>h ref p. case fst (w_set_iam w h ref p) of
        None \<Rightarrow> True | Some status \<Rightarrow> 200 \<le> status \<and> status < 300)"

text \<open>Every \<^verbatim>\<open>range\<close> visits every key once.\<close>

definition range_law :: "world \<Rightarrow> bool" where
  "range_law w \<longleftrightarrow> (\<forall>h i. range_ok (w_range w h i))"

lemma finalizer_lawsD:
  assumes "finalizer_laws w"
  shows "w_contains_finalizer w fs f \<longleftrightarrow> f \<in> set fs"
    and "snd (w_add_finalizer w fs f) \<longleftrightarrow> f \<notin> set fs"
    and "set (fst (w_add_finalizer w fs f)) = insert f (set fs)"
    and "snd (w_remove_finalizer w fs f) \<longleftrightarrow> f \<in> set fs"
    and "set (fst (w_remove_finalizer w fs f)) = set fs - {f}"
  using assms by (auto simp: finalizer_laws_def)

section \<open>A concrete world\<close>

text \<open>
  The parameters instantiated by concrete functions, for the witnesses: a server on which
  every object is missing, every write succeeds and echoes its argument, and every
  listing is empty. A witness overrides the fields it is about.
\<close>

definition quiet_world :: world where
  "quiet_world = \<lparr>
     w_get_sa = (\<lambda>_ _. Inl NotFound),
     w_update_sa = (\<lambda>_ sa. Inr sa),
     w_get_job = (\<lambda>_ _. Inl NotFound),
     w_update_job = (\<lambda>_ j. Inr j),
     w_delete_job = (\<lambda>_ _. None),
     w_create_job = (\<lambda>_ _. None),
     w_get_sfs = (\<lambda>_ _. Inl NotFound),
     w_update_sfs = (\<lambda>_ s. Inr s),
     w_create_cm = (\<lambda>_ _. None),
     w_get_iam = (\<lambda>_ _. Inr None),
     w_set_iam = (\<lambda>_ _ _. (Some 200, None)),
     w_list_folders = (\<lambda>_ _. ([], IterDone)),
     w_search_projects = (\<lambda>_ _. ([], IterDone)),
     w_list_buckets = (\<lambda>_ _ _. ([], IterDone)),
     w_now = (\<lambda>_. 0),
     w_range = (\<lambda>_ _ ks. ks),
     w_contains_finalizer = (\<lambda>fs f. f \<in> set fs),
     w_add_finalizer = (\<lambda>fs f. if f \<in> set fs then (fs, False) else (fs @ [f], True)),
     w_remove_finalizer = (\<lambda>fs f. (filter (\<lambda>g. g \<noteq> f) fs, f \<in> set fs)),
     w_nn_string = (\<lambda>nn. nn_namespace nn @ ''/'' @ nn_name nn)\<rparr>"

lemma quiet_world_laws [simp]:
  "finalizer_laws quiet_world" "nn_string_law quiet_world"
  "google_status_law quiet_world" "range_law quiet_world"
  by (auto simp: quiet_world_def finalizer_laws_def nn_string_law_def google_status_law_def
      range_law_def)

end
