(* ===== verification/Volumes.thy ===== *)
theory Volumes
  imports Kube Go_MD5
begin

text \<open>
  \<^verbatim>\<open>internal/controller/volumes.go\<close>: mounting buckets into a pod as gcsfuse volumes, and
  unmounting all of them. The map of bucket mounts is ranged over in the order \<open>ord\<close>. The
  pod and its container are two arguments, as in the code; where the container is an
  element of the pod's own slice the caller writes it back.
\<close>

definition precreatorContainerName :: string where
  "precreatorContainerName = ''bucket-folders-precreator''"

definition gcsfuse_prefix :: string where
  "gcsfuse_prefix = ''gcsfuse-''"

definition volume_name_is :: "string \<Rightarrow> volume \<Rightarrow> bool" where
  "volume_name_is name v \<longleftrightarrow> v_name v = name"

definition volume_mount_name_is :: "string \<Rightarrow> volume_mount \<Rightarrow> bool" where
  "volume_mount_name_is name vm \<longleftrightarrow> vm_name vm = name"

definition max_length_volume_name :: "string \<Rightarrow> string" where
  "max_length_volume_name mountPoint =
     (let maxLength = 54; hashLength = 8;
          volumeName = gcsfuse_prefix @ replace_all CHR ''/'' ''--'' mountPoint
      in if length volumeName > maxLength then
           let hash = hex_encode (md5_sum volumeName)
           in take (maxLength - hashLength - 1) volumeName @ ''-'' @ take hashLength hash
         else volumeName)"

definition bucket_volume :: "string \<Rightarrow> string \<Rightarrow> volume" where
  "bucket_volume name bucket =
     \<lparr>v_name = name,
      v_source = CSI \<lparr>csi_driver = ''gcsfuse.csi.storage.gke.io'', csi_read_only = Some False,
        csi_attributes = Some [(''bucketName'', bucket), (''mountOptions'', ''uid=1000,gid=100''),
          (''gcsfuseLoggingSeverity'', ''warning'')]\<rparr>\<rparr>"

definition bucket_mount :: "string \<Rightarrow> string \<Rightarrow> volume_mount" where
  "bucket_mount name mountPoint =
     \<lparr>vm_name = name, vm_path = ''/buckets/'' @ mountPoint, vm_sub_path = [], vm_read_only = False,
      vm_other = []\<rparr>"

text \<open>The loop over the bucket mounts, with the volumes and the mounts it collects.\<close>

fun bucket_loop ::
  "volume list \<Rightarrow> volume_mount list \<Rightarrow> entries \<Rightarrow> volume list \<times> volume_mount list
     \<Rightarrow> volume list \<times> volume_mount list" where
  "bucket_loop podVolumes cMounts [] acc = acc"
| "bucket_loop podVolumes cMounts ((mountPoint, bucket) # kvs) (volumes, volumeMounts) =
     (let volumeName = max_length_volume_name mountPoint;
          volumes = (if \<not> contains_func (volume_name_is volumeName) podVolumes
                     then volumes @ [bucket_volume volumeName bucket] else volumes);
          volumeMounts = (if \<not> contains_func (volume_mount_name_is volumeName) cMounts
                          then volumeMounts @ [bucket_mount volumeName mountPoint] else volumeMounts)
      in bucket_loop podVolumes cMounts kvs (volumes, volumeMounts))"

definition add_buckets_to_pod_spec ::
  "(string list \<Rightarrow> string list) \<Rightarrow> pod_spec \<Rightarrow> container \<Rightarrow> entries \<Rightarrow> bool \<times> pod_spec \<times> container" where
  "add_buckets_to_pod_spec ord podspec container bucketMounts =
     (let (volumes, volumeMounts) =
            bucket_loop (ps_volumes podspec) (c_mounts container) (range_over ord bucketMounts) ([], []);
          podspec' = (if volumes \<noteq> [] then podspec\<lparr>ps_volumes := ps_volumes podspec @ volumes\<rparr>
                      else podspec);
          container' = (if volumeMounts \<noteq> [] then container\<lparr>c_mounts := c_mounts container @ volumeMounts\<rparr>
                        else container)
      in (volumes \<noteq> [] \<or> volumeMounts \<noteq> [], podspec', container'))"

definition is_bucket_volume :: "volume \<Rightarrow> bool" where
  "is_bucket_volume v \<longleftrightarrow> has_prefix (v_name v) gcsfuse_prefix"

definition is_bucket_mount :: "volume_mount \<Rightarrow> bool" where
  "is_bucket_mount vm \<longleftrightarrow> has_prefix (vm_name vm) gcsfuse_prefix"

text \<open>\<^verbatim>\<open>modified\<close> is set by the predicates given to \<^verbatim>\<open>DeleteFunc\<close>, on each hit.\<close>

definition remove_buckets_from_pod_spec :: "pod_spec \<Rightarrow> container \<Rightarrow> bool \<times> pod_spec \<times> container" where
  "remove_buckets_from_pod_spec podspec container =
     (let modified = (\<exists>v \<in> set (ps_volumes podspec). is_bucket_volume v);
          podspec' = podspec\<lparr>ps_volumes := delete_func is_bucket_volume (ps_volumes podspec)\<rparr>;
          modified' = (modified \<or> (\<exists>vm \<in> set (c_mounts container). is_bucket_mount vm));
          container' = container\<lparr>c_mounts := delete_func is_bucket_mount (c_mounts container)\<rparr>
      in (modified', podspec', container'))"

section \<open>Volume names\<close>

lemma length_gcsfuse_prefix [simp]: "length gcsfuse_prefix = 8"
  by (simp add: gcsfuse_prefix_def)

lemma volume_name_shape:
  obtains rest where "max_length_volume_name mp = gcsfuse_prefix @ rest" "length rest \<le> 46"
proof (cases "length (gcsfuse_prefix @ replace_all CHR ''/'' ''--'' mp) > 54")
  case True
  let ?r = "replace_all CHR ''/'' ''--'' mp"
  have "max_length_volume_name mp = gcsfuse_prefix @ (take 37 ?r @ ''-'' @
      take 8 (hex_encode (md5_sum (gcsfuse_prefix @ ?r))))"
    using True by (simp add: max_length_volume_name_def Let_def)
  then show ?thesis by (rule that) simp
next
  case False
  then have "max_length_volume_name mp = gcsfuse_prefix @ replace_all CHR ''/'' ''--'' mp"
    by (simp add: max_length_volume_name_def)
  then show ?thesis using False by (intro that) (simp_all add: not_less)
qed

lemma bucket_names [simp]:
  "is_bucket_volume (bucket_volume (max_length_volume_name mp) b)"
  "is_bucket_mount (bucket_mount (max_length_volume_name mp) mp')"
  using volume_name_shape [of mp] has_prefix_append
  by (metis bucket_volume_def is_bucket_volume_def volume.select_convs(1),
      metis bucket_mount_def is_bucket_mount_def volume_mount.select_convs(1))

subsection \<open>Different mount points, different names\<close>

text \<open>
  A path segment that cannot be confused with the separator: no two dashes in a row, and
  none at the end.
\<close>

definition segment_ok :: "string \<Rightarrow> bool" where
  "segment_ok s \<longleftrightarrow> \<not> contains_sub s ''--'' \<and> (s \<noteq> [] \<longrightarrow> last s \<noteq> CHR ''-'')"

definition mount_point_ok :: "string \<Rightarrow> bool" where
  "mount_point_ok mp \<longleftrightarrow>
     list_all segment_ok (split_on CHR ''/'' mp) \<and>
     length (replace_all CHR ''/'' ''--'' mp) \<le> 46"

lemma replace_all_join: "replace_all c r s = join r (split_on c s)"
proof (induction s)
  case Nil
  then show ?case by (simp add: replace_all_def)
next
  case (Cons x s)
  have "replace_all c r (x # s) = (if x = c then r else [x]) @ replace_all c r s"
    by (simp add: replace_all_def)
  with Cons show ?case
    by (auto simp: join_Cons join_hd_extend)
qed

lemma segment_split:
  assumes "segment_ok a" and "segment_ok b" and "a @ ''--'' @ r = b @ ''--'' @ s"
  shows "a = b"
proof -
  have no: "u = []" if "segment_ok (c @ u)" "u @ ''--'' @ x = ''--'' @ y" for c u x y
  proof (cases u)
    case (Cons d u')
    with that(2) have d: "d = CHR ''-''" by simp
    show ?thesis
    proof (cases u')
      case Nil
      with that(1) Cons d show ?thesis by (simp add: segment_ok_def)
    next
      case (Cons e u'')
      with that(2) \<open>u = d # u'\<close> have "c @ u = c @ ''--'' @ u''" by simp
      with that(1) show ?thesis
        using contains_sub_iff by (metis segment_ok_def)
    qed
  qed
  from assms(3) obtain u where "a = b @ u \<and> u @ ''--'' @ r = ''--'' @ s \<or> a @ u = b \<and> ''--'' @ r = u @ ''--'' @ s"
    by (auto simp: append_eq_append_conv2)
  then show ?thesis
    using no [of b u r s] no [of a u s r] assms(1,2) by auto
qed

lemma segment_no_split: "segment_ok (b @ ''--'' @ s) \<Longrightarrow> False"
  using contains_sub_iff by (metis segment_ok_def)

lemma join_segments_inj:
  assumes "list_all segment_ok xs" and "list_all segment_ok ys" and "xs \<noteq> []" and "ys \<noteq> []"
    and "join ''--'' xs = join ''--'' ys"
  shows "xs = ys"
  using assms
proof (induction xs arbitrary: ys)
  case Nil
  then show ?case by simp
next
  case (Cons x xs)
  from Cons.prems(4) obtain y ys' where ys: "ys = y # ys'" by (cases ys) auto
  show ?case
  proof (cases "xs = []"; cases "ys' = []")
    assume "xs = []" "ys' = []"
    with Cons.prems ys show ?thesis by simp
  next
    assume "xs = []" "ys' \<noteq> []"
    with Cons.prems ys have "x = y @ ''--'' @ join ''--'' ys'" by (simp add: join_Cons)
    with Cons.prems(1) have "segment_ok (y @ ''--'' @ join ''--'' ys')" by simp
    then show ?thesis using segment_no_split by blast
  next
    assume "xs \<noteq> []" "ys' = []"
    with Cons.prems ys have "y = x @ ''--'' @ join ''--'' xs" by (simp add: join_Cons)
    with Cons.prems(2) ys have "segment_ok (x @ ''--'' @ join ''--'' xs)" by simp
    then show ?thesis using segment_no_split by blast
  next
    assume ne: "xs \<noteq> []" "ys' \<noteq> []"
    with Cons.prems ys have eq: "x @ ''--'' @ join ''--'' xs = y @ ''--'' @ join ''--'' ys'"
      by (simp add: join_Cons)
    with Cons.prems(1,2) ys have "x = y" using segment_split by auto
    with eq Cons.IH [of ys'] Cons.prems(1,2) ys ne show ?thesis by simp
  qed
qed

lemma volume_name_inj_ok:
  assumes "mount_point_ok a" and "mount_point_ok b"
  shows "max_length_volume_name a = max_length_volume_name b \<longleftrightarrow> a = b"
proof
  assume eq: "max_length_volume_name a = max_length_volume_name b"
  have name: "max_length_volume_name mp = gcsfuse_prefix @ replace_all CHR ''/'' ''--'' mp"
    if "mount_point_ok mp" for mp
    using that by (simp add: max_length_volume_name_def mount_point_ok_def)
  from eq have "join ''--'' (split_on CHR ''/'' a) = join ''--'' (split_on CHR ''/'' b)"
    using assms by (simp add: name replace_all_join)
  then have "split_on CHR ''/'' a = split_on CHR ''/'' b"
    using assms by (intro join_segments_inj) (auto simp: mount_point_ok_def)
  then show "a = b" by (metis join_split_on)
qed simp

section \<open>What adding and removing do\<close>

definition new_volumes :: "volume list \<Rightarrow> entries \<Rightarrow> volume list" where
  "new_volumes vs kvs =
     map (\<lambda>(mp, b). bucket_volume (max_length_volume_name mp) b)
       (filter (\<lambda>(mp, b). \<not> contains_func (volume_name_is (max_length_volume_name mp)) vs) kvs)"

definition new_mounts :: "volume_mount list \<Rightarrow> entries \<Rightarrow> volume_mount list" where
  "new_mounts ms kvs =
     map (\<lambda>(mp, b). bucket_mount (max_length_volume_name mp) mp)
       (filter (\<lambda>(mp, b). \<not> contains_func (volume_mount_name_is (max_length_volume_name mp)) ms) kvs)"

lemma bucket_loop_eq:
  "bucket_loop pvs cms kvs (vs, ms) = (vs @ new_volumes pvs kvs, ms @ new_mounts cms kvs)"
  by (induction pvs cms kvs "(vs, ms)" arbitrary: vs ms rule: bucket_loop.induct)
    (simp_all add: new_volumes_def new_mounts_def Let_def del: contains_func_iff)

lemma add_buckets_eq:
  "add_buckets_to_pod_spec ord p c bm =
     (let nv = new_volumes (ps_volumes p) (range_over ord bm);
          nm = new_mounts (c_mounts c) (range_over ord bm)
      in (nv \<noteq> [] \<or> nm \<noteq> [], p\<lparr>ps_volumes := ps_volumes p @ nv\<rparr>, c\<lparr>c_mounts := c_mounts c @ nm\<rparr>))"
  by (auto simp: add_buckets_to_pod_spec_def bucket_loop_eq Let_def)

text \<open>A pod and a container without any bucket.\<close>

definition no_buckets :: "pod_spec \<Rightarrow> container \<Rightarrow> bool" where
  "no_buckets p c \<longleftrightarrow>
     (\<forall>v \<in> set (ps_volumes p). \<not> is_bucket_volume v) \<and> (\<forall>vm \<in> set (c_mounts c). \<not> is_bucket_mount vm)"

lemma bucket_volume_fields [simp]:
  "v_name (bucket_volume n b) = n" "vm_name (bucket_mount n mp) = n"
  by (simp_all add: bucket_volume_def bucket_mount_def)

lemma is_bucket_name [simp]: "has_prefix (max_length_volume_name mp) gcsfuse_prefix"
  using bucket_names(1) [of mp] by (simp add: is_bucket_volume_def)

lemma no_buckets_new:
  assumes "no_buckets p c"
  shows "new_volumes (ps_volumes p) kvs = map (\<lambda>(mp, b). bucket_volume (max_length_volume_name mp) b) kvs"
    and "new_mounts (c_mounts c) kvs = map (\<lambda>(mp, b). bucket_mount (max_length_volume_name mp) mp) kvs"
proof -
  have "v_name v \<noteq> max_length_volume_name mp" if "v \<in> set (ps_volumes p)" for v mp
    using assms that is_bucket_name by (auto simp: no_buckets_def is_bucket_volume_def)
  then have "filter (\<lambda>(mp, b). \<not> contains_func (volume_name_is (max_length_volume_name mp)) (ps_volumes p)) kvs = kvs"
    by (auto simp: filter_id_conv volume_name_is_def)
  then show "new_volumes (ps_volumes p) kvs = map (\<lambda>(mp, b). bucket_volume (max_length_volume_name mp) b) kvs"
    by (simp only: new_volumes_def)
  have "vm_name v \<noteq> max_length_volume_name mp" if "v \<in> set (c_mounts c)" for v mp
    using assms that is_bucket_name by (auto simp: no_buckets_def is_bucket_mount_def)
  then have "filter (\<lambda>(mp, b). \<not> contains_func (volume_mount_name_is (max_length_volume_name mp)) (c_mounts c)) kvs = kvs"
    by (auto simp: filter_id_conv volume_mount_name_is_def)
  then show "new_mounts (c_mounts c) kvs = map (\<lambda>(mp, b). bucket_mount (max_length_volume_name mp) mp) kvs"
    by (simp only: new_mounts_def)
qed

lemma new_are_buckets:
  "\<forall>v \<in> set (new_volumes vs kvs). is_bucket_volume v" "\<forall>m \<in> set (new_mounts ms kvs). is_bucket_mount m"
  by (auto simp: new_volumes_def new_mounts_def)

lemma new_after_add:
  assumes "set kvs' \<subseteq> set kvs"
  shows "new_volumes (vs @ new_volumes vs kvs) kvs' = []"
    and "new_mounts (ms @ new_mounts ms kvs) kvs' = []"
proof -
  have "\<exists>v \<in> set (vs @ new_volumes vs kvs). volume_name_is (max_length_volume_name (fst q)) v"
    if "q \<in> set kvs'" for q
  proof (cases "\<exists>v \<in> set vs. volume_name_is (max_length_volume_name (fst q)) v")
    case False
    with assms that have "bucket_volume (max_length_volume_name (fst q)) (snd q) \<in> set (new_volumes vs kvs)"
      by (cases q) (auto simp: new_volumes_def)
    then show ?thesis by (force simp: volume_name_is_def)
  qed auto
  then show "new_volumes (vs @ new_volumes vs kvs) kvs' = []"
    unfolding new_volumes_def [of "vs @ new_volumes vs kvs"] by (fastforce simp: filter_empty_conv)
  have "\<exists>v \<in> set (ms @ new_mounts ms kvs). volume_mount_name_is (max_length_volume_name (fst q)) v"
    if "q \<in> set kvs'" for q
  proof (cases "\<exists>v \<in> set ms. volume_mount_name_is (max_length_volume_name (fst q)) v")
    case False
    with assms that have "bucket_mount (max_length_volume_name (fst q)) (fst q) \<in> set (new_mounts ms kvs)"
      by (cases q) (auto simp: new_mounts_def)
    then show ?thesis by (force simp: volume_mount_name_is_def)
  qed auto
  then show "new_mounts (ms @ new_mounts ms kvs) kvs' = []"
    unfolding new_mounts_def [of "ms @ new_mounts ms kvs"] by (fastforce simp: filter_empty_conv)
qed

text \<open>Every bucket of the map has its volume and its mount afterwards.\<close>

lemma add_buckets_covers:
  assumes "range_ok ord" and "map_ok bm" and "mp \<in> fst ` set bm"
    and "add_buckets_to_pod_spec ord p c bm = (modified, p', c')"
  shows "\<exists>v \<in> set (ps_volumes p'). v_name v = max_length_volume_name mp"
    and "\<exists>vm \<in> set (c_mounts c'). vm_name vm = max_length_volume_name mp"
proof -
  let ?kvs = "range_over ord bm"
  obtain b where b: "(mp, b) \<in> set ?kvs" using assms(1-3) by auto
  have p': "p' = p\<lparr>ps_volumes := ps_volumes p @ new_volumes (ps_volumes p) ?kvs\<rparr>"
    and c': "c' = c\<lparr>c_mounts := c_mounts c @ new_mounts (c_mounts c) ?kvs\<rparr>"
    using assms(4) by (simp_all add: add_buckets_eq Let_def)
  have "new_volumes (ps_volumes p') [(mp, b)] = []" "new_mounts (c_mounts c') [(mp, b)] = []"
    unfolding p' c' using b by (simp_all add: new_after_add)
  then show "\<exists>v \<in> set (ps_volumes p'). v_name v = max_length_volume_name mp"
    and "\<exists>vm \<in> set (c_mounts c'). vm_name vm = max_length_volume_name mp"
    by (auto simp: new_volumes_def new_mounts_def volume_name_is_def volume_mount_name_is_def
        split: if_splits)
qed

text \<open>
  And it is the volume of this bucket and the mount at this mount point, when no other mount
  point of the map has the same volume name, and what the pod had under that name was that.
\<close>

lemma add_buckets_pins:
  fixes mp b :: string
  defines "n \<equiv> max_length_volume_name mp"
  assumes "range_ok ord" and "map_ok bm" and "(mp, b) \<in> set bm"
    and "\<And>mp'. mp' \<in> fst ` set bm \<Longrightarrow> max_length_volume_name mp' = n \<Longrightarrow> mp' = mp"
    and "add_buckets_to_pod_spec ord p c bm = (modified, p', c')"
  shows "(\<And>v. v \<in> set (ps_volumes p) \<Longrightarrow> v_name v = n \<Longrightarrow> v = bucket_volume n b) \<Longrightarrow>
      {v \<in> set (ps_volumes p'). v_name v = n} = {bucket_volume n b}"
    and "(\<And>vm. vm \<in> set (c_mounts c) \<Longrightarrow> vm_name vm = n \<Longrightarrow> vm = bucket_mount n mp) \<Longrightarrow>
      {vm \<in> set (c_mounts c'). vm_name vm = n} = {bucket_mount n mp}"
proof -
  let ?kvs = "range_over ord bm"
  have p': "p' = p\<lparr>ps_volumes := ps_volumes p @ new_volumes (ps_volumes p) ?kvs\<rparr>"
    and c': "c' = c\<lparr>c_mounts := c_mounts c @ new_mounts (c_mounts c) ?kvs\<rparr>"
    using assms(6) by (simp_all add: add_buckets_eq Let_def)
  have sets: "set ?kvs = set bm" using assms(2,3) by simp
  have only: "mp' = mp \<and> b' = b" if "(mp', b') \<in> set ?kvs" "max_length_volume_name mp' = n" for mp' b'
  proof -
    have "mp' \<in> fst ` set bm" using that(1) sets by force
    with assms(5) that(2) have "mp' = mp" by simp
    with that(1) sets assms(3,4) show ?thesis by (auto simp: map_ok_def eq_key_imp_eq_value)
  qed
  have "mp \<in> fst ` set bm" using assms(4) by force
  from add_buckets_covers [OF assms(2,3) this assms(6)]
  have some: "\<exists>v \<in> set (ps_volumes p'). v_name v = n" "\<exists>vm \<in> set (c_mounts c'). vm_name vm = n"
    by (simp_all add: n_def)
  have new_v: "v = bucket_volume n b" if "v \<in> set (new_volumes (ps_volumes p) ?kvs)" "v_name v = n" for v
    using that only by (auto simp: new_volumes_def)
  have new_m: "vm = bucket_mount n mp" if "vm \<in> set (new_mounts (c_mounts c) ?kvs)" "vm_name vm = n" for vm
    using that only by (auto simp: new_mounts_def)
  show "{v \<in> set (ps_volumes p'). v_name v = n} = {bucket_volume n b}"
    if "\<And>v. v \<in> set (ps_volumes p) \<Longrightarrow> v_name v = n \<Longrightarrow> v = bucket_volume n b"
    using some(1) that new_v by (auto simp: p')
  show "{vm \<in> set (c_mounts c'). vm_name vm = n} = {bucket_mount n mp}"
    if "\<And>vm. vm \<in> set (c_mounts c) \<Longrightarrow> vm_name vm = n \<Longrightarrow> vm = bucket_mount n mp"
    using some(2) that new_m by (auto simp: c')
qed

lemma remove_no_buckets:
  "no_buckets p c \<Longrightarrow> remove_buckets_from_pod_spec p c = (False, p, c)"
  by (auto simp: remove_buckets_from_pod_spec_def no_buckets_def delete_func_none)

text \<open>A map from mount points, filtered for one of them.\<close>

lemma filter_one_key:
  assumes "map_ok kvs" and "(k, v) \<in> set kvs" and "inj_on f (fst ` set kvs)"
  shows "filter (\<lambda>p. f (fst p) = f k) kvs = [(k, v)]"
  using assms
proof (induction kvs)
  case Nil
  then show ?case by simp
next
  case (Cons p kvs)
  show ?case
  proof (cases "p = (k, v)")
    case True
    have "f (fst q) \<noteq> f k" if "q \<in> set kvs" for q
    proof -
      have "fst q \<noteq> k"
        using Cons.prems(1) True that by (auto simp: map_ok_def intro: rev_image_eqI)
      with Cons.prems(3) True that show ?thesis by (auto simp: inj_on_def)
    qed
    then have "filter (\<lambda>q. f (fst q) = f k) kvs = []" by (simp add: filter_empty_conv)
    with True show ?thesis by simp
  next
    case False
    with Cons.prems have kv: "(k, v) \<in> set kvs" by auto
    then have "k \<in> fst ` set kvs" by force
    with Cons.prems(1) have "fst p \<noteq> k" by (auto simp: map_ok_def)
    then have "f (fst p) \<noteq> f k"
      using Cons.prems(3) kv by (force simp: inj_on_def)
    with Cons kv show ?thesis by (simp add: map_ok_def)
  qed
qed

section \<open>Properties\<close>

text \<open>
  C28: On a pod without buckets, mounting a map of buckets whose volume names are different
  gives, for each of them and in whatever order the map is ranged over, exactly one volume
  with its name, a gcsfuse volume of that bucket, and exactly one mount of it in the
  container, at the mount point; volumes and mounts that are not buckets stay as they were.
\<close>

theorem every_bucket_mounted_once:
  assumes "range_ok ord" and "map_ok bm" and "no_buckets p c"
    and "inj_on max_length_volume_name (fst ` set bm)"
    and "add_buckets_to_pod_spec ord p c bm = (modified, p', c')" and "(mp, bucket) \<in> set bm"
  shows "filter (volume_name_is (max_length_volume_name mp)) (ps_volumes p')
      = [bucket_volume (max_length_volume_name mp) bucket] \<and>
    filter (volume_mount_name_is (max_length_volume_name mp)) (c_mounts c')
      = [bucket_mount (max_length_volume_name mp) mp] \<and>
    delete_func is_bucket_volume (ps_volumes p') = ps_volumes p \<and>
    delete_func is_bucket_mount (c_mounts c') = c_mounts c"
proof -
  let ?kvs = "range_over ord bm" and ?n = "max_length_volume_name"
  note sets = set_range_over [OF assms(1,2)]
  have kvs: "filter (\<lambda>q. ?n (fst q) = ?n mp) ?kvs = [(mp, bucket)]"
    using assms by (intro filter_one_key) simp_all
  have vols: "ps_volumes p' = ps_volumes p @ map (\<lambda>(m, b). bucket_volume (?n m) b) ?kvs"
    and mounts: "c_mounts c' = c_mounts c @ map (\<lambda>(m, b). bucket_mount (?n m) m) ?kvs"
    using assms(5) by (auto simp: add_buckets_eq Let_def no_buckets_new [OF assms(3)])
  have old: "filter (volume_name_is (?n mp)) (ps_volumes p) = []"
      "filter (volume_mount_name_is (?n mp)) (c_mounts c) = []"
    using assms(3)
    by (auto simp: filter_empty_conv no_buckets_def volume_name_is_def volume_mount_name_is_def
        is_bucket_volume_def is_bucket_mount_def dest!: bspec)
  have "filter (volume_name_is (?n mp)) (map (\<lambda>(m, b). bucket_volume (?n m) b) ?kvs)
      = map (\<lambda>(m, b). bucket_volume (?n m) b) (filter (\<lambda>q. ?n (fst q) = ?n mp) ?kvs)"
    by (simp add: filter_map comp_def volume_name_is_def case_prod_unfold)
  moreover have "filter (volume_mount_name_is (?n mp)) (map (\<lambda>(m, b). bucket_mount (?n m) m) ?kvs)
      = map (\<lambda>(m, b). bucket_mount (?n m) m) (filter (\<lambda>q. ?n (fst q) = ?n mp) ?kvs)"
    by (simp add: filter_map comp_def volume_mount_name_is_def case_prod_unfold)
  moreover have "delete_func is_bucket_volume (ps_volumes p') = ps_volumes p"
      "delete_func is_bucket_mount (c_mounts c') = c_mounts c"
    using assms(3) by (auto simp: vols mounts delete_func_def no_buckets_def filter_id_conv filter_empty_conv)
  ultimately show ?thesis using old kvs by (simp add: vols mounts)
qed

text \<open>
  Mounting the same buckets a second time changes nothing and reports no change,
  whatever orders the two passes over the map take.
\<close>

theorem add_buckets_idempotent:
  assumes "range_ok ord" and "range_ok ord'" and "map_ok bm"
    and "add_buckets_to_pod_spec ord p c bm = (modified, p', c')"
  shows "add_buckets_to_pod_spec ord' p' c' bm = (False, p', c')"
proof -
  let ?kvs = "range_over ord bm" and ?kvs' = "range_over ord' bm"
  have p': "p' = p\<lparr>ps_volumes := ps_volumes p @ new_volumes (ps_volumes p) ?kvs\<rparr>"
    and c': "c' = c\<lparr>c_mounts := c_mounts c @ new_mounts (c_mounts c) ?kvs\<rparr>"
    using assms(4) by (simp_all add: add_buckets_eq Let_def)
  have "new_volumes (ps_volumes p') ?kvs' = []" "new_mounts (c_mounts c') ?kvs' = []"
    unfolding p' c' using assms(1-3) by (simp_all add: new_after_add)
  then show ?thesis by (simp add: add_buckets_eq Let_def)
qed

text \<open>
  The order in which the map is ranged over decides only the order of the volumes and
  mounts: two runs report the same, and give the same volumes and the same mounts, each as
  many times.
\<close>

theorem add_buckets_order_irrelevant:
  assumes "range_ok ord" and "range_ok ord'" and "map_ok bm"
    and "add_buckets_to_pod_spec ord p c bm = (m1, p1, c1)"
    and "add_buckets_to_pod_spec ord' p c bm = (m2, p2, c2)"
  shows "m1 = m2 \<and> mset (ps_volumes p1) = mset (ps_volumes p2) \<and> mset (c_mounts c1) = mset (c_mounts c2)"
proof -
  have kvs: "mset (range_over ord bm) = mset (range_over ord' bm)"
    using assms(1-3) by (simp add: mset_range_over)
  then have "mset (new_volumes vs (range_over ord bm)) = mset (new_volumes vs (range_over ord' bm))"
    and "mset (new_mounts ms (range_over ord bm)) = mset (new_mounts ms (range_over ord' bm))" for vs ms
    by (simp_all add: new_volumes_def new_mounts_def)
  then show ?thesis
    using assms(4,5) by (auto simp: add_buckets_eq Let_def) (metis mset_zero_iff)+
qed

text \<open>
  The two functions of this file undo each other: on a pod without buckets, removing after
  adding restores the pod and the container exactly, and reports a change if there were
  buckets. Neither looks at the other containers of the pod.
\<close>

theorem remove_after_add_restores:
  assumes "range_ok ord" and "map_ok bm" and "no_buckets p c"
    and "add_buckets_to_pod_spec ord p c bm = (modified, p', c')"
  shows "remove_buckets_from_pod_spec p' c' = (bm \<noteq> [], p, c) \<and> modified = (bm \<noteq> [])"
proof -
  let ?kvs = "range_over ord bm"
  have ne: "?kvs = [] \<longleftrightarrow> bm = []" using length_range_over [OF assms(1), of bm] by auto
  have p': "p' = p\<lparr>ps_volumes := ps_volumes p @ new_volumes (ps_volumes p) ?kvs\<rparr>"
    and c': "c' = c\<lparr>c_mounts := c_mounts c @ new_mounts (c_mounts c) ?kvs\<rparr>"
    and m: "modified = (bm \<noteq> [])"
    using assms(4) ne by (auto simp: add_buckets_eq Let_def no_buckets_new [OF assms(3)])
  have "delete_func is_bucket_volume (ps_volumes p') = ps_volumes p"
    and "delete_func is_bucket_mount (c_mounts c') = c_mounts c"
    using assms(3) new_are_buckets
    by (auto simp: p' c' no_buckets_def delete_func_none delete_func_all)
  moreover have "(\<exists>v \<in> set (ps_volumes p'). is_bucket_volume v) = (bm \<noteq> [])"
    using assms(3) ne by (auto simp: p' no_buckets_new [OF assms(3)] no_buckets_def neq_Nil_conv)
  moreover have "(\<exists>v \<in> set (c_mounts c'). is_bucket_mount v) = (bm \<noteq> [])"
    using assms(3) ne by (auto simp: c' no_buckets_new [OF assms(3)] no_buckets_def neq_Nil_conv)
  ultimately show ?thesis
    using m by (simp add: remove_buckets_from_pod_spec_def) (simp add: p' c')
qed

text \<open>
  Removing the buckets leaves no gcsfuse volume and no gcsfuse mount, touches nothing
  else, and reports a change exactly when it made one.
\<close>

theorem remove_buckets_complete:
  assumes "remove_buckets_from_pod_spec p c = (modified, p', c')"
  shows "no_buckets p' c' \<and>
    ps_volumes p' = filter (\<lambda>v. \<not> is_bucket_volume v) (ps_volumes p) \<and>
    c_mounts c' = filter (\<lambda>m. \<not> is_bucket_mount m) (c_mounts c) \<and>
    (modified \<longleftrightarrow> p' \<noteq> p \<or> c' \<noteq> c)"
proof -
  have p': "p' = p\<lparr>ps_volumes := delete_func is_bucket_volume (ps_volumes p)\<rparr>"
    and c': "c' = c\<lparr>c_mounts := delete_func is_bucket_mount (c_mounts c)\<rparr>"
    and m: "modified \<longleftrightarrow> \<not> no_buckets p c"
    using assms by (auto simp: remove_buckets_from_pod_spec_def no_buckets_def Let_def)
  have "no_buckets p' c'" by (simp add: p' c' no_buckets_def)
  moreover from this m have "modified \<longleftrightarrow> p' \<noteq> p \<or> c' \<noteq> c"
    using remove_no_buckets [of p c] assms by auto
  ultimately show ?thesis by (simp add: p' c' delete_func_def)
qed

text \<open>
  C30: Every volume name fits the limit of 54 bytes and starts with the prefix by which
  buckets are recognised when they are removed.
\<close>

theorem volume_name_bounds:
  "length (max_length_volume_name mp) \<le> 54 \<and> has_prefix (max_length_volume_name mp) ''gcsfuse-''"
proof -
  obtain rest where "max_length_volume_name mp = gcsfuse_prefix @ rest" "length rest \<le> 46"
    by (rule volume_name_shape)
  then show ?thesis using is_bucket_name [of mp] by (simp add: gcsfuse_prefix_def)
qed

text \<open>
  Mount points that fit the limit and whose segments have no double dash and no dash
  at the end get different volume names.
\<close>

theorem volume_name_injective:
  assumes "mount_point_ok a" and "mount_point_ok b"
  shows "max_length_volume_name a = max_length_volume_name b \<longleftrightarrow> a = b"
  using assms by (rule volume_name_inj_ok)

text \<open>
  On a pod without buckets whose volumes have different names, mounting keeps the names
  different exactly when no two mount points of the map share a volume name; two that do
  give a pod with two volumes of one name, which Kubernetes refuses.
\<close>

theorem volume_names_distinct_iff:
  assumes "range_ok ord" and "map_ok bm" and "no_buckets p c" and "distinct (map v_name (ps_volumes p))"
    and "add_buckets_to_pod_spec ord p c bm = (modified, p', c')"
  shows "distinct (map v_name (ps_volumes p')) \<longleftrightarrow> inj_on max_length_volume_name (fst ` set bm)"
proof -
  let ?kvs = "range_over ord bm" and ?n = "max_length_volume_name"
  have vols: "ps_volumes p' = ps_volumes p @ map (\<lambda>(m, b). bucket_volume (?n m) b) ?kvs"
    using assms(5) by (auto simp: add_buckets_eq Let_def no_buckets_new [OF assms(3)])
  have names: "map v_name (map (\<lambda>(m, b). bucket_volume (?n m) b) ?kvs) = map ?n (map fst ?kvs)"
    by (simp add: comp_def case_prod_unfold)
  have "v_name ` set (ps_volumes p) \<inter> set (map ?n (map fst ?kvs)) = {}"
    using assms(3) by (force simp: no_buckets_def is_bucket_volume_def)
  then have "distinct (map v_name (ps_volumes p')) \<longleftrightarrow> distinct (map ?n (map fst ?kvs))"
    unfolding vols map_append names using assms(4) by auto
  also have "\<dots> \<longleftrightarrow> inj_on ?n (fst ` set bm)"
    using assms(1,2) map_ok_range_over [OF assms(1,2)]
    by (auto simp: distinct_map map_ok_def comp_inj_on_iff)
  finally show ?thesis .
qed

section \<open>Witnesses\<close>

definition example_container :: container where
  "example_container = \<lparr>c_name = ''jupyter'', c_image = ''jupyter:1'', c_env = [],
     c_mounts = [\<lparr>vm_name = ''home'', vm_path = ''/home'', vm_sub_path = [], vm_read_only = False, vm_other = []\<rparr>],
     c_other = []\<rparr>"

definition example_pod :: pod_spec where
  "example_pod = \<lparr>ps_volumes = [\<lparr>v_name = ''home'', v_source = OtherSource ''emptyDir''\<rparr>],
     ps_containers = [example_container], ps_service_account = ''app'', ps_restart_policy = [],
     ps_other = []\<rparr>"

definition example_buckets :: entries where
  "example_buckets = [(''kilde'', ''ssb-dapla-data-kilde-test''), (''shared/team/inn'', ''ssb-team-data-delt-inn-test'')]"

definition colliding_buckets :: entries where
  "colliding_buckets = [(''a/b'', ''x''), (''a--b'', ''y'')]"

lemma example_pod_ok [simp]:
  "no_buckets example_pod example_container" "map_ok example_buckets" "map_ok colliding_buckets"
  "distinct (map v_name (ps_volumes example_pod))"
  by (simp_all add: no_buckets_def example_pod_def example_container_def is_bucket_volume_def
      is_bucket_mount_def has_prefix_def gcsfuse_prefix_def map_ok_def example_buckets_def
      colliding_buckets_def)

lemma example_names [simp]:
  "max_length_volume_name ''kilde'' = ''gcsfuse-kilde''"
  "max_length_volume_name ''shared/team/inn'' = ''gcsfuse-shared--team--inn''"
  "max_length_volume_name ''a/b'' = ''gcsfuse-a--b''"
  "max_length_volume_name ''a--b'' = ''gcsfuse-a--b''"
  by (simp_all add: max_length_volume_name_def gcsfuse_prefix_def replace_all_def)

lemma example_inj [simp]:
  "inj_on max_length_volume_name (fst ` set example_buckets)"
  "\<not> inj_on max_length_volume_name (fst ` set colliding_buckets)"
  by (simp_all add: example_buckets_def colliding_buckets_def)

lemma add_buckets_some: "\<exists>m p' c'. add_buckets_to_pod_spec ord p c bm = (m, p', c')"
  by (simp add: add_buckets_eq Let_def)

theorem every_bucket_mounted_once_witness:
  "\<exists>m p' c'. add_buckets_to_pod_spec rev example_pod example_container example_buckets = (m, p', c') \<and>
    filter (volume_name_is ''gcsfuse-shared--team--inn'') (ps_volumes p')
      = [bucket_volume ''gcsfuse-shared--team--inn'' ''ssb-team-data-delt-inn-test''] \<and>
    delete_func is_bucket_volume (ps_volumes p') = ps_volumes example_pod"
proof -
  obtain m p' c' where run: "add_buckets_to_pod_spec rev example_pod example_container example_buckets = (m, p', c')"
    using add_buckets_some by blast
  have "(''shared/team/inn'', ''ssb-team-data-delt-inn-test'') \<in> set example_buckets"
    by (simp add: example_buckets_def)
  from every_bucket_mounted_once [OF range_ok_rev example_pod_ok(2,1) example_inj(1) run this] run
  show ?thesis by auto
qed

theorem add_buckets_idempotent_witness:
  "\<exists>m p' c'. add_buckets_to_pod_spec rev example_pod example_container example_buckets = (m, p', c') \<and>
    add_buckets_to_pod_spec (\<lambda>ks. ks) p' c' example_buckets = (False, p', c')"
  using add_buckets_some [of rev example_pod example_container example_buckets]
    add_buckets_idempotent [OF range_ok_rev range_ok_id example_pod_ok(2)]
  by blast

theorem add_buckets_order_irrelevant_witness:
  "\<exists>m p1 c1 p2 c2. add_buckets_to_pod_spec rev example_pod example_container example_buckets = (m, p1, c1) \<and>
    add_buckets_to_pod_spec (\<lambda>ks. ks) example_pod example_container example_buckets = (m, p2, c2) \<and>
    mset (ps_volumes p1) = mset (ps_volumes p2)"
proof -
  obtain m1 p1 c1 where 1: "add_buckets_to_pod_spec rev example_pod example_container example_buckets = (m1, p1, c1)"
    using add_buckets_some by blast
  obtain m2 p2 c2 where 2: "add_buckets_to_pod_spec (\<lambda>ks. ks) example_pod example_container example_buckets = (m2, p2, c2)"
    using add_buckets_some by blast
  from add_buckets_order_irrelevant [OF range_ok_rev range_ok_id example_pod_ok(2) 1 2] 1 2
  show ?thesis by auto
qed

theorem remove_after_add_restores_witness:
  "\<exists>m p' c'. add_buckets_to_pod_spec rev example_pod example_container example_buckets = (m, p', c') \<and>
    remove_buckets_from_pod_spec p' c' = (True, example_pod, example_container)"
proof -
  obtain m p' c' where run: "add_buckets_to_pod_spec rev example_pod example_container example_buckets = (m, p', c')"
    using add_buckets_some by blast
  from remove_after_add_restores [OF range_ok_rev example_pod_ok(2,1) run] run
  show ?thesis by (auto simp: example_buckets_def)
qed

theorem remove_buckets_complete_witness:
  "no_buckets example_pod example_container \<and>
   remove_buckets_from_pod_spec
     (example_pod\<lparr>ps_volumes := [bucket_volume ''gcsfuse-kilde'' ''x'']\<rparr>) example_container =
     (True, example_pod\<lparr>ps_volumes := []\<rparr>, example_container)"
proof -
  have run: "remove_buckets_from_pod_spec
     (example_pod\<lparr>ps_volumes := [bucket_volume ''gcsfuse-kilde'' ''x'']\<rparr>) example_container =
     (True, example_pod\<lparr>ps_volumes := []\<rparr>, example_container)"
    by (simp add: remove_buckets_from_pod_spec_def is_bucket_volume_def is_bucket_mount_def
        has_prefix_def gcsfuse_prefix_def example_pod_def example_container_def delete_func_def)
  from remove_buckets_complete [OF run] run show ?thesis
    using example_pod_ok(1) by blast
qed

theorem volume_name_injective_witness:
  "max_length_volume_name ''kilde'' \<noteq> max_length_volume_name ''shared/team/inn''"
proof -
  have "mount_point_ok ''kilde'' \<and> mount_point_ok ''shared/team/inn''"
    by (simp add: mount_point_ok_def segment_ok_def replace_all_def has_prefix_def)
  then show ?thesis using volume_name_injective [of "''kilde''" "''shared/team/inn''"] by simp
qed

text \<open>The mount points \<^verbatim>\<open>a/b\<close> and \<^verbatim>\<open>a--b\<close> give two volumes of one name.\<close>

theorem volume_names_distinct_iff_witness:
  "\<exists>m p' c'. add_buckets_to_pod_spec rev example_pod example_container colliding_buckets = (m, p', c') \<and>
    \<not> distinct (map v_name (ps_volumes p'))"
proof -
  obtain m p' c' where run: "add_buckets_to_pod_spec rev example_pod example_container colliding_buckets = (m, p', c')"
    using add_buckets_some by blast
  from volume_names_distinct_iff [OF range_ok_rev example_pod_ok(3,1,4) run] run
  show ?thesis by auto
qed

end
