(* ===== verification/Precreator.thy ===== *)
theory Precreator
  imports Volumes
begin

text \<open>
  \<^verbatim>\<open>internal/controller/precreator.go\<close>: the container that creates the folders of the
  mounted buckets. Its mounts are collected in a map, so there are two loops over maps, in
  the orders \<open>ord1\<close> (the buckets) and \<open>ord2\<close> (the mounts by volume name).
\<close>

definition precreator_mount :: "string \<Rightarrow> string \<Rightarrow> volume_mount" where
  "precreator_mount volumeName bucket =
     \<lparr>vm_name = volumeName, vm_path = ''/buckets/'' @ bucket, vm_sub_path = [], vm_read_only = False,
      vm_other = []\<rparr>"

fun collect_mounts :: "entries \<Rightarrow> (string \<times> volume_mount) list \<Rightarrow> (string \<times> volume_mount) list" where
  "collect_mounts [] volumeMounts = volumeMounts"
| "collect_mounts ((mountPoint, bucket) # kvs) volumeMounts =
     (let volumeName = max_length_volume_name mountPoint
      in collect_mounts kvs (AList.update volumeName (precreator_mount volumeName bucket) volumeMounts))"

definition precreator_mounts ::
  "(string list \<Rightarrow> string list) \<Rightarrow> (string list \<Rightarrow> string list) \<Rightarrow> entries \<Rightarrow> volume_mount list" where
  "precreator_mounts ord1 ord2 bucketMounts =
     map snd (range_over ord2 (collect_mounts (range_over ord1 bucketMounts) []))"

definition is_precreator :: "container \<Rightarrow> bool" where
  "is_precreator c \<longleftrightarrow> c_name c = precreatorContainerName"

definition add_or_update_precreator ::
  "(string list \<Rightarrow> string list) \<Rightarrow> (string list \<Rightarrow> string list) \<Rightarrow> pod_spec \<Rightarrow> entries \<Rightarrow> string
     \<Rightarrow> bool \<times> pod_spec" where
  "add_or_update_precreator ord1 ord2 podspec bucketMounts precreatorImage =
     (let precreator = \<lparr>c_name = precreatorContainerName, c_image = precreatorImage, c_env = [],
            c_mounts = precreator_mounts ord1 ord2 bucketMounts, c_other = []\<rparr>
      in case index_func is_precreator (ps_containers podspec) of
           Some i \<Rightarrow>
             let c = ps_containers podspec ! i
             in if c_image c \<noteq> precreatorImage \<or>
                   \<not> equal_func (\<lambda>a b. vm_name a = vm_name b) (c_mounts precreator) (c_mounts c) then
                  (True, podspec\<lparr>ps_containers := (ps_containers podspec)[i := precreator]\<rparr>)
                else (False, podspec)
         | None \<Rightarrow> (True, podspec\<lparr>ps_containers := ps_containers podspec @ [precreator]\<rparr>))"

text \<open>
  The flag \<^verbatim>\<open>modified\<close> that the predicate sets is not what is returned: the function ends
  with \<^verbatim>\<open>return false\<close>.
\<close>

definition remove_precreator :: "pod_spec \<Rightarrow> bool \<times> pod_spec" where
  "remove_precreator podspec =
     (False, podspec\<lparr>ps_containers := delete_func is_precreator (ps_containers podspec)\<rparr>)"

section \<open>The mounts collected\<close>

definition named_by_key :: "(string \<times> volume_mount) list \<Rightarrow> bool" where
  "named_by_key kvs \<longleftrightarrow> (\<forall>(k, m) \<in> set kvs. vm_name m = k)"

lemma collect_mounts_spec:
  assumes "map_ok acc" and "named_by_key acc"
  shows "map_ok (collect_mounts kvs acc) \<and> named_by_key (collect_mounts kvs acc) \<and>
    fst ` set (collect_mounts kvs acc) = fst ` set acc \<union> max_length_volume_name ` fst ` set kvs"
  using assms
proof (induction kvs acc rule: collect_mounts.induct)
  case (1 acc)
  then show ?case by simp
next
  case (2 mp b kvs acc)
  let ?n = "max_length_volume_name mp"
  have "named_by_key (AList.update ?n (precreator_mount ?n b) acc)"
    using 2(2,3) by (auto simp: named_by_key_def set_update precreator_mount_def)
  moreover have "fst ` set (AList.update ?n (precreator_mount ?n b) acc) = insert ?n (fst ` set acc)"
    by (simp add: dom_update)
  ultimately show ?case
    using 2(1) [OF refl] 2(2) by (simp add: Let_def)
qed

lemma precreator_mount_names:
  assumes "range_ok ord1" and "range_ok ord2" and "map_ok bm"
  shows "map vm_name (precreator_mounts ord1 ord2 bm)
      = ord2 (map fst (collect_mounts (range_over ord1 bm) []))"
    and "distinct (map vm_name (precreator_mounts ord1 ord2 bm))"
    and "set (map vm_name (precreator_mounts ord1 ord2 bm)) = max_length_volume_name ` fst ` set bm"
proof -
  let ?kvs = "collect_mounts (range_over ord1 bm) []"
  have spec: "map_ok ?kvs" "named_by_key ?kvs" "fst ` set ?kvs = max_length_volume_name ` fst ` set bm"
    using collect_mounts_spec [of "[]" "range_over ord1 bm"] assms by (auto simp: named_by_key_def)
  have perm: "mset (ord2 (map fst ?kvs)) = mset (map fst ?kvs)"
    using assms(2) by (simp add: range_ok_def)
  have "vm_name (the (map_of ?kvs k)) = k" if "k \<in> set (ord2 (map fst ?kvs))" for k
  proof -
    have "k \<in> set (map fst ?kvs)" using that perm by (metis set_mset_mset)
    then obtain m where "map_of ?kvs k = Some m" by (auto simp: map_of_eq_None_iff [symmetric] dest: weak_map_of_SomeI)
    moreover from this have "(k, m) \<in> set ?kvs" by (rule map_of_SomeD)
    ultimately show ?thesis using spec(2) by (auto simp: named_by_key_def)
  qed
  then show names: "map vm_name (precreator_mounts ord1 ord2 bm) = ord2 (map fst ?kvs)"
    by (simp add: precreator_mounts_def range_over_def map_idI)
  show "distinct (map vm_name (precreator_mounts ord1 ord2 bm))"
    unfolding names using perm spec(1) by (metis map_ok_def mset_eq_imp_distinct_iff)
  show "set (map vm_name (precreator_mounts ord1 ord2 bm)) = max_length_volume_name ` fst ` set bm"
    unfolding names using perm spec(3) by (metis set_mset_mset set_map)
qed

lemma equal_names_iff:
  "equal_func (\<lambda>a b. vm_name a = vm_name b) ms ms' \<longleftrightarrow> map vm_name ms = map vm_name ms'"
  by (auto simp: equal_func_iff list_all2_map1 list_all2_map2 list.rel_eq [symmetric])

text \<open>The container the pod has afterwards, and the others.\<close>

lemma precreator_after:
  assumes "add_or_update_precreator ord1 ord2 p bm img = (modified, p')"
  obtains i where "index_func is_precreator (ps_containers p') = Some i"
    and "c_image (ps_containers p' ! i) = img"
    and "map vm_name (c_mounts (ps_containers p' ! i)) = map vm_name (precreator_mounts ord1 ord2 bm)"
proof (cases "index_func is_precreator (ps_containers p)")
  case None
  with assms show ?thesis
    by (intro that [of "length (ps_containers p)"])
      (auto simp: add_or_update_precreator_def index_func_append is_precreator_def
        simp del: index_func_None_iff)
next
  case (Some i)
  note found = index_func_SomeD [OF Some]
  show ?thesis
  proof (cases modified)
    case True
    let ?pre = "\<lparr>c_name = precreatorContainerName, c_image = img, c_env = [],
            c_mounts = precreator_mounts ord1 ord2 bm, c_other = []\<rparr>"
    have "p' = p\<lparr>ps_containers := (ps_containers p)[i := ?pre]\<rparr>"
      using assms Some True by (auto simp: add_or_update_precreator_def Let_def split: if_splits)
    moreover have "index_func is_precreator ((ps_containers p)[i := ?pre]) = Some i"
      using Some by (rule index_func_update) (simp add: is_precreator_def)
    ultimately show ?thesis using found(1) by (intro that [of i]) simp_all
  next
    case False
    with assms Some show ?thesis
      by (intro that [of i])
        (auto simp: add_or_update_precreator_def equal_names_iff Let_def split: if_splits)
  qed
qed

lemma precreator_others:
  assumes "add_or_update_precreator ord1 ord2 p bm img = (modified, p')"
  shows "delete_func is_precreator (ps_containers p') = delete_func is_precreator (ps_containers p)"
proof (cases "index_func is_precreator (ps_containers p)")
  case None
  with assms show ?thesis
    by (auto simp: add_or_update_precreator_def delete_func_def is_precreator_def)
next
  case (Some i)
  note found = index_func_SomeD [OF Some]
  have "delete_func is_precreator ((ps_containers p)[i := c]) = delete_func is_precreator (ps_containers p)"
    if "is_precreator c" for c
  proof -
    have "ps_containers p = take i (ps_containers p) @ ps_containers p ! i # drop (Suc i) (ps_containers p)"
      using found(1) by (rule id_take_nth_drop)
    then have "delete_func is_precreator (ps_containers p)
        = delete_func is_precreator (take i (ps_containers p)) @ delete_func is_precreator (drop (Suc i) (ps_containers p))"
      using found(2) by (metis delete_func_append delete_func_def filter.simps(2))
    then show ?thesis
      using that found(1) by (simp add: upd_conv_take_nth_drop delete_func_def)
  qed
  with assms Some show ?thesis
    by (auto simp: add_or_update_precreator_def is_precreator_def Let_def split: if_splits)
qed

lemma precreator_keeps [simp]:
  "ps_volumes (snd (add_or_update_precreator ord1 ord2 p bm img)) = ps_volumes p"
  "ps_volumes (snd (remove_precreator p)) = ps_volumes p"
  by (auto simp: add_or_update_precreator_def remove_precreator_def Let_def split: option.split)

lemma find_other_container:
  assumes "name \<noteq> precreatorContainerName"
  shows "find (\<lambda>c. c_name c = name) (ps_containers (snd (add_or_update_precreator ord1 ord2 p bm img)))
      = find (\<lambda>c. c_name c = name) (ps_containers p)"
    and "find (\<lambda>c. c_name c = name) (ps_containers (snd (remove_precreator p)))
      = find (\<lambda>c. c_name c = name) (ps_containers p)"
proof -
  have skip: "find (\<lambda>c. c_name c = name) (delete_func is_precreator cs) = find (\<lambda>c. c_name c = name) cs" for cs
    using assms by (intro find_delete_func) (auto simp: is_precreator_def)
  show "find (\<lambda>c. c_name c = name) (ps_containers (snd (remove_precreator p)))
      = find (\<lambda>c. c_name c = name) (ps_containers p)"
    by (simp add: remove_precreator_def skip)
  show "find (\<lambda>c. c_name c = name) (ps_containers (snd (add_or_update_precreator ord1 ord2 p bm img)))
      = find (\<lambda>c. c_name c = name) (ps_containers p)"
    using precreator_others [of ord1 ord2 p bm img] skip by (metis prod.collapse)
qed

text \<open>A second run leaves the pod alone exactly when it meets the names in the same order.\<close>

lemma precreator_second_run:
  assumes "add_or_update_precreator ord1 ord2 p bm img = (modified, p')"
  shows "fst (add_or_update_precreator ord1' ord2' p' bm img) \<longleftrightarrow>
    map vm_name (precreator_mounts ord1' ord2' bm) \<noteq> map vm_name (precreator_mounts ord1 ord2 bm)"
proof -
  obtain i where "index_func is_precreator (ps_containers p') = Some i"
    and "c_image (ps_containers p' ! i) = img"
    and "map vm_name (c_mounts (ps_containers p' ! i)) = map vm_name (precreator_mounts ord1 ord2 bm)"
    using assms by (rule precreator_after)
  then show ?thesis
    by (simp add: add_or_update_precreator_def equal_names_iff Let_def)
qed

section \<open>Properties\<close>

text \<open>
  After the call the pod has a precreator with the configured image whose mounts are
  named after exactly the buckets' volumes, each once; the other containers, and whatever
  else the pod holds, are as they were. A pod reported as unmodified is unmodified.
\<close>

theorem precreator_ensured:
  assumes "range_ok ord1" and "range_ok ord2" and "map_ok bm"
    and "add_or_update_precreator ord1 ord2 p bm img = (modified, p')"
  shows "(\<exists>c \<in> set (ps_containers p'). is_precreator c \<and> c_image c = img \<and>
      distinct (map vm_name (c_mounts c)) \<and>
      set (map vm_name (c_mounts c)) = max_length_volume_name ` fst ` set bm) \<and>
    delete_func is_precreator (ps_containers p') = delete_func is_precreator (ps_containers p) \<and>
    p' = p\<lparr>ps_containers := ps_containers p'\<rparr> \<and> (\<not> modified \<longrightarrow> p' = p)"
proof -
  obtain i where i: "index_func is_precreator (ps_containers p') = Some i"
    "c_image (ps_containers p' ! i) = img"
    "map vm_name (c_mounts (ps_containers p' ! i)) = map vm_name (precreator_mounts ord1 ord2 bm)"
    using assms(4) by (rule precreator_after)
  let ?c = "ps_containers p' ! i"
  have "?c \<in> set (ps_containers p')" "is_precreator ?c"
    using index_func_SomeD(1,2) [OF i(1)] by auto
  moreover have "distinct (map vm_name (c_mounts ?c))"
      "set (map vm_name (c_mounts ?c)) = max_length_volume_name ` fst ` set bm"
    unfolding i(3) using precreator_mount_names [OF assms(1-3)] by auto
  moreover have "p' = p\<lparr>ps_containers := ps_containers p'\<rparr>" "\<not> modified \<longrightarrow> p' = p"
    using assms(4) by (auto simp: add_or_update_precreator_def Let_def split: option.splits if_splits)
  ultimately show ?thesis using i(2) precreator_others [OF assms(4)] by blast
qed

text \<open>
  The mounts are compared in an order that comes from ranging over a map: as soon as
  there are two volumes, a second run with nothing changed may meet them in another order,
  and then it replaces the container and changes the pod.
\<close>

theorem precreator_rewritten_by_map_order:
  assumes "range_ok ord1" and "range_ok ord2" and "map_ok bm"
    and "{mp1, mp2} \<subseteq> fst ` set bm" and "max_length_volume_name mp1 \<noteq> max_length_volume_name mp2"
    and "add_or_update_precreator ord1 ord2 p bm img = (modified, p')"
  shows "\<exists>ord2'. range_ok ord2' \<and> (\<exists>p''. add_or_update_precreator ord1 ord2' p' bm img = (True, p'') \<and> p'' \<noteq> p')"
proof -
  let ?ord = "\<lambda>ks. rev (ord2 ks)" and ?ns = "map vm_name (precreator_mounts ord1 ord2 bm)"
  have ok: "range_ok ?ord" using assms(2) by (simp add: range_ok_def)
  have names: "map vm_name (precreator_mounts ord1 ?ord bm) = rev ?ns"
    using precreator_mount_names(1) [OF assms(1) _ assms(3)] ok assms(2) by simp
  have "rev ?ns \<noteq> ?ns"
  proof
    assume "rev ?ns = ?ns"
    moreover have two: "{max_length_volume_name mp1, max_length_volume_name mp2} \<subseteq> set ?ns"
      using precreator_mount_names(3) [OF assms(1-3)] assms(4) by auto
    then obtain x y zs where ns: "?ns = x # y # zs"
      using assms(5) by (cases ?ns; cases "tl ?ns") auto
    ultimately have "last (y # zs) = x" by (metis hd_rev last_ConsR list.distinct(1) list.sel(1))
    moreover have "x \<notin> set (y # zs)"
      using precreator_mount_names(2) [OF assms(1-3)] unfolding ns by simp
    ultimately show False by (metis last_in_set list.distinct(1))
  qed
  with precreator_second_run [OF assms(6), of ord1 ?ord] names
  have run: "fst (add_or_update_precreator ord1 ?ord p' bm img)" by simp
  obtain p'' where p'': "add_or_update_precreator ord1 ?ord p' bm img = (True, p'')"
    using run by (metis prod.collapse)
  have "p'' \<noteq> p'"
  proof
    assume "p'' = p'"
    obtain i j where "index_func is_precreator (ps_containers p') = Some i"
      "map vm_name (c_mounts (ps_containers p' ! i)) = ?ns"
      "index_func is_precreator (ps_containers p'') = Some j"
      "map vm_name (c_mounts (ps_containers p'' ! j)) = rev ?ns"
      using precreator_after [OF assms(6)] precreator_after [OF p''] names by metis
    with \<open>p'' = p'\<close> \<open>rev ?ns \<noteq> ?ns\<close> show False by simp
  qed
  with ok p'' show ?thesis by blast
qed

text \<open>
  Removing the precreator undoes adding it to a pod that had none; it says that it
  modified nothing, although it removed the container.
\<close>

theorem precreator_removed:
  assumes "\<forall>c \<in> set (ps_containers p). \<not> is_precreator c"
    and "add_or_update_precreator ord1 ord2 p bm img = (modified, p')"
  shows "modified \<and> remove_precreator p' = (False, p) \<and> p' \<noteq> p"
proof -
  have none: "index_func is_precreator (ps_containers p) = None"
    using assms(1) by simp
  with assms(2) have "modified"
    by (auto simp: add_or_update_precreator_def Let_def simp del: index_func_None_iff)
  moreover have "delete_func is_precreator (ps_containers p') = ps_containers p"
    using precreator_others [OF assms(2)] assms(1) by (simp add: delete_func_none)
  moreover obtain c where p': "p' = p\<lparr>ps_containers := ps_containers p @ [c]\<rparr>"
    using assms(2) none
    by (auto simp: add_or_update_precreator_def Let_def simp del: index_func_None_iff)
  moreover have "p' \<noteq> p"
  proof
    assume "p' = p"
    then have "ps_containers p' = ps_containers p" by simp
    with p' show False by simp
  qed
  ultimately show ?thesis by (simp add: remove_precreator_def)
qed

section \<open>Witnesses\<close>

lemma add_precreator_some: "\<exists>m p'. add_or_update_precreator ord1 ord2 p bm img = (m, p')"
  by (metis prod.exhaust)

theorem precreator_ensured_witness:
  "\<exists>m p' c. add_or_update_precreator rev rev example_pod example_buckets ''precreator:1'' = (m, p') \<and>
    c \<in> set (ps_containers p') \<and> is_precreator c \<and>
    set (map vm_name (c_mounts c)) = {''gcsfuse-kilde'', ''gcsfuse-shared--team--inn''}"
proof -
  obtain m p' where run: "add_or_update_precreator rev rev example_pod example_buckets ''precreator:1'' = (m, p')"
    using add_precreator_some by blast
  have names: "max_length_volume_name ` fst ` set example_buckets = {''gcsfuse-kilde'', ''gcsfuse-shared--team--inn''}"
    by (simp add: example_buckets_def)
  obtain c where "c \<in> set (ps_containers p')" "is_precreator c"
    "set (map vm_name (c_mounts c)) = max_length_volume_name ` fst ` set example_buckets"
    using precreator_ensured [OF range_ok_rev range_ok_rev example_pod_ok(2) run] by blast
  with run names show ?thesis by metis
qed

theorem precreator_rewritten_by_map_order_witness:
  "\<exists>m p' ord p''. add_or_update_precreator rev rev example_pod example_buckets ''precreator:1'' = (m, p') \<and>
    range_ok ord \<and> add_or_update_precreator rev ord p' example_buckets ''precreator:1'' = (True, p'') \<and> p'' \<noteq> p'"
proof -
  obtain m p' where run: "add_or_update_precreator rev rev example_pod example_buckets ''precreator:1'' = (m, p')"
    using add_precreator_some by blast
  have "{''kilde'', ''shared/team/inn''} \<subseteq> fst ` set example_buckets"
      "max_length_volume_name ''kilde'' \<noteq> max_length_volume_name ''shared/team/inn''"
    by (simp_all add: example_buckets_def)
  from precreator_rewritten_by_map_order [OF range_ok_rev range_ok_rev example_pod_ok(2) this run] run
  show ?thesis by blast
qed

theorem precreator_removed_witness:
  "\<exists>p'. add_or_update_precreator rev rev example_pod example_buckets ''precreator:1'' = (True, p') \<and>
    remove_precreator p' = (False, example_pod)"
proof -
  obtain m p' where run: "add_or_update_precreator rev rev example_pod example_buckets ''precreator:1'' = (m, p')"
    using add_precreator_some by blast
  have "\<forall>c \<in> set (ps_containers example_pod). \<not> is_precreator c"
    by (simp add: example_pod_def example_container_def is_precreator_def precreatorContainerName_def)
  from precreator_removed [OF this run] run show ?thesis by auto
qed

end
