(* ===== verification/Statefulset_Webhook.thy ===== *)
theory Statefulset_Webhook
  imports World Common Precreator
begin

text \<open>
  \<^verbatim>\<open>internal/controller/statefulset_webhook.go\<close>: the mutating webhook of StatefulSets. It
  annotates the service account, labels the pod, mounts the buckets (or unmounts them once
  access has expired) and launches the IAM probe. Decoding and encoding JSON are the
  parameters \<open>json_codec\<close>; the cluster and Google are the parameters of the world.
\<close>

record shared_bucket_spec =
  sb_team :: string
  sb_short_name :: string

record sfs_mutator =
  mu_teams_folder :: string
  mu_stage :: string
  mu_iam_probe_image :: string
  mu_precreator_image :: "string option"
  mu_adc_env :: string
  mu_project_env :: string
  mu_configs :: "access_group_config list"
  mu_shared_template :: "shared_bucket_template_data anonymous_template"

record json_codec =
  js_decode :: "string \<Rightarrow> string + statefulset"
  js_specs :: "string \<Rightarrow> string + shared_bucket_spec list"
  js_marshal :: "statefulset \<Rightarrow> string option"

record admission_request =
  rq_namespace :: string
  rq_raw :: string

datatype handle_error = DecodeFailed string | ServiceContainerNotFound string | MarshalFailed string

text \<open>\<open>Patched\<close> is the patch from the request's object to the one given.\<close>

datatype response = Allowed string | Denied string | Errored nat handle_error | Patched statefulset

section \<open>The pod's own annotations and labels\<close>

definition put :: "string \<Rightarrow> string \<Rightarrow> gomap \<Rightarrow> gomap" where
  "put k v m = Some (AList.update k v (case m of None \<Rightarrow> [] | Some kvs \<Rightarrow> kvs))"

definition ensure_pod_annotations :: "pod_template \<Rightarrow> pod_template" where
  "ensure_pod_annotations t =
     (let anns = put ''gke-gcsfuse/volumes'' ''true'' (om_annotations (pt_meta t));
          anns' =
            (case map_get anns istioExcludedIpRangesAnnotation of
               None \<Rightarrow> put istioExcludedIpRangesAnnotation gcsfuseOutboundIPRange anns
             | Some excluded \<Rightarrow>
                 let ranges = split_on CHR '','' excluded
                 in if \<not> contains_func (\<lambda>r. r = gcsfuseOutboundIPRange) ranges then
                      put istioExcludedIpRangesAnnotation
                        (join '','' (ranges @ [gcsfuseOutboundIPRange])) anns
                    else anns)
      in t\<lparr>pt_meta := (pt_meta t)\<lparr>om_annotations := anns'\<rparr>\<rparr>)"

definition label_pod :: "string \<Rightarrow> string \<Rightarrow> pod_template \<Rightarrow> pod_template" where
  "label_pod team grp t =
     t\<lparr>pt_meta := (pt_meta t)\<lparr>om_labels :=
         put daplaGroupLabel grp (put daplaTeamLabel team (om_labels (pt_meta t)))\<rparr>\<rparr>"

definition get_service_container :: "pod_template \<Rightarrow> string \<Rightarrow> nat option" where
  "get_service_container t name = index_func (\<lambda>c. c_name c = name) (ps_containers (pt_spec t))"

text \<open>A write through the pointer to the service container.\<close>

definition on_container :: "nat \<Rightarrow> (container \<Rightarrow> container) \<Rightarrow> statefulset \<Rightarrow> statefulset" where
  "on_container i f sfs = set_sfs_pod (modify_container i f (sfs_pod sfs)) sfs"

definition set_adc_env :: "sfs_mutator \<Rightarrow> string \<Rightarrow> container \<Rightarrow> container" where
  "set_adc_env m grp c =
     (if mu_adc_env m \<noteq> [] \<and> \<not> contains_func (\<lambda>e. ev_name e = mu_adc_env m) (c_env c) then
        c\<lparr>c_env := c_env c @ [\<lparr>ev_name = mu_adc_env m, ev_value = grp, ev_other = []\<rparr>]\<rparr>
      else c)"

definition set_project_env :: "sfs_mutator \<Rightarrow> project option \<Rightarrow> container \<Rightarrow> container" where
  "set_project_env m prj c =
     (if mu_project_env m = [] then c
      else
        let prjId = (case prj of None \<Rightarrow> ''-1'' | Some p \<Rightarrow> prj_id p)
        in case index_func (\<lambda>e. ev_name e = mu_project_env m) (c_env c) of
             None \<Rightarrow> c\<lparr>c_env := c_env c @ [\<lparr>ev_name = mu_project_env m, ev_value = prjId, ev_other = []\<rparr>]\<rparr>
           | Some k \<Rightarrow> c\<lparr>c_env := (c_env c)[k := (c_env c ! k)\<lparr>ev_value := prjId\<rparr>]\<rparr>)"

section \<open>The service account\<close>

fun merge_annotations :: "entries \<Rightarrow> entries \<times> bool \<Rightarrow> entries \<times> bool" where
  "merge_annotations [] acc = acc"
| "merge_annotations ((key, val) # kvs) (anns, modified) =
     merge_annotations kvs
       (if map_index (Some anns) key \<noteq> val then (AList.update key val anns, True) else (anns, modified))"

definition handle_service_account ::
  "world \<Rightarrow> (string list \<Rightarrow> string list) \<Rightarrow> string \<Rightarrow> string \<Rightarrow> entries \<Rightarrow> history
     \<Rightarrow> api_error option \<times> history" where
  "handle_service_account w ord namespace name saAnnotations h0 =
     (case call_get_sa w \<lparr>nn_namespace = namespace, nn_name = name\<rparr> h0 of
        (Inl e, h1) \<Rightarrow> (Some e, h1)
      | (Inr sa, h1) \<Rightarrow>
          (case sa_annotations sa of
             None \<Rightarrow>
               (case call_update_sa w (set_sa_annotations (Some saAnnotations) sa) h1 of
                  (Inl e, h2) \<Rightarrow> (Some e, h2) | (Inr _, h2) \<Rightarrow> (None, h2))
           | Some anns \<Rightarrow>
               let (anns', modified) = merge_annotations (range_over ord saAnnotations) (anns, False)
               in if modified then
                    (case call_update_sa w (set_sa_annotations (Some anns') sa) h1 of
                       (Inl e, h2) \<Rightarrow> (Some e, h2) | (Inr _, h2) \<Rightarrow> (None, h2))
                  else (None, h1)))"

definition wanted_sa_annotations :: "access_group_config \<Rightarrow> statefulset \<Rightarrow> string \<Rightarrow> entries" where
  "wanted_sa_annotations c sfs grp =
     [(impersonateGroupAnnotation, grp),
      (accessReasonAnnotation, map_index (sfs_annotations sfs) accessReasonAnnotation)] @
     (if gc_reason_required c then
        [(requestedServiceDurationAnnotation,
          map_index (sfs_annotations sfs) requestedServiceDurationAnnotation)]
      else [])"

section \<open>The team's Google project\<close>

fun get_folder_with_display_name :: "folder listing \<Rightarrow> string \<Rightarrow> iter_error + folder" where
  "get_folder_with_display_name ([], e) displayName = Inl e"
| "get_folder_with_display_name (folder # it, e) displayName =
     (if f_display_name folder = displayName then Inr folder
      else get_folder_with_display_name (it, e) displayName)"

datatype project_error =
    NoFolder string iter_error | ProjectTemplateFailed template_error | NoProject string string iter_error

text \<open>
  On an error of the project template the message asks for the name of the template; a nil
  template has none, and \<^verbatim>\<open>Name\<close> reads through the nil pointer.
\<close>

definition get_standard_project ::
  "sfs_mutator \<Rightarrow> world \<Rightarrow> string \<Rightarrow> access_group_config \<Rightarrow> history
     \<Rightarrow> (project_error + project) outcome \<times> history" where
  "get_standard_project m w team gc h0 =
     (let (teamFolderIt, h1) = call_list_folders w (''folders/'' @ mu_teams_folder m) h0
      in case get_folder_with_display_name teamFolderIt team of
           Inl e \<Rightarrow> (Returns (Inl (NoFolder team e)), h1)
         | Inr folder \<Rightarrow>
             (case execute (gc_project_template gc) \<lparr>pd_team = team, pd_stage = mu_stage m\<rparr> of
                Inl e \<Rightarrow>
                  (if gc_project_template gc = None then Panics NilDeref
                   else Returns (Inl (ProjectTemplateFailed e)), h1)
              | Inr projectName \<Rightarrow>
                  let (projectIt, h2) =
                        call_search_projects w
                          (''parent='' @ f_name folder @ '' AND state=ACTIVE AND displayName='' @ projectName) h1
                  in case next_item projectIt of
                       (Inl e, _) \<Rightarrow> (Returns (Inl (NoProject team (f_name folder) e)), h2)
                     | (Inr project, _) \<Rightarrow> (Returns (Inr project), h2)))"

section \<open>The buckets to mount\<close>

fun put_all :: "string list \<Rightarrow> entries \<Rightarrow> entries" where
  "put_all [] bucketMounts = bucketMounts"
| "put_all (bucket # bs) bucketMounts = put_all bs (AList.update bucket bucket bucketMounts)"

definition get_extra_bucket_mounts :: "gomap \<Rightarrow> entries" where
  "get_extra_bucket_mounts annotations =
     put_all (case map_get annotations mountBucketsAnnotation of
                None \<Rightarrow> [] | Some buckets \<Rightarrow> split_on CHR '','' buckets) []"

fun standard_loop :: "string \<Rightarrow> string \<Rightarrow> string listing \<Rightarrow> entries \<Rightarrow> entries \<times> string option" where
  "standard_loop bucketPrefix stage ([], e) bucketMounts =
     (bucketMounts, case e of IterDone \<Rightarrow> None | IterError msg \<Rightarrow> Some msg)"
| "standard_loop bucketPrefix stage (bucket # it, e) bucketMounts =
     (let withoutPrefix = trim_suffix (trim_prefix bucket bucketPrefix) (''-'' @ stage)
      in if has_prefix withoutPrefix ''delt-delomat-'' then
           standard_loop bucketPrefix stage (it, e) bucketMounts
         else standard_loop bucketPrefix stage (it, e) (AList.update withoutPrefix bucket bucketMounts))"

definition add_standard_buckets ::
  "sfs_mutator \<Rightarrow> world \<Rightarrow> string \<Rightarrow> string \<Rightarrow> entries \<Rightarrow> history
     \<Rightarrow> (entries \<times> string option) \<times> history" where
  "add_standard_buckets m w team projectId bucketMounts h0 =
     (let bucketPrefix = ''ssb-'' @ team @ ''-data-'';
          (bucketIt, h1) = call_list_buckets w projectId bucketPrefix h0
      in (standard_loop bucketPrefix (mu_stage m) bucketIt bucketMounts, h1))"

datatype shared_error = SpecsMalformed string | SharedTemplateFailed template_error

fun shared_loop ::
  "sfs_mutator \<Rightarrow> shared_bucket_spec list \<Rightarrow> entries \<Rightarrow> entries \<times> shared_error option" where
  "shared_loop m [] bucketMounts = (bucketMounts, None)"
| "shared_loop m (spec # specs) bucketMounts =
     (let team = trim_space (sb_team spec); shortName = trim_space (sb_short_name spec)
      in if team = [] \<or> shortName = [] then shared_loop m specs bucketMounts
         else
           let mountPoint = ''shared/'' @ team @ ''/'' @ shortName
           in case execute (mu_shared_template m)
                     \<lparr>sd_team = team, sd_short_name = shortName, sd_stage = mu_stage m\<rparr> of
                Inl e \<Rightarrow> (bucketMounts, Some (SharedTemplateFailed e))
              | Inr bucket \<Rightarrow> shared_loop m specs (AList.update mountPoint bucket bucketMounts))"

definition add_shared_buckets ::
  "sfs_mutator \<Rightarrow> json_codec \<Rightarrow> string \<Rightarrow> entries \<Rightarrow> entries \<times> shared_error option" where
  "add_shared_buckets m js sharedBuckets bucketMounts =
     (case js_specs js sharedBuckets of
        Inl e \<Rightarrow> (bucketMounts, Some (SpecsMalformed e))
      | Inr specs \<Rightarrow> shared_loop m specs bucketMounts)"

section \<open>The IAM probe\<close>

definition probe_job :: "world \<Rightarrow> sfs_mutator \<Rightarrow> statefulset \<Rightarrow> job" where
  "probe_job w m sfs =
     \<lparr>job_meta = empty_meta\<lparr>
        om_name := om_name (sfs_meta sfs) @ ''-iam-probe'',
        om_namespace := om_namespace (sfs_meta sfs),
        om_annotations := Some [(probeJobStatefulsetAnnotation, om_name (sfs_meta sfs))],
        om_finalizers := fst (w_add_finalizer w [] finalizerName)\<rparr>,
      job_deadline_seconds = Some 300,
      job_ttl_seconds = Some 0,
      job_template = \<lparr>
        pt_meta = empty_meta\<lparr>om_annotations :=
          Some [(istioExcludedIpRangesAnnotation, gcsfuseOutboundIPRange)]\<rparr>,
        pt_spec = \<lparr>ps_volumes = [],
          ps_containers = [\<lparr>c_name = ''iam-probe'', c_image = mu_iam_probe_image m, c_env = [],
            c_mounts = [], c_other = []\<rparr>],
          ps_service_account = ps_service_account (sfs_pod sfs),
          ps_restart_policy = ''Never'', ps_other = []\<rparr>\<rparr>,
      job_completion = None,
      job_other = []\<rparr>"

definition launch_iam_probe ::
  "sfs_mutator \<Rightarrow> world \<Rightarrow> statefulset \<Rightarrow> history
     \<Rightarrow> (statefulset \<times> api_error option) outcome \<times> history" where
  "launch_iam_probe m w sfs h0 =
     (case sfs_replicas sfs of
        None \<Rightarrow> (Panics NilDeref, h0)
      | Some replicas \<Rightarrow>
          (case map_put iamProbeStatus (iamProbeRunningPrefix @ show_int32 replicas) (sfs_annotations sfs) of
             Panics k \<Rightarrow> (Panics k, h0)
           | Returns anns \<Rightarrow>
               let sfs' = (set_sfs_annotations anns sfs)\<lparr>sfs_replicas := Some 0\<rparr>;
                   (err, h1) = call_create_job w (probe_job w m sfs') h0
               in (Returns (sfs', err), h1)))"

section \<open>Handle\<close>

text \<open>
  Whether the requested duration has run out: \<open>None\<close> when it does not parse. A
  configuration that requires no reason knows no expiry.
\<close>

definition access_expired :: "access_group_config \<Rightarrow> statefulset \<Rightarrow> gotime \<Rightarrow> bool option" where
  "access_expired c sfs now =
     (if gc_reason_required c then
        map_option (\<lambda>d. now > om_creation (sfs_meta sfs) + d)
          (parse_duration (map_index (sfs_annotations sfs) requestedServiceDurationAnnotation))
      else Some False)"

definition unmount_buckets :: "nat \<Rightarrow> statefulset \<Rightarrow> statefulset" where
  "unmount_buckets i sfs =
     (let (_, pod, c) = remove_buckets_from_pod_spec (sfs_pod sfs) (ps_containers (sfs_pod sfs) ! i);
          pod' = modify_container i (\<lambda>_. c) pod
      in set_sfs_pod (snd (remove_precreator pod')) sfs)"

definition bucket_mounts_of ::
  "sfs_mutator \<Rightarrow> json_codec \<Rightarrow> world \<Rightarrow> string \<Rightarrow> project option \<Rightarrow> gomap \<Rightarrow> history \<Rightarrow> entries \<times> history" where
  "bucket_mounts_of m js w team prj anns h0 =
     (let extra = get_extra_bucket_mounts anns;
          shared = (case map_get anns mountSharedBucketsAnnotation of
                      Some specs \<Rightarrow> fst (add_shared_buckets m js specs extra) | None \<Rightarrow> extra)
      in case (if map_index anns mountStandardBucketsAnnotation = ''true'' then prj else None) of
           Some p \<Rightarrow>
             (let (res, h1) = add_standard_buckets m w team (prj_id p) shared h0 in (fst res, h1))
         | None \<Rightarrow> (shared, h0))"

definition mount_buckets ::
  "sfs_mutator \<Rightarrow> (nat \<Rightarrow> string list \<Rightarrow> string list) \<Rightarrow> entries \<Rightarrow> nat \<Rightarrow> statefulset \<Rightarrow> statefulset" where
  "mount_buckets m ord bucketMounts i sfs =
     (let (_, pod, c) = add_buckets_to_pod_spec (ord 1) (sfs_pod sfs)
            (ps_containers (sfs_pod sfs) ! i) bucketMounts;
          pod' = modify_container i (\<lambda>_. c) pod;
          pod'' = (case mu_precreator_image m of
                     Some img \<Rightarrow> snd (add_or_update_precreator (ord 2) (ord 3) pod' bucketMounts img)
                   | None \<Rightarrow> snd (remove_precreator pod'))
      in set_sfs_pod pod'' sfs)"

definition finish ::
  "sfs_mutator \<Rightarrow> json_codec \<Rightarrow> world \<Rightarrow> statefulset \<Rightarrow> history \<Rightarrow> response outcome \<times> history" where
  "finish m js w sfs h0 =
     (let probed =
            (if mu_iam_probe_image m \<noteq> [] \<and> map_index (sfs_annotations sfs) iamProbeStatus \<noteq> iamProbeDone
             then case launch_iam_probe m w sfs h0 of
                    (Panics k, h1) \<Rightarrow> (Panics k, h1)
                  | (Returns (sfs', err), h1) \<Rightarrow> (Returns sfs', h1)
             else (Returns sfs, h0))
      in case probed of
           (Panics k, h1) \<Rightarrow> (Panics k, h1)
         | (Returns sfs', h1) \<Rightarrow>
             (case js_marshal js sfs' of
                Some e \<Rightarrow> (Returns (Errored 500 (MarshalFailed e)), h1)
              | None \<Rightarrow> (Returns (Patched sfs'), h1)))"

text \<open>The part of the handler that follows the service account.\<close>

definition mutate ::
  "sfs_mutator \<Rightarrow> json_codec \<Rightarrow> world \<Rightarrow> (nat \<Rightarrow> string list \<Rightarrow> string list) \<Rightarrow> access_group_config
     \<Rightarrow> string \<Rightarrow> nat \<Rightarrow> statefulset \<Rightarrow> history \<Rightarrow> response outcome \<times> history" where
  "mutate m js w ord c grp i sfs0 h1 =
     (let team = to_team c grp;
          sfs1 = sfs0\<lparr>sfs_template := label_pod team grp (sfs_template sfs0)\<rparr>;
          sfs2 = on_container i (set_adc_env m grp) sfs1
      in case get_standard_project m w team c h1 of
           (Panics k, h2) \<Rightarrow> (Panics k, h2)
         | (Returns found, h2) \<Rightarrow>
             let prj = (case found of Inl _ \<Rightarrow> None | Inr p \<Rightarrow> Some p);
                 sfs3 = on_container i (set_project_env m prj) sfs2
             in case access_expired c sfs3 (w_now w h2) of
                  None \<Rightarrow> (Returns (Denied ''invalid requested duration format''), h2)
                | Some True \<Rightarrow> finish m js w (unmount_buckets i sfs3) h2
                | Some False \<Rightarrow>
                    let (bucketMounts, h3) = bucket_mounts_of m js w team prj (sfs_annotations sfs3) h2
                    in finish m js w (mount_buckets m ord bucketMounts i sfs3) h3)"

definition handle ::
  "sfs_mutator \<Rightarrow> json_codec \<Rightarrow> world \<Rightarrow> admission_request \<Rightarrow> history \<Rightarrow> response outcome \<times> history" where
  "handle m js w req h0 =
     (case js_decode js (rq_raw req) of
        Inl e \<Rightarrow> (Returns (Errored 400 (DecodeFailed e)), h0)
      | Inr sfs \<Rightarrow>
          if \<not> time_ptr_is_zero (om_deletion (sfs_meta sfs)) then
            (Returns (Allowed ''statefulset is being deleted''), h0)
          else
            (case map_get (sfs_annotations sfs) impersonateGroupAnnotation of
               None \<Rightarrow> (Returns (Allowed ''skipping ssbucketeer mutation''), h0)
             | Some grp \<Rightarrow>
                 let sfs0 = sfs\<lparr>sfs_template := ensure_pod_annotations (sfs_template sfs)\<rparr>;
                     name = map_index (sfs_annotations sfs) serviceContainerAnnotation
                 in case get_service_container (sfs_template sfs0) name of
                      None \<Rightarrow> (Returns (Errored 400 (ServiceContainerNotFound name)), h0)
                    | Some i \<Rightarrow>
                        (case get_config (mu_configs m) grp of
                           None \<Rightarrow> (Returns (Denied (''no configuration found for group: '' @ grp)), h0)
                         | Some c \<Rightarrow>
                             (case handle_service_account w (w_range w h0 0) (rq_namespace req)
                                     (ps_service_account (sfs_pod sfs0)) (wanted_sa_annotations c sfs0 grp) h0 of
                                (Some e, h1) \<Rightarrow> (Returns (Denied ''error handling service account''), h1)
                              | (None, h1) \<Rightarrow> mutate m js w (w_range w h0) c grp i sfs0 h1))))"

lemmas sfs_handlers [handler_defs] =
  handle_def mutate_def finish_def mount_buckets_def unmount_buckets_def bucket_mounts_of_def

section \<open>Annotations\<close>

lemma map_get_put_gomap [simp]: "map_get (put k v m) k' = (if k' = k then Some v else map_get m k')"
  by (auto simp: put_def update_conv' split: option.split)

lemma put_not_None [simp]: "put k v m \<noteq> None"
  by (simp add: put_def)

lemma put_same: "map_get m k = Some v \<Longrightarrow> put k v m = m"
  by (auto simp: put_def update_triv map_get_def split: option.splits)

lemma gcsfuse_range_no_comma [simp]: "CHR '','' \<notin> set gcsfuseOutboundIPRange"
  by (simp add: gcsfuseOutboundIPRange_def)

abbreviation pod_annotations :: "pod_template \<Rightarrow> gomap" where
  "pod_annotations t \<equiv> om_annotations (pt_meta t)"

lemma volumes_key_differs [simp]:
  "istioExcludedIpRangesAnnotation \<noteq> ''gke-gcsfuse/volumes''"
  "''gke-gcsfuse/volumes'' \<noteq> istioExcludedIpRangesAnnotation"
  by (simp_all add: istioExcludedIpRangesAnnotation_def)

lemma ensure_pod_annotations_get:
  "map_get (pod_annotations (ensure_pod_annotations t)) k =
     (if k = istioExcludedIpRangesAnnotation then
        Some (case map_get (pod_annotations t) istioExcludedIpRangesAnnotation of
                None \<Rightarrow> gcsfuseOutboundIPRange
              | Some ex \<Rightarrow>
                  if gcsfuseOutboundIPRange \<in> set (split_on CHR '','' ex) then ex
                  else ex @ '','' @ gcsfuseOutboundIPRange)
      else if k = ''gke-gcsfuse/volumes'' then Some ''true''
      else map_get (pod_annotations t) k)"
  by (auto simp: ensure_pod_annotations_def Let_def join_snoc split: option.split)

lemma ensure_pod_annotations_idem:
  "ensure_pod_annotations (ensure_pod_annotations t) = ensure_pod_annotations t"
proof -
  let ?t = "ensure_pod_annotations t"
  obtain ex where ex: "map_get (pod_annotations ?t) istioExcludedIpRangesAnnotation = Some ex"
    "gcsfuseOutboundIPRange \<in> set (split_on CHR '','' ex)"
  proof (cases "map_get (pod_annotations t) istioExcludedIpRangesAnnotation")
    case None
    then show ?thesis
      by (intro that) (auto simp: ensure_pod_annotations_get split_on_no_sep)
  next
    case (Some old)
    then show ?thesis
      by (intro that) (auto simp: ensure_pod_annotations_get split_on_append split_on_no_sep)
  qed
  have "put ''gke-gcsfuse/volumes'' ''true'' (pod_annotations ?t) = pod_annotations ?t"
    by (rule put_same) (simp add: ensure_pod_annotations_get)
  with ex show ?thesis
    by (subst ensure_pod_annotations_def) (auto simp: Let_def)
qed

section \<open>The service account's annotations\<close>

lemma map_index_put:
  "map_index (Some (AList.update k v m)) k' = (if k' = k then v else map_index (Some m) k')"
  by (auto simp: map_index_def update_conv')

lemma map_index_put_if:
  "map_index (Some (if b then AList.update k v m else m)) k' =
     (if b \<and> k' = k then v else map_index (Some m) k')"
  by (simp add: map_index_put)

lemma merge_annotations_step:
  "merge_annotations ((key, val) # kvs) (anns, modified) =
     merge_annotations kvs
       (if map_index (Some anns) key \<noteq> val then AList.update key val anns else anns,
        modified \<or> map_index (Some anns) key \<noteq> val)"
  by simp

lemma merge_annotations_get:
  "map_ok kvs \<Longrightarrow> map_index (Some (fst (merge_annotations kvs (anns, modified)))) k =
      (case map_of kvs k of None \<Rightarrow> map_index (Some anns) k | Some v \<Rightarrow> v)"
proof (induction kvs arbitrary: anns modified)
  case Nil
  then show ?case by simp
next
  case (Cons p kvs)
  obtain key val where p: "p = (key, val)" by (cases p)
  from Cons.prems p have ok: "map_ok kvs" "map_of kvs key = None"
    by (auto simp: map_ok_def map_of_eq_None_iff)
  then show ?case
    unfolding p merge_annotations_step Cons.IH [OF ok(1)] map_index_put_if
    by (auto split: option.split)
qed

lemma merge_annotations_modified:
  "map_ok kvs \<Longrightarrow> snd (merge_annotations kvs (anns, modified)) \<longleftrightarrow>
      modified \<or> (\<exists>p \<in> set kvs. map_index (Some anns) (fst p) \<noteq> snd p)"
proof (induction kvs arbitrary: anns modified)
  case Nil
  then show ?case by simp
next
  case (Cons p kvs)
  obtain key val where p: "p = (key, val)" by (cases p)
  from Cons.prems p have ok: "map_ok kvs" "key \<notin> fst ` set kvs"
    by (auto simp: map_ok_def)
  then have "fst q \<noteq> key" if "q \<in> set kvs" for q
    using that by auto
  then show ?case
    unfolding p merge_annotations_step Cons.IH [OF ok(1)] map_index_put_if by auto
qed

lemma merge_annotations_unmodified:
  "\<not> snd (merge_annotations kvs (anns, False)) \<Longrightarrow> fst (merge_annotations kvs (anns, False)) = anns"
proof -
  have keeps: "modified \<Longrightarrow> snd (merge_annotations kvs (anns, modified))" for kvs anns modified
    by (induction kvs "(anns, modified)" arbitrary: anns modified rule: merge_annotations.induct) auto
  show "\<not> snd (merge_annotations kvs (anns, False)) \<Longrightarrow> fst (merge_annotations kvs (anns, False)) = anns"
  proof (induction kvs)
    case (Cons p kvs)
    then show ?case using keeps [of True kvs] by (cases p) (auto split: if_splits)
  qed simp
qed

text \<open>The annotations of an account agree with wanted ones, reading a missing one as empty.\<close>

definition in_sync :: "entries \<Rightarrow> service_account \<Rightarrow> bool" where
  "in_sync wanted sa \<longleftrightarrow> (\<forall>p \<in> set wanted. map_index (sa_annotations sa) (fst p) = snd p)"

lemma map_ok_index: "map_ok kvs \<Longrightarrow> p \<in> set kvs \<Longrightarrow> map_of kvs (fst p) = Some (snd p)"
  by (simp add: map_ok_def map_of_is_SomeI)

lemma handle_service_account_cases:
  fixes w :: world and namespace name :: string
  defines "nn \<equiv> \<lparr>nn_namespace = namespace, nn_name = name\<rparr>"
  assumes "range_ok ord" and "map_ok wanted"
  obtains (unread) e where "w_get_sa w h nn = Inl e"
      "handle_service_account w ord namespace name wanted h = (Some e, h @ [GetSA nn])"
  | (synced) sa where "w_get_sa w h nn = Inr sa" "in_sync wanted sa" "sa_annotations sa \<noteq> None"
      "handle_service_account w ord namespace name wanted h = (None, h @ [GetSA nn])"
  | (updated) sa m where "w_get_sa w h nn = Inr sa"
      "in_sync wanted (set_sa_annotations m sa)"
      "\<And>k. k \<notin> fst ` set wanted \<Longrightarrow> map_index m k = map_index (sa_annotations sa) k"
      "sa_annotations sa = None \<or> \<not> in_sync wanted sa"
      "handle_service_account w ord namespace name wanted h =
         (case w_update_sa w (h @ [GetSA nn]) (set_sa_annotations m sa) of Inl e \<Rightarrow> Some e | Inr _ \<Rightarrow> None,
          h @ [GetSA nn, UpdateSA (set_sa_annotations m sa)])"
proof (cases "w_get_sa w h nn")
  case (Inl e)
  then show ?thesis
    by (intro unread) (simp_all add: handle_service_account_def call_get_sa_def nn_def)
next
  case sa: (Inr sa)
  show ?thesis
  proof (cases "sa_annotations sa")
    case None
    show ?thesis
    proof (rule updated [OF sa, of "Some wanted"])
      show "in_sync wanted (set_sa_annotations (Some wanted) sa)"
        using assms(3) by (simp add: in_sync_def map_index_def map_ok_index)
      show "map_index (Some wanted) k = map_index (sa_annotations sa) k" if "k \<notin> fst ` set wanted" for k
      proof -
        have "map_of wanted k = None" using that by (simp add: map_of_eq_None_iff)
        with None show ?thesis by (simp add: map_index_def)
      qed
    qed (use sa None in \<open>auto simp: handle_service_account_def call_get_sa_def call_update_sa_def nn_def
        split: sum.split\<close>)
  next
    case (Some anns)
    let ?kvs = "range_over ord wanted" and ?r = "merge_annotations (range_over ord wanted) (anns, False)"
    have ok: "map_ok ?kvs" and set_kvs: "set ?kvs = set wanted"
      using assms(2,3) by simp_all
    have modified: "snd ?r \<longleftrightarrow> \<not> in_sync wanted sa"
      unfolding merge_annotations_modified [OF ok] in_sync_def set_kvs Some by auto
    show ?thesis
    proof (cases "snd ?r")
      case False
      with modified sa Some show ?thesis
        by (intro synced [OF sa])
          (auto simp: handle_service_account_def call_get_sa_def nn_def split: prod.split)
    next
      case True
      have get: "map_index (Some (fst ?r)) k =
          (case map_of ?kvs k of None \<Rightarrow> map_index (Some anns) k | Some v \<Rightarrow> v)" for k
        by (rule merge_annotations_get [OF ok])
      show ?thesis
      proof (rule updated [OF sa, of "Some (fst ?r)"])
        show "in_sync wanted (set_sa_annotations (Some (fst ?r)) sa)"
          unfolding in_sync_def using ok set_kvs by (auto simp: get map_ok_index)
        show "map_index (Some (fst ?r)) k = map_index (sa_annotations sa) k" if "k \<notin> fst ` set wanted" for k
        proof -
          have "map_of ?kvs k = None" using that set_kvs by (simp add: map_of_eq_None_iff)
          then show ?thesis using Some by (simp add: get)
        qed
      qed (use sa Some True modified in \<open>auto simp: handle_service_account_def call_get_sa_def
          call_update_sa_def nn_def Let_def split: prod.split sum.split\<close>)
    qed
  qed
qed

lemma map_ok_wanted [simp]: "map_ok (wanted_sa_annotations c sfs grp)"
  by (simp add: wanted_sa_annotations_def map_ok_def annotation_keys)

section \<open>What a patched object looks like\<close>

lemma on_container_fields [simp]:
  "sfs_meta (on_container i f s) = sfs_meta s"
  "sfs_replicas (on_container i f s) = sfs_replicas s"
  "pt_meta (sfs_template (on_container i f s)) = pt_meta (sfs_template s)"
  "ps_volumes (sfs_pod (on_container i f s)) = ps_volumes (sfs_pod s)"
  "length (ps_containers (sfs_pod (on_container i f s))) = length (ps_containers (sfs_pod s))"
  by (simp_all add: on_container_def set_sfs_pod_def)

lemma on_container_names:
  assumes "\<And>c. c_name (f c) = c_name c"
  shows "map c_name (ps_containers (sfs_pod (on_container i f s))) = map c_name (ps_containers (sfs_pod s))"
proof (cases "i < length (ps_containers (sfs_pod s))")
  case True
  then show ?thesis
    by (simp add: on_container_def set_sfs_pod_def modify_container_def map_update assms)
      (metis list_update_id nth_map)
next
  case False
  then show ?thesis
    by (simp add: on_container_def set_sfs_pod_def modify_container_def list_update_beyond)
qed

lemma env_container_fields [simp]:
  "c_name (set_adc_env m grp c) = c_name c" "c_mounts (set_adc_env m grp c) = c_mounts c"
  "c_name (set_project_env m prj c) = c_name c" "c_mounts (set_project_env m prj c) = c_mounts c"
  by (auto simp: set_adc_env_def set_project_env_def Let_def split: option.split)

lemma label_pod_fields [simp]:
  "pt_spec (label_pod team grp t) = pt_spec t"
  "pod_annotations (label_pod team grp t) = pod_annotations t"
  by (simp_all add: label_pod_def)

lemma ensure_pod_spec [simp]: "pt_spec (ensure_pod_annotations t) = pt_spec t"
  by (simp add: ensure_pod_annotations_def Let_def)

lemma unmount_fields [simp]:
  "sfs_meta (unmount_buckets i s) = sfs_meta s"
  "pt_meta (sfs_template (unmount_buckets i s)) = pt_meta (sfs_template s)"
  by (simp_all add: unmount_buckets_def set_sfs_pod_def split: prod.split)

lemma mount_fields [simp]:
  "sfs_meta (mount_buckets m ord bm i s) = sfs_meta s"
  "pt_meta (sfs_template (mount_buckets m ord bm i s)) = pt_meta (sfs_template s)"
  by (simp_all add: mount_buckets_def set_sfs_pod_def Let_def split: prod.split)

text \<open>The object on which the buckets are mounted or unmounted.\<close>

definition prepared ::
  "sfs_mutator \<Rightarrow> access_group_config \<Rightarrow> string \<Rightarrow> nat \<Rightarrow> project option \<Rightarrow> statefulset \<Rightarrow> statefulset" where
  "prepared m c grp i prj sfs0 =
     on_container i (set_project_env m prj)
       (on_container i (set_adc_env m grp)
         (sfs0\<lparr>sfs_template := label_pod (to_team c grp) grp (sfs_template sfs0)\<rparr>))"

lemma prepared_fields [simp]:
  "sfs_meta (prepared m c grp i prj s) = sfs_meta s"
  "pt_meta (sfs_template (prepared m c grp i prj s))
     = pt_meta (label_pod (to_team c grp) grp (sfs_template s))"
  "ps_volumes (sfs_pod (prepared m c grp i prj s)) = ps_volumes (sfs_pod s)"
  "length (ps_containers (sfs_pod (prepared m c grp i prj s))) = length (ps_containers (sfs_pod s))"
  "map c_name (ps_containers (sfs_pod (prepared m c grp i prj s))) = map c_name (ps_containers (sfs_pod s))"
  by (simp_all add: prepared_def on_container_names)

lemma prepared_mounts: "map c_mounts (ps_containers (sfs_pod (prepared m c grp i prj s))) = map c_mounts (ps_containers (sfs_pod s))"
proof -
  have "map c_mounts (ps_containers (sfs_pod (on_container i f s))) = map c_mounts (ps_containers (sfs_pod s))"
    if "\<And>c. c_mounts (f c) = c_mounts c" for f s
  proof (cases "i < length (ps_containers (sfs_pod s))")
    case True
    then show ?thesis
      by (simp add: on_container_def set_sfs_pod_def modify_container_def map_update that)
        (metis list_update_id nth_map)
  next
    case False
    then show ?thesis
      by (simp add: on_container_def set_sfs_pod_def modify_container_def list_update_beyond)
  qed
  then show ?thesis by (simp add: prepared_def)
qed

lemma finish_patched:
  assumes "finish m js w sfs h = (Returns (Patched s'), h')"
  shows "sfs_template s' = sfs_template sfs" and "om_name (sfs_meta s') = om_name (sfs_meta sfs)"
  using assms
  by (auto simp: finish_def launch_iam_probe_def Let_def set_sfs_annotations_def
      split: if_splits option.splits outcome.splits prod.splits)

text \<open>The project of the team, \<^verbatim>\<open>nil\<close> in the code when none was found.\<close>

definition found_project :: "(project_error + project) outcome \<Rightarrow> project option" where
  "found_project found = (case found of Returns (Inr p) \<Rightarrow> Some p | _ \<Rightarrow> None)"

lemma found_project_simps [simp]:
  "found_project (Returns (Inr p)) = Some p" "found_project (Returns (Inl e)) = None"
  by (simp_all add: found_project_def)

lemma mutate_patched:
  assumes "mutate m js w ord c grp i sfs0 h1 = (Returns (Patched s'), h')"
  obtains (expired) prj h2 where
    "access_expired c sfs0 (w_now w h2) = Some True"
    "sfs_template s' = sfs_template (unmount_buckets i (prepared m c grp i prj sfs0))"
    "\<exists>r. get_standard_project m w (to_team c grp) c h1 = (Returns r, h2)"
  | (active) prj h2 bm h3 found where
    "access_expired c sfs0 (w_now w h2) = Some False"
    "bucket_mounts_of m js w (to_team c grp) prj (sfs_annotations sfs0) h2 = (bm, h3)"
    "sfs_template s' = sfs_template (mount_buckets m ord bm i (prepared m c grp i prj sfs0))"
    "get_standard_project m w (to_team c grp) c h1 = (Returns found, h2)"
    "prj = found_project (Returns found)"
proof (cases "get_standard_project m w (to_team c grp) c h1")
  case (Pair res h2)
  show ?thesis
  proof (cases res)
    case (Panics k)
    with Pair assms show ?thesis by (simp add: mutate_def)
  next
    case (Returns found)
    define prj where "prj = (case found of Inl _ \<Rightarrow> None | Inr p \<Rightarrow> Some p)"
    define s3 where "s3 = prepared m c grp i prj sfs0"
    have expiry: "access_expired c s3 (w_now w h2) = access_expired c sfs0 (w_now w h2)"
      by (simp add: access_expired_def s3_def)
    have anns: "sfs_annotations s3 = sfs_annotations sfs0"
      by (simp add: s3_def)
    have run: "mutate m js w ord c grp i sfs0 h1 =
        (case access_expired c s3 (w_now w h2) of
           None \<Rightarrow> (Returns (Denied ''invalid requested duration format''), h2)
         | Some True \<Rightarrow> finish m js w (unmount_buckets i s3) h2
         | Some False \<Rightarrow>
             let (bucketMounts, h3) = bucket_mounts_of m js w (to_team c grp) prj (sfs_annotations s3) h2
             in finish m js w (mount_buckets m ord bucketMounts i s3) h3)"
      by (simp only: mutate_def Pair Returns s3_def prepared_def prj_def Let_def prod.case outcome.case)
    show ?thesis
    proof (cases "access_expired c sfs0 (w_now w h2)")
      case None
      with run expiry assms show ?thesis by simp
    next
      case (Some b)
      show ?thesis
      proof (cases b)
        case True
        with run expiry Some assms have "finish m js w (unmount_buckets i s3) h2 = (Returns (Patched s'), h')"
          by simp
        from finish_patched(1) [OF this] Some True Pair Returns show ?thesis
          by (intro expired [of h2 prj]) (simp_all add: s3_def)
      next
        case False
        obtain bm h3 where bm: "bucket_mounts_of m js w (to_team c grp) prj (sfs_annotations s3) h2 = (bm, h3)"
          by fastforce
        with run expiry Some False assms
        have "finish m js w (mount_buckets m ord bm i s3) h3 = (Returns (Patched s'), h')"
          by simp
        from finish_patched(1) [OF this] Some False Pair Returns bm anns show ?thesis
          by (intro active [of h2 prj bm h3 found]) (simp_all add: s3_def prj_def split: sum.split)
      qed
    qed
  qed
qed

lemma handle_patched:
  assumes "handle m js w req h = (Returns (Patched s'), h')"
  obtains sfs grp i c h1 sfs0 where
    "js_decode js (rq_raw req) = Inr sfs" "time_ptr_is_zero (om_deletion (sfs_meta sfs))"
    "map_get (sfs_annotations sfs) impersonateGroupAnnotation = Some grp"
    "sfs0 = sfs\<lparr>sfs_template := ensure_pod_annotations (sfs_template sfs)\<rparr>"
    "index_func (\<lambda>c. c_name c = map_index (sfs_annotations sfs) serviceContainerAnnotation)
       (ps_containers (sfs_pod sfs)) = Some i"
    "get_config (mu_configs m) grp = Some c"
    "handle_service_account w (w_range w h 0) (rq_namespace req) (ps_service_account (sfs_pod sfs))
       (wanted_sa_annotations c sfs grp) h = (None, h1)"
    "mutate m js w (w_range w h) c grp i sfs0 h1 = (Returns (Patched s'), h')"
proof -
  have wanted: "wanted_sa_annotations c (sfs\<lparr>sfs_template := t\<rparr>) grp = wanted_sa_annotations c sfs grp"
    for c sfs t grp by (simp add: wanted_sa_annotations_def)
  from assms show ?thesis
    by (auto simp: handle_def get_service_container_def Let_def wanted
        split: sum.splits if_splits option.splits prod.splits intro: that)
qed

text \<open>The service container, by name, through mounting and unmounting.\<close>

abbreviation named :: "string \<Rightarrow> container \<Rightarrow> bool" where
  "named name \<equiv> \<lambda>c. c_name c = name"

lemma index_by_name:
  "map c_name cs = map c_name cs' \<Longrightarrow> index_func (named name) cs = index_func (named name) cs'"
  using index_func_map [of "\<lambda>n. n = name" c_name cs] index_func_map [of "\<lambda>n. n = name" c_name cs']
  by (simp add: comp_def)

lemma find_update_container:
  assumes "index_func (named name) cs = Some i" and "c_name c = name"
  shows "find (named name) (cs[i := c]) = Some c"
proof -
  have "index_func (named name) (cs[i := c]) = Some i"
    using assms by (rule index_func_update)
  with index_func_SomeD(1) [OF assms(1)] show ?thesis by (simp add: find_index_func)
qed

lemma remove_buckets_fields:
  "remove_buckets_from_pod_spec p c =
     (\<not> no_buckets p c, p\<lparr>ps_volumes := delete_func is_bucket_volume (ps_volumes p)\<rparr>,
      c\<lparr>c_mounts := delete_func is_bucket_mount (c_mounts c)\<rparr>)"
  by (auto simp: remove_buckets_from_pod_spec_def no_buckets_def Let_def)

lemma unmount_buckets_clean:
  assumes "index_func (named name) (ps_containers (sfs_pod s)) = Some i"
  shows "\<forall>v \<in> set (ps_volumes (sfs_pod (unmount_buckets i s))). \<not> is_bucket_volume v"
    and "\<forall>c \<in> set (ps_containers (sfs_pod (unmount_buckets i s))). \<not> is_precreator c"
    and "find (named name) (ps_containers (sfs_pod (unmount_buckets i s))) = Some ctr \<Longrightarrow>
      \<forall>vm \<in> set (c_mounts ctr). \<not> is_bucket_mount vm"
proof -
  let ?cs = "ps_containers (sfs_pod s)"
  let ?c = "?cs ! i"
  let ?c' = "?c\<lparr>c_mounts := delete_func is_bucket_mount (c_mounts ?c)\<rparr>"
  let ?p = "modify_container i (\<lambda>_. ?c') ((sfs_pod s)\<lparr>ps_volumes := delete_func is_bucket_volume (ps_volumes (sfs_pod s))\<rparr>)"
  have run: "sfs_pod (unmount_buckets i s) = snd (remove_precreator ?p)"
    by (simp add: unmount_buckets_def remove_buckets_fields)
  have cs: "ps_containers ?p = ?cs[i := ?c']"
    by (simp add: modify_container_def)
  show "\<forall>v \<in> set (ps_volumes (sfs_pod (unmount_buckets i s))). \<not> is_bucket_volume v"
    by (simp add: run)
  show none: "\<forall>c \<in> set (ps_containers (sfs_pod (unmount_buckets i s))). \<not> is_precreator c"
    by (simp add: run remove_precreator_def)
  assume found: "find (named name) (ps_containers (sfs_pod (unmount_buckets i s))) = Some ctr"
  show "\<forall>vm \<in> set (c_mounts ctr). \<not> is_bucket_mount vm"
  proof (cases "name = precreatorContainerName")
    case True
    from found have "ctr \<in> set (ps_containers (sfs_pod (unmount_buckets i s)))" "c_name ctr = name"
      by (auto simp: find_Some_iff)
    with True none show ?thesis by (auto simp: is_precreator_def)
  next
    case False
    have "c_name ?c' = name" using index_func_SomeD(2) [OF assms] by simp
    then have "find (named name) (?cs[i := ?c']) = Some ?c'"
      by (rule find_update_container [OF assms])
    with found have "ctr = ?c'"
      by (simp only: run find_other_container(2) [OF False] cs) simp
    then show ?thesis by simp
  qed
qed

lemma mount_buckets_pins:
  fixes mp b name :: string and s :: statefulset and i :: nat
  defines "n \<equiv> max_length_volume_name mp" and "ctr \<equiv> ps_containers (sfs_pod s) ! i"
  assumes "index_func (named name) (ps_containers (sfs_pod s)) = Some i" and "name \<noteq> precreatorContainerName"
    and "\<And>k. range_ok (ord k)" and "map_ok bm" and "(mp, b) \<in> set bm"
    and "\<And>mp'. mp' \<in> fst ` set bm \<Longrightarrow> max_length_volume_name mp' = n \<Longrightarrow> mp' = mp"
    and "\<And>v. v \<in> set (ps_volumes (sfs_pod s)) \<Longrightarrow> v_name v = n \<Longrightarrow> v = bucket_volume n b"
    and "\<And>vm. vm \<in> set (c_mounts ctr) \<Longrightarrow> vm_name vm = n \<Longrightarrow> vm = bucket_mount n mp"
  shows "{v \<in> set (ps_volumes (sfs_pod (mount_buckets m ord bm i s))). v_name v = n} = {bucket_volume n b}"
    and "\<exists>c. find (named name) (ps_containers (sfs_pod (mount_buckets m ord bm i s))) = Some c \<and>
      {vm \<in> set (c_mounts c). vm_name vm = n} = {bucket_mount n mp}"
proof -
  obtain md pod c where add: "add_buckets_to_pod_spec (ord 1) (sfs_pod s) ctr bm = (md, pod, c)"
    using prod_cases3 by blast
  have pins: "{v \<in> set (ps_volumes pod). v_name v = n} = {bucket_volume n b}"
      "{vm \<in> set (c_mounts c). vm_name vm = n} = {bucket_mount n mp}"
    using add_buckets_pins [OF assms(5-7) _ add] assms(8-10) unfolding n_def by blast+
  have pod: "ps_containers pod = ps_containers (sfs_pod s)" and name: "c_name c = name"
    using add index_func_SomeD(2) [OF assms(3)] by (auto simp: add_buckets_eq ctr_def Let_def)
  let ?p = "modify_container i (\<lambda>_. c) pod"
  have run: "sfs_pod (mount_buckets m ord bm i s) =
      (case mu_precreator_image m of
         Some img \<Rightarrow> snd (add_or_update_precreator (ord 2) (ord 3) ?p bm img)
       | None \<Rightarrow> snd (remove_precreator ?p))"
    unfolding mount_buckets_def add [unfolded ctr_def] by (simp add: Let_def)
  show "{v \<in> set (ps_volumes (sfs_pod (mount_buckets m ord bm i s))). v_name v = n} = {bucket_volume n b}"
    using pins(1) by (auto simp: run split: option.split)
  have "find (named name) (ps_containers ?p) = Some c"
    unfolding modify_container_def pod using find_update_container [OF assms(3) name] by simp
  then have "find (named name) (ps_containers (sfs_pod (mount_buckets m ord bm i s))) = Some c"
    by (auto simp: run find_other_container [OF assms(4)] split: option.split)
  with pins(2) show "\<exists>c. find (named name) (ps_containers (sfs_pod (mount_buckets m ord bm i s))) = Some c \<and>
      {vm \<in> set (c_mounts c). vm_name vm = n} = {bucket_mount n mp}"
    by blast
qed

text \<open>The maps of bucket mounts only grow.\<close>

lemma put_all_spec:
  "map_ok bm \<Longrightarrow> map_ok (put_all bs bm) \<and> fst ` set (put_all bs bm) = fst ` set bm \<union> set bs"
  by (induction bs bm rule: put_all.induct) (auto simp: dom_update)

lemma shared_loop_grows:
  "map_ok bm \<Longrightarrow> map_ok (fst (shared_loop m specs bm)) \<and> fst ` set bm \<subseteq> fst ` set (fst (shared_loop m specs bm))"
proof (induction m specs bm rule: shared_loop.induct)
  case (2 m spec specs bm)
  show ?case
    using 2 by (auto simp: Let_def dom_update split: sum.split)
qed simp

lemma standard_loop_grows:
  "map_ok bm \<Longrightarrow> map_ok (fst (standard_loop p st it bm)) \<and> fst ` set bm \<subseteq> fst ` set (fst (standard_loop p st it bm))"
proof (induction p st it bm rule: standard_loop.induct)
  case (2 p st bucket it e bm)
  then show ?case by (auto simp: Let_def dom_update)
qed simp

lemma bucket_mounts_of_covers:
  assumes "bucket_mounts_of m js w team prj anns h = (bm, h')"
  shows "map_ok bm" and "fst ` set (get_extra_bucket_mounts anns) \<subseteq> fst ` set bm"
proof -
  let ?extra = "get_extra_bucket_mounts anns"
  let ?shared = "case map_get anns mountSharedBucketsAnnotation of
    Some specs \<Rightarrow> fst (add_shared_buckets m js specs ?extra) | None \<Rightarrow> ?extra"
  have ok: "map_ok ?extra"
    using put_all_spec [of "[]"] by (simp add: get_extra_bucket_mounts_def)
  have shared: "map_ok ?shared \<and> fst ` set ?extra \<subseteq> fst ` set ?shared"
    using shared_loop_grows [OF ok] ok by (auto simp: add_shared_buckets_def split: option.split sum.split)
  have "map_ok bm \<and> fst ` set ?shared \<subseteq> fst ` set bm"
  proof (cases "map_index anns mountStandardBucketsAnnotation = ''true'' \<and> prj \<noteq> None")
    case True
    then obtain p where "prj = Some p" by auto
    with True assms have "bm = fst (standard_loop (''ssb-'' @ team @ ''-data-'') (mu_stage m)
        (w_list_buckets w h (prj_id p) (''ssb-'' @ team @ ''-data-'')) ?shared)"
      by (simp add: bucket_mounts_of_def add_standard_buckets_def call_list_buckets_def Let_def)
    with shared show ?thesis
      by (simp only: standard_loop_grows [THEN conjunct1] standard_loop_grows [THEN conjunct2] simp_thms)
  next
    case False
    with assms shared show ?thesis
      by (auto simp: bucket_mounts_of_def Let_def split: if_splits)
  qed
  with shared show "map_ok bm" and "fst ` set ?extra \<subseteq> fst ` set bm" by auto
qed

text \<open>Asked for by the first annotation only, the buckets are mounted under their own names.\<close>

lemma put_all_own: "map_ok bm \<Longrightarrow> b \<in> set bs \<Longrightarrow> (b, b) \<in> set (put_all bs bm)"
proof (induction bs bm rule: put_all.induct)
  case (2 bucket bs bm)
  have keep: "(b, b) \<in> set (put_all cs am)" if "(b, b) \<in> set am" "map_ok am" for cs am
    using that by (induction cs am rule: put_all.induct) (auto simp: set_update)
  from 2 keep show ?case by (cases "b = bucket") (auto simp: set_update)
qed simp

lemma bucket_mounts_of_own:
  assumes "map_get anns mountSharedBucketsAnnotation = None" and "map_index anns mountStandardBucketsAnnotation \<noteq> ''true''"
    and "map_get anns mountBucketsAnnotation = Some buckets" and "b \<in> set (split_on CHR '','' buckets)"
  shows "(b, b) \<in> set (fst (bucket_mounts_of m js w team prj anns h))"
  using assms put_all_own [of "[]" b "split_on CHR '','' buckets"]
  by (simp add: bucket_mounts_of_def get_extra_bucket_mounts_def)

text \<open>
  The map of bucket mounts that a request leads to: what the annotations, the shared buckets
  and the standard buckets of the team's project ask for, read after the service account.
\<close>

definition requested_mounts ::
  "sfs_mutator \<Rightarrow> json_codec \<Rightarrow> world \<Rightarrow> admission_request \<Rightarrow> access_group_config \<Rightarrow> string \<Rightarrow> statefulset
     \<Rightarrow> history \<Rightarrow> entries" where
  "requested_mounts m js w req c grp sfs h =
     (let h1 = snd (handle_service_account w (w_range w h 0) (rq_namespace req)
            (ps_service_account (sfs_pod sfs)) (wanted_sa_annotations c sfs grp) h);
          (found, h2) = get_standard_project m w (to_team c grp) c h1
      in fst (bucket_mounts_of m js w (to_team c grp) (found_project found) (sfs_annotations sfs) h2))"

lemma requested_mounts_from:
  obtains prj t where "requested_mounts m js w req c grp sfs h
    = fst (bucket_mounts_of m js w (to_team c grp) prj (sfs_annotations sfs) t)"
  by (rule that) (simp only: requested_mounts_def Let_def split_beta)

lemma requested_mounts_covers:
  assumes "map_get (sfs_annotations sfs) mountBucketsAnnotation = Some buckets"
    and "b \<in> set (split_on CHR '','' buckets)"
  shows "b \<in> fst ` set (requested_mounts m js w req c grp sfs h)"
    and "map_get (sfs_annotations sfs) mountSharedBucketsAnnotation = None \<Longrightarrow>
      map_index (sfs_annotations sfs) mountStandardBucketsAnnotation \<noteq> ''true'' \<Longrightarrow>
      (b, b) \<in> set (requested_mounts m js w req c grp sfs h)"
proof -
  have "set (split_on CHR '','' buckets) = fst ` set (get_extra_bucket_mounts (sfs_annotations sfs))"
    using put_all_spec [of "[]"] assms(1) by (simp add: get_extra_bucket_mounts_def)
  then have keys: "b \<in> fst ` set (fst (bucket_mounts_of m js w team prj (sfs_annotations sfs) t))" for team prj t
    using bucket_mounts_of_covers(2) [OF surjective_pairing, of "sfs_annotations sfs" m js w team prj t] assms(2)
    by (simp only: subsetD)
  obtain prj t where from_calls: "requested_mounts m js w req c grp sfs h
      = fst (bucket_mounts_of m js w (to_team c grp) prj (sfs_annotations sfs) t)"
    by (rule requested_mounts_from)
  show "b \<in> fst ` set (requested_mounts m js w req c grp sfs h)"
    unfolding from_calls by (rule keys)
  show "(b, b) \<in> set (requested_mounts m js w req c grp sfs h)"
    if "map_get (sfs_annotations sfs) mountSharedBucketsAnnotation = None"
      "map_index (sfs_annotations sfs) mountStandardBucketsAnnotation \<noteq> ''true''"
    unfolding from_calls by (rule bucket_mounts_of_own [OF that assms])
qed

lemma extra_bucket_mounts_keys:
  "fst ` set (get_extra_bucket_mounts anns) =
     (case map_get anns mountBucketsAnnotation of None \<Rightarrow> {} | Some s \<Rightarrow> set (split_on CHR '','' s))"
  using put_all_spec [of "[]"] by (auto simp: get_extra_bucket_mounts_def split: option.split)

lemma standard_loop_pairs:
  "map_ok bm \<Longrightarrow> set (fst (standard_loop p st it bm)) \<subseteq> set bm \<union>
     {(trim_suffix (trim_prefix b p) (''-'' @ st), b) | b.
        b \<in> set (fst it) \<and> \<not> has_prefix (trim_suffix (trim_prefix b p) (''-'' @ st)) ''delt-delomat-''}"
proof (induction p st it bm rule: standard_loop.induct)
  case (2 p st bucket it e bm)
  let ?short = "trim_suffix (trim_prefix bucket p) (''-'' @ st)"
  show ?case
  proof (cases "has_prefix ?short ''delt-delomat-''")
    case True
    with 2 show ?thesis by (fastforce simp: Let_def)
  next
    case False
    have "map_ok (AList.update ?short bucket bm)" using 2(3) by simp
    from 2(2) [OF refl False this] False 2(3) show ?thesis
      by (fastforce simp: Let_def set_update)
  qed
qed simp

lemma standard_loop_keys:
  "map_ok bm \<Longrightarrow> b \<in> set (fst it) \<Longrightarrow>
     \<not> has_prefix (trim_suffix (trim_prefix b p) (''-'' @ st)) ''delt-delomat-'' \<Longrightarrow>
     trim_suffix (trim_prefix b p) (''-'' @ st) \<in> fst ` set (fst (standard_loop p st it bm))"
proof (induction p st it bm rule: standard_loop.induct)
  case (2 p st bucket it e bm)
  let ?short = "trim_suffix (trim_prefix bucket p) (''-'' @ st)"
  show ?case
  proof (cases "has_prefix ?short ''delt-delomat-''")
    case True
    with 2 show ?thesis by (auto simp: Let_def)
  next
    case False
    have ok: "map_ok (AList.update ?short bucket bm)" using 2(3) by simp
    show ?thesis
    proof (cases "b = bucket")
      case True
      have "?short \<in> fst ` set (AList.update ?short bucket bm)" by (simp add: dom_update)
      with standard_loop_grows [OF ok, of p st "(it, e)"] False True show ?thesis
        by (auto simp: Let_def)
    next
      case other: False
      with 2(2) [OF refl False ok] 2(4,5) False show ?thesis by (simp add: Let_def)
    qed
  qed
qed simp

section \<open>Properties\<close>

text \<open>
  A StatefulSet is mutated only when its group has a configuration and its service
  account carries the group, the reason and, where one is required, the duration of the
  StatefulSet: the account was read and agreed already, or an update that makes it agree
  was accepted. Other annotations of the account are left alone.
\<close>

theorem sfs_patched_only_with_synced_account:
  assumes "range_law w" and "handle m js w req h = (Returns (Patched s'), h')"
  shows "\<exists>sfs grp c sa. js_decode js (rq_raw req) = Inr sfs \<and>
    map_get (sfs_annotations sfs) impersonateGroupAnnotation = Some grp \<and>
    get_config (mu_configs m) grp = Some c \<and>
    w_get_sa w h \<lparr>nn_namespace = rq_namespace req, nn_name = ps_service_account (sfs_pod sfs)\<rparr> = Inr sa \<and>
    (in_sync (wanted_sa_annotations c sfs grp) sa \<or>
     (\<exists>anns stored. in_sync (wanted_sa_annotations c sfs grp) (set_sa_annotations anns sa) \<and>
        (\<forall>k. k \<notin> fst ` set (wanted_sa_annotations c sfs grp) \<longrightarrow>
           map_index anns k = map_index (sa_annotations sa) k) \<and>
        w_update_sa w (h @ [GetSA \<lparr>nn_namespace = rq_namespace req, nn_name = ps_service_account (sfs_pod sfs)\<rparr>])
          (set_sa_annotations anns sa) = Inr stored))"
  using assms(2)
proof (rule handle_patched)
  fix sfs grp i c h1 sfs0
  assume *: "js_decode js (rq_raw req) = Inr sfs"
    "map_get (sfs_annotations sfs) impersonateGroupAnnotation = Some grp"
    "get_config (mu_configs m) grp = Some c"
    and run: "handle_service_account w (w_range w h 0) (rq_namespace req) (ps_service_account (sfs_pod sfs))
       (wanted_sa_annotations c sfs grp) h = (None, h1)"
  have ord: "range_ok (w_range w h 0)" using assms(1) by (simp add: range_law_def)
  from ord map_ok_wanted [of c sfs grp] show ?thesis
  proof (cases rule: handle_service_account_cases [where w = w and h = h and namespace = "rq_namespace req" and name = "ps_service_account (sfs_pod sfs)"])
    case (unread e)
    with run show ?thesis by simp
  next
    case (synced sa)
    with * show ?thesis by blast
  next
    case (updated sa anns)
    from updated(5) run obtain stored where
      "w_update_sa w (h @ [GetSA \<lparr>nn_namespace = rq_namespace req, nn_name = ps_service_account (sfs_pod sfs)\<rparr>])
        (set_sa_annotations anns sa) = Inr stored"
      by (auto split: sum.splits)
    with updated(1-3) * show ?thesis by blast
  qed
qed

text \<open>
  C12: For a group that requires a reason: once the requested duration is over, the object
  that is admitted has no gcsfuse volume, no precreator, and a service container without any
  bucket mounted. (For the other groups the handler never looks at a duration.)
\<close>

theorem expired_access_unmounts_everything:
  assumes "handle m js w req h = (Returns (Patched s'), h')"
    and "js_decode js (rq_raw req) = Inr sfs"
    and "map_get (sfs_annotations sfs) impersonateGroupAnnotation = Some grp"
    and "get_config (mu_configs m) grp = Some c" and "gc_reason_required c"
    and "parse_duration (map_index (sfs_annotations sfs) requestedServiceDurationAnnotation) = Some d"
    and "\<And>t. w_now w t > om_creation (sfs_meta sfs) + d"
  shows "(\<forall>v \<in> set (ps_volumes (sfs_pod s')). \<not> is_bucket_volume v) \<and>
    (\<forall>ctr \<in> set (ps_containers (sfs_pod s')). \<not> is_precreator ctr) \<and>
    (\<forall>ctr. find (named (map_index (sfs_annotations sfs) serviceContainerAnnotation))
        (ps_containers (sfs_pod s')) = Some ctr \<longrightarrow> (\<forall>vm \<in> set (c_mounts ctr). \<not> is_bucket_mount vm))"
  using assms(1)
proof (rule handle_patched)
  fix sfs2 grp2 i c2 h1 sfs0
  assume "js_decode js (rq_raw req) = Inr sfs2" "map_get (sfs_annotations sfs2) impersonateGroupAnnotation = Some grp2"
    "get_config (mu_configs m) grp2 = Some c2"
    and sfs0: "sfs0 = sfs2\<lparr>sfs_template := ensure_pod_annotations (sfs_template sfs2)\<rparr>"
    and idx: "index_func (named (map_index (sfs_annotations sfs2) serviceContainerAnnotation))
       (ps_containers (sfs_pod sfs2)) = Some i"
    and run: "mutate m js w (w_range w h) c2 grp2 i sfs0 h1 = (Returns (Patched s'), h')"
  with assms(2-4) have same [simp]: "sfs2 = sfs" "grp2 = grp" "c2 = c" by auto
  from run show ?thesis
  proof (cases rule: mutate_patched)
    case (active prj h2 bm h3)
    with assms(5-7) sfs0 show ?thesis by (simp add: access_expired_def)
  next
    case (expired prj h2)
    let ?s = "prepared m c grp i prj sfs0" and ?name = "map_index (sfs_annotations sfs) serviceContainerAnnotation"
    have "index_func (named ?name) (ps_containers (sfs_pod ?s)) = index_func (named ?name) (ps_containers (sfs_pod sfs))"
      using sfs0 by (intro index_by_name) simp
    with idx have "index_func (named ?name) (ps_containers (sfs_pod ?s)) = Some i" by simp
    with unmount_buckets_clean [OF this] expired(2) show ?thesis by auto
  qed
qed


text \<open>
  C29: Unmounting undoes mounting: on a StatefulSet that has no bucket volume, no bucket
  mounted in its service container and no precreator, what the webhook does once access has
  expired takes away all that it did while access lasted, the volumes, the mounts and the
  precreator container, and restores the StatefulSet exactly, whatever the buckets are and
  in whatever order they were mounted.
\<close>

theorem unmount_undoes_mount:
  assumes "i < length (ps_containers (sfs_pod s))"
    and "no_buckets (sfs_pod s) (ps_containers (sfs_pod s) ! i)"
    and "\<forall>c \<in> set (ps_containers (sfs_pod s)). \<not> is_precreator c"
    and "range_ok (ord 1)" and "map_ok bm"
  shows "unmount_buckets i (mount_buckets m ord bm i s) = s"
proof -
  let ?ctr = "ps_containers (sfs_pod s) ! i"
  obtain md pod c where add: "add_buckets_to_pod_spec (ord 1) (sfs_pod s) ?ctr bm = (md, pod, c)"
    using prod_cases3 by blast
  from remove_after_add_restores [OF assms(4,5,2) add]
  have rem: "(pod\<lparr>ps_volumes := delete_func is_bucket_volume (ps_volumes pod)\<rparr>) = sfs_pod s"
      "c\<lparr>c_mounts := delete_func is_bucket_mount (c_mounts c)\<rparr> = ?ctr"
    by (simp_all add: remove_buckets_fields)
  have pod: "ps_containers pod = ps_containers (sfs_pod s)" and name: "c_name c = c_name ?ctr"
    using add by (auto simp: add_buckets_eq Let_def)
  let ?p = "modify_container i (\<lambda>_. c) pod"
  have no: "\<forall>x \<in> set (ps_containers ?p). \<not> is_precreator x"
    using assms(3) name nth_mem [OF assms(1)]
    by (auto simp: modify_container_def pod is_precreator_def dest!: set_update_subset_insert [THEN subsetD])
  have run: "\<exists>extra. sfs_pod (mount_buckets m ord bm i s) = ?p\<lparr>ps_containers := ps_containers ?p @ extra\<rparr> \<and>
      (\<forall>x \<in> set extra. is_precreator x)"
  proof (cases "mu_precreator_image m")
    case None
    then have "sfs_pod (mount_buckets m ord bm i s) = ?p"
      using no unfolding mount_buckets_def add by (simp add: Let_def remove_precreator_def delete_func_none)
    then show ?thesis by (intro exI [of _ "[]"]) simp
  next
    case (Some img)
    from no have "index_func is_precreator (ps_containers ?p) = None" by simp
    with Some show ?thesis unfolding mount_buckets_def add
      by (intro exI [of _ "[\<lparr>c_name = precreatorContainerName, c_image = img, c_env = [],
          c_mounts = precreator_mounts (ord 2) (ord 3) bm, c_other = []\<rparr>]"])
        (simp add: Let_def add_or_update_precreator_def is_precreator_def del: index_func_None_iff)
  qed
  then obtain extra where run: "sfs_pod (mount_buckets m ord bm i s) = ?p\<lparr>ps_containers := ps_containers ?p @ extra\<rparr>"
      "\<forall>x \<in> set extra. is_precreator x" by blast
  let ?cs = "ps_containers (sfs_pod s)"
  have cs: "ps_containers (sfs_pod (mount_buckets m ord bm i s)) = ?cs[i := c] @ extra"
    by (simp add: run(1) modify_container_def pod)
  have at_i: "(?cs[i := c] @ extra) ! i = c" "(?cs[i := c] @ extra)[i := ?ctr] = ?cs @ extra"
    using assms(1) by (simp_all add: nth_append list_update_append)
  have "delete_func is_precreator (?cs @ extra) = ?cs"
    using assms(3) run(2) by (simp add: delete_func_def filter_id_conv)
  then have "sfs_pod (unmount_buckets i (mount_buckets m ord bm i s))
      = pod\<lparr>ps_volumes := delete_func is_bucket_volume (ps_volumes pod), ps_containers := ?cs\<rparr>"
    unfolding unmount_buckets_def remove_buckets_fields cs at_i(1)
    by (simp add: run(1) rem(2) modify_container_def pod at_i(2) remove_precreator_def)
  also have "\<dots> = sfs_pod s"
    unfolding rem(1) [symmetric] using pod by simp
  finally have "sfs_pod (unmount_buckets i (mount_buckets m ord bm i s)) = sfs_pod s" .
  moreover have "\<exists>x. unmount_buckets i (mount_buckets m ord bm i s) = set_sfs_pod x s"
    by (simp add: unmount_buckets_def mount_buckets_def set_sfs_pod_def Let_def split_beta) metis
  ultimately show ?thesis by (cases s) (auto simp: set_sfs_pod_def)
qed

text \<open>
  The handler lets a StatefulSet pass unmodified exactly when it is being deleted or
  does not ask for a group, and then it makes no call at all.
\<close>

theorem sfs_allowed_iff_not_concerned:
  "(\<exists>msg. fst (handle m js w req h) = Returns (Allowed msg)) \<longleftrightarrow>
     (\<exists>sfs. js_decode js (rq_raw req) = Inr sfs \<and>
        (\<not> time_ptr_is_zero (om_deletion (sfs_meta sfs)) \<or>
         map_get (sfs_annotations sfs) impersonateGroupAnnotation = None) \<and>
        snd (handle m js w req h) = h)"
proof -
  have "fst (finish m js w s h1) \<noteq> Returns (Allowed msg)" for s h1 msg
    by (auto simp: finish_def Let_def split: prod.split outcome.split option.split)
  then have "fst (mutate m js w ord c grp i s h1) \<noteq> Returns (Allowed msg)" for ord c grp i s h1 msg
    by (auto simp: mutate_def Let_def split: prod.split outcome.split option.split bool.split)
  then show ?thesis
    by (auto simp: handle_def Let_def split: sum.split option.split prod.split)
qed

text \<open>
  The pod annotations are set idempotently and conservatively: the address of the
  metadata server is one of the excluded ranges afterwards, every range that was excluded
  still is, and no annotation but the two concerned changes.
\<close>

theorem pod_annotations_ensured:
  "ensure_pod_annotations (ensure_pod_annotations t) = ensure_pod_annotations t \<and>
   (\<exists>ex. map_get (pod_annotations (ensure_pod_annotations t)) istioExcludedIpRangesAnnotation = Some ex \<and>
      set (split_on CHR '','' ex) =
        insert gcsfuseOutboundIPRange
          (case map_get (pod_annotations t) istioExcludedIpRangesAnnotation of
             None \<Rightarrow> {} | Some old \<Rightarrow> set (split_on CHR '','' old))) \<and>
   (\<forall>k. k \<notin> {istioExcludedIpRangesAnnotation, ''gke-gcsfuse/volumes''} \<longrightarrow>
      map_get (pod_annotations (ensure_pod_annotations t)) k = map_get (pod_annotations t) k)"
  by (auto simp: ensure_pod_annotations_idem ensure_pod_annotations_get split_on_append split_on_no_sep
      split: option.split)

text \<open>The name a standard bucket is mounted under.\<close>

definition short_bucket_name :: "sfs_mutator \<Rightarrow> string \<Rightarrow> string \<Rightarrow> string" where
  "short_bucket_name m team b = trim_suffix (trim_prefix b (''ssb-'' @ team @ ''-data-'')) (''-'' @ mu_stage m)"

definition standard_listed :: "sfs_mutator \<Rightarrow> world \<Rightarrow> string \<Rightarrow> string \<Rightarrow> history \<Rightarrow> string set" where
  "standard_listed m w team projectId h =
     {b \<in> set (fst (w_list_buckets w h projectId (''ssb-'' @ team @ ''-data-''))).
        \<not> has_prefix (short_bucket_name m team b) ''delt-delomat-''}"

text \<open>
  C31: The standard buckets mounted are those listed for the team, each under its short
  name, except the ones shared by partial automation (\<^verbatim>\<open>delt-delomat-\<close>), whatever error
  the listing ends with.
\<close>

theorem standard_buckets_exact:
  "set (fst (fst (add_standard_buckets m w team projectId [] h))) \<subseteq>
     (\<lambda>b. (short_bucket_name m team b, b)) ` standard_listed m w team projectId h \<and>
   fst ` set (fst (fst (add_standard_buckets m w team projectId [] h))) =
     short_bucket_name m team ` standard_listed m w team projectId h"
proof -
  let ?p = "''ssb-'' @ team @ ''-data-''"
  let ?r = "fst (standard_loop ?p (mu_stage m) (w_list_buckets w h projectId ?p) [])"
  have run: "fst (fst (add_standard_buckets m w team projectId [] h)) = ?r"
    by (simp add: add_standard_buckets_def call_list_buckets_def Let_def)
  have "set ?r \<subseteq> (\<lambda>b. (short_bucket_name m team b, b)) ` standard_listed m w team projectId h"
    using standard_loop_pairs [OF map_ok_Nil, of ?p "mu_stage m" "w_list_buckets w h projectId ?p"]
    by (auto simp: short_bucket_name_def standard_listed_def)
  moreover have "short_bucket_name m team b \<in> fst ` set ?r" if "b \<in> standard_listed m w team projectId h" for b
    unfolding short_bucket_name_def using that
    by (intro standard_loop_keys) (simp_all add: short_bucket_name_def standard_listed_def)
  ultimately show ?thesis unfolding run by fastforce
qed

text \<open>
  A group configuration without a project template makes the webhook panic as soon as
  the team has a folder: the error message asks the nil template for its name. Nothing
  else makes the search for the project panic.
\<close>

theorem project_search_panics_iff:
  "fst (get_standard_project m w team gc h) = Panics k \<longleftrightarrow>
     k = NilDeref \<and> gc_project_template gc = None \<and>
     (\<exists>folder \<in> set (fst (w_list_folders w h (''folders/'' @ mu_teams_folder m))).
        f_display_name folder = team)"
proof -
  have search: "(\<exists>folder. get_folder_with_display_name it team = Inr folder) \<longleftrightarrow>
      (\<exists>folder \<in> set (fst it). f_display_name folder = team)" for it
    by (induction it team rule: get_folder_with_display_name.induct) auto
  show ?thesis
    unfolding search [symmetric]
    by (auto simp: get_standard_project_def call_list_folders_def call_search_projects_def execute_def
        Let_def split: sum.split prod.split option.split)
qed

text \<open>
  An object without a creation time (which the API server fills in only after the
  mutating webhooks of a create request) has always expired: with a clock past 1970, every
  duration that parses is over.
\<close>

theorem access_expired_before_creation:
  assumes "gc_reason_required c" and "om_creation (sfs_meta sfs) = zero_time" and "now \<ge> 0"
    and "parse_duration (map_index (sfs_annotations sfs) requestedServiceDurationAnnotation) = Some d"
  shows "access_expired c sfs now = Some True"
  using assms parse_duration_range [OF assms(4)]
  by (simp add: access_expired_def zero_time_def second_def)

section \<open>Witnesses\<close>

definition example_team_config :: "bool \<Rightarrow> access_group_config" where
  "example_team_config timed = \<lparr>gc_name = (if timed then ''data-admins'' else ''developers''),
     gc_project_template = None, gc_max_duration = 28800000000000, gc_reason_required = timed\<rparr>"

definition example_mutator :: sfs_mutator where
  "example_mutator = \<lparr>mu_teams_folder = ''1'', mu_stage = ''test'', mu_iam_probe_image = [],
     mu_precreator_image = Some ''precreator:1'', mu_adc_env = ''GROUP'', mu_project_env = [],
     mu_configs = [example_team_config False, example_team_config True], mu_shared_template = None\<rparr>"

definition example_sfs :: "string \<Rightarrow> statefulset" where
  "example_sfs grp = \<lparr>
     sfs_meta = empty_meta\<lparr>om_name := ''app'', om_namespace := ''user-ssb-abc'', om_creation := 0,
       om_annotations := Some [(impersonateGroupAnnotation, grp), (serviceContainerAnnotation, ''jupyter''),
         (mountBucketsAnnotation, ''kilde''), (requestedServiceDurationAnnotation, ''8h'')]\<rparr>,
     sfs_replicas = Some 1,
     sfs_template = \<lparr>pt_meta = empty_meta, pt_spec = example_pod\<rparr>,
     sfs_other = []\<rparr>"

definition example_json :: "statefulset \<Rightarrow> json_codec" where
  "example_json sfs = \<lparr>js_decode = (\<lambda>_. Inr sfs), js_specs = (\<lambda>_. Inr []), js_marshal = (\<lambda>_. None)\<rparr>"

definition example_account :: service_account where
  "example_account = \<lparr>sa_meta = empty_meta\<lparr>om_name := ''app'', om_namespace := ''user-ssb-abc''\<rparr>, sa_other = []\<rparr>"

definition example_cluster :: "gotime \<Rightarrow> world" where
  "example_cluster now = quiet_world\<lparr>w_get_sa := (\<lambda>_ _. Inr example_account), w_now := (\<lambda>_. now)\<rparr>"

definition example_request :: admission_request where
  "example_request = \<lparr>rq_namespace = ''user-ssb-abc'', rq_raw = []\<rparr>"

lemma example_cluster_fields [simp]:
  "range_law (example_cluster now)" "w_now (example_cluster now) t = now"
  "w_get_sa (example_cluster now) t nn = Inr example_account"
  "w_update_sa (example_cluster now) t sa = Inr sa"
  "w_list_folders (example_cluster now) t p = ([], IterDone)"
  "w_range (example_cluster now) t k ks = ks"
  by (simp_all add: example_cluster_def quiet_world_def range_law_def)

lemma example_sfs_fields [simp]:
  "js_decode (example_json s) raw = Inr s" "js_marshal (example_json s) s' = None"
  "om_creation (sfs_meta (example_sfs grp)) = 0" "om_deletion (sfs_meta (example_sfs grp)) = None"
  "map_get (sfs_annotations (example_sfs grp)) impersonateGroupAnnotation = Some grp"
  "map_index (sfs_annotations (example_sfs grp)) serviceContainerAnnotation = ''jupyter''"
  "map_index (sfs_annotations (example_sfs grp)) requestedServiceDurationAnnotation = ''8h''"
  "map_get (sfs_annotations (example_sfs grp)) mountBucketsAnnotation = Some ''kilde''"
  "sfs_pod (example_sfs grp) = example_pod"
  by (simp_all add: example_json_def example_sfs_def empty_meta_def map_index_def annotation_keys)

lemma example_group_configs [simp]:
  "get_config (mu_configs example_mutator) ''dapla-developers'' = Some (example_team_config False)"
  "get_config (mu_configs example_mutator) ''dapla-data-admins'' = Some (example_team_config True)"
  "gc_reason_required (example_team_config b) = b"
  by (simp_all add: get_config_find config_applies_def has_suffix_def example_mutator_def
      example_team_config_def)

lemma example_finish [simp]: "finish example_mutator (example_json s) w s' h = (Returns (Patched s'), h)"
  by (simp add: finish_def example_mutator_def)

lemma access_expired_cong:
  "sfs_meta s = sfs_meta s' \<Longrightarrow> access_expired c s now = access_expired c s' now"
  by (simp add: access_expired_def)

lemma example_mutate:
  assumes "access_expired c sfs now = Some b"
  shows "\<exists>s' h'. mutate example_mutator (example_json s) (example_cluster now) ord c grp i sfs h
    = (Returns (Patched s'), h')"
proof -
  have "get_standard_project example_mutator (example_cluster now) team c h
      = (Returns (Inl (NoFolder team IterDone)), h @ [ListFolders ''folders/1''])" for team
    by (simp add: get_standard_project_def call_list_folders_def example_mutator_def)
  moreover have "access_expired c (prepared m c grp i prj sfs) now = Some b" for m prj
    using assms access_expired_cong [of "prepared m c grp i prj sfs" sfs c now] by simp
  ultimately show ?thesis
    by (cases b) (auto simp: mutate_def Let_def prepared_def split: prod.split)
qed

lemma example_handle:
  assumes "get_config (mu_configs example_mutator) grp = Some c"
    and "access_expired c (example_sfs grp) now = Some b"
  shows "\<exists>s' h'. handle example_mutator (example_json (example_sfs grp)) (example_cluster now)
      example_request [] = (Returns (Patched s'), h')"
proof -
  let ?s = "(example_sfs grp)\<lparr>sfs_template := ensure_pod_annotations (sfs_template (example_sfs grp))\<rparr>"
  have "get_service_container (sfs_template ?s) ''jupyter'' = Some 0"
    by (simp add: get_service_container_def example_pod_def example_container_def)
  moreover have "access_expired c ?s now = Some b"
    using assms(2) access_expired_cong [of ?s "example_sfs grp" c now] by simp
  moreover have "handle_service_account (example_cluster now) (w_range (example_cluster now) [] 0)
      ns name wanted [] = (None, [GetSA \<lparr>nn_namespace = ns, nn_name = name\<rparr>,
        UpdateSA (set_sa_annotations (Some wanted) example_account)])" for ns name wanted
    by (simp add: handle_service_account_def call_get_sa_def call_update_sa_def example_account_def
        empty_meta_def)
  ultimately show ?thesis
    using example_mutate assms(1)
    by (simp add: handle_def example_request_def time_ptr_is_zero_def Let_def)
qed

lemma example_expiry:
  "access_expired (example_team_config True) (example_sfs grp) 30000000000000 = Some True"
  "access_expired (example_team_config False) (example_sfs grp) 0 = Some False"
  by (simp_all add: access_expired_def parse_duration_8h)

theorem sfs_patched_only_with_synced_account_witness:
  "\<exists>s' h' sa. handle example_mutator (example_json (example_sfs ''dapla-developers''))
      (example_cluster 0) example_request [] = (Returns (Patched s'), h') \<and>
    in_sync (wanted_sa_annotations (example_team_config False) (example_sfs ''dapla-developers'')
      ''dapla-developers'') sa"
proof -
  obtain s' h' where run: "handle example_mutator (example_json (example_sfs ''dapla-developers''))
      (example_cluster 0) example_request [] = (Returns (Patched s'), h')"
    using example_handle [OF example_group_configs(1) example_expiry(2)] by blast
  obtain sfs grp c sa where "js_decode (example_json (example_sfs ''dapla-developers'')) (rq_raw example_request) = Inr sfs"
    "map_get (sfs_annotations sfs) impersonateGroupAnnotation = Some grp"
    "get_config (mu_configs example_mutator) grp = Some c"
    and "in_sync (wanted_sa_annotations c sfs grp) sa"
    using sfs_patched_only_with_synced_account [OF example_cluster_fields(1) run] by blast
  then have "in_sync (wanted_sa_annotations (example_team_config False) (example_sfs ''dapla-developers'')
      ''dapla-developers'') sa"
    by (simp del: example_sfs_fields(5) add: example_sfs_fields(5) [of "''dapla-developers''", symmetric])
      (metis Inr_inject example_group_configs(1) example_sfs_fields(1,5) option.inject)
  with run show ?thesis by blast
qed

theorem expired_access_unmounts_everything_witness:
  "\<exists>s' h'. handle example_mutator (example_json (example_sfs ''dapla-data-admins''))
      (example_cluster 30000000000000) example_request [] = (Returns (Patched s'), h') \<and>
    (\<forall>v \<in> set (ps_volumes (sfs_pod s')). \<not> is_bucket_volume v)"
proof -
  obtain s' h' where run: "handle example_mutator (example_json (example_sfs ''dapla-data-admins''))
      (example_cluster 30000000000000) example_request [] = (Returns (Patched s'), h')"
    using example_handle [OF example_group_configs(2) example_expiry(1)] by blast
  from expired_access_unmounts_everything [OF run example_sfs_fields(1,5) example_group_configs(2)]
  have "\<forall>v \<in> set (ps_volumes (sfs_pod s')). \<not> is_bucket_volume v"
    by (simp add: parse_duration_8h)
  with run show ?thesis by blast
qed

lemma example_requested:
  "requested_mounts example_mutator (example_json s) (example_cluster 0) example_request
     (example_team_config False) ''dapla-developers'' (example_sfs ''dapla-developers'') [] = [(''kilde'', ''kilde'')]"
proof -
  have "map_get (sfs_annotations (example_sfs g)) mountSharedBucketsAnnotation = None"
    "map_index (sfs_annotations (example_sfs g)) mountStandardBucketsAnnotation \<noteq> ''true''" for g
    by (simp_all add: example_sfs_def map_index_def annotation_keys)
  then have "fst (bucket_mounts_of m js w team prj (sfs_annotations (example_sfs g)) t) = [(''kilde'', ''kilde'')]"
    for m js w team prj g t
    by (simp add: bucket_mounts_of_def get_extra_bucket_mounts_def)
  then show ?thesis by (simp only: requested_mounts_def Let_def split_beta)
qed


theorem unmount_undoes_mount_witness:
  "unmount_buckets 0 (mount_buckets example_mutator (\<lambda>_. rev) example_buckets 0 (example_sfs ''dapla-developers''))
     = example_sfs ''dapla-developers''"
  by (rule unmount_undoes_mount)
    (use example_pod_ok(1) in \<open>simp_all add: example_pod_def example_container_def is_precreator_def precreatorContainerName_def\<close>)

theorem pod_annotations_ensured_witness:
  "map_get (pod_annotations (ensure_pod_annotations
     \<lparr>pt_meta = empty_meta\<lparr>om_annotations := Some [(''team'', ''a'')]\<rparr>, pt_spec = example_pod\<rparr>)) ''team'' = Some ''a''"
proof -
  let ?t = "\<lparr>pt_meta = empty_meta\<lparr>om_annotations := Some [(''team'', ''a'')]\<rparr>, pt_spec = example_pod\<rparr>"
  have "''team'' \<notin> {istioExcludedIpRangesAnnotation, ''gke-gcsfuse/volumes''}"
    by (simp add: istioExcludedIpRangesAnnotation_def)
  with pod_annotations_ensured [of ?t]
  have "map_get (pod_annotations (ensure_pod_annotations ?t)) ''team'' = map_get (pod_annotations ?t) ''team''"
    by blast
  then show ?thesis by simp
qed

theorem access_expired_before_creation_witness:
  "access_expired (example_team_config True)
     ((example_sfs ''dapla-data-admins'')\<lparr>sfs_meta :=
        (sfs_meta (example_sfs ''dapla-data-admins''))\<lparr>om_creation := zero_time\<rparr>\<rparr>) 1700000000000000000 = Some True"
  by (rule access_expired_before_creation [where d = 28800000000000])
    (simp_all add: parse_duration_8h)

end
