(* ===== verification/ServiceAccount_Controller.thy ===== *)
theory ServiceAccount_Controller
  imports World Common
begin

text \<open>
  \<^verbatim>\<open>internal/controller/serviceaccount_controller.go\<close>: the reconciler that keeps the
  workload-identity binding of a Kubernetes service account in the IAM policy of the
  Google service account of its group. A reconcile returns \<open>(requeue, error)\<close>, or panics.
\<close>

datatype recon_error =
    ApiErr api_error
  | GoogleErr google_error
  | InvalidDuration string
  | IamConcurrencyError
  | ContainerNotFound string

type_synonym reconcile_return = "bool \<times> recon_error option"

record sa_reconciler =
  r_group_sa_project :: string
  r_cluster_project :: string

section \<open>References\<close>

definition to_gcp_sa_ref :: "string \<Rightarrow> string \<Rightarrow> string" where
  "to_gcp_sa_ref projectId groupName =
     ''projects/'' @ projectId @ ''/serviceAccounts/'' @ groupName @ ''@'' @ projectId @
     ''.iam.gserviceaccount.com''"

definition to_k8s_sa_ref :: "string \<Rightarrow> string \<Rightarrow> string \<Rightarrow> string" where
  "to_k8s_sa_ref clusterProjectId namespace name =
     ''serviceAccount:'' @ clusterProjectId @ ''.svc.id.goog['' @ namespace @ ''/'' @ name @ '']''"

definition iam_condition_string :: "world \<Rightarrow> namespaced_name \<Rightarrow> string" where
  "iam_condition_string w nn = iamConditionKey @ ''='' @ w_nn_string w nn"

section \<open>Searching the bindings of a policy\<close>

text \<open>
  Both searches read \<^verbatim>\<open>b.Condition.Title\<close>; a binding without a condition has a nil
  \<^verbatim>\<open>Condition\<close>.
\<close>

fun index_title :: "string \<Rightarrow> iam_binding list \<Rightarrow> nat option outcome" where
  "index_title t [] = Returns None"
| "index_title t (b # bs) =
     (case b_condition b of
        None \<Rightarrow> Panics NilDeref
      | Some c \<Rightarrow>
          if ex_title c = t then Returns (Some 0)
          else bind_outcome (index_title t bs) (\<lambda>i. Returns (map_option Suc i)))"

fun delete_title :: "string \<Rightarrow> iam_binding list \<Rightarrow> iam_binding list outcome" where
  "delete_title t [] = Returns []"
| "delete_title t (b # bs) =
     (case b_condition b of
        None \<Rightarrow> Panics NilDeref
      | Some c \<Rightarrow>
          bind_outcome (delete_title t bs)
            (\<lambda>bs'. Returns (if ex_title c = t then bs' else b # bs')))"

definition binding_incorrect :: "iam_binding \<Rightarrow> iam_binding \<Rightarrow> bool outcome" where
  "binding_incorrect b wanted =
     (let role_bad = (b_role b \<noteq> wiRole)
      in if role_bad \<and> b_condition b = None then Panics NilDeref
         else
           bind_outcome
             (if length (b_members b) \<noteq> 1 then Returns True
              else case b_members wanted of
                [] \<Rightarrow> Panics OutOfRange
              | m # _ \<Rightarrow> Returns (hd (b_members b) \<noteq> m))
             (\<lambda>members_bad.
                case b_condition b of
                  None \<Rightarrow> Panics NilDeref
                | Some c \<Rightarrow>
                    (case b_condition wanted of
                       None \<Rightarrow> Panics NilDeref
                     | Some wc \<Rightarrow>
                         Returns (role_bad \<or> members_bad \<or> ex_expression c \<noteq> ex_expression wc))))"

text \<open>
  \<open>binding\<close> is the index of the binding the caller found, \<open>None\<close> for a nil pointer; the
  result is \<^verbatim>\<open>modified\<close> and the bindings of the policy.
\<close>

definition ensure_correct_binding ::
  "iam_binding list \<Rightarrow> nat option \<Rightarrow> iam_binding option \<Rightarrow> (bool \<times> iam_binding list) outcome" where
  "ensure_correct_binding bs binding wanted =
     (case binding of
        None \<Rightarrow>
          (case wanted of
             None \<Rightarrow> Returns (False, bs)
           | Some wb \<Rightarrow> Returns (True, bs @ [wb]))
      | Some i \<Rightarrow>
          (case wanted of
             None \<Rightarrow>
               (case b_condition (bs ! i) of
                  None \<Rightarrow> Panics NilDeref
                | Some c \<Rightarrow> bind_outcome (delete_title (ex_title c) bs) (\<lambda>bs'. Returns (True, bs')))
           | Some wb \<Rightarrow>
               bind_outcome (binding_incorrect (bs ! i) wb)
                 (\<lambda>bad. Returns (if bad then (True, bs[i := wb]) else (False, bs)))))"

section \<open>Writing the policy\<close>

definition update_iam_policy ::
  "world \<Rightarrow> iam_policy \<Rightarrow> string \<Rightarrow> history \<Rightarrow> reconcile_return \<times> history" where
  "update_iam_policy w policy gcpSaRef h0 =
     (let policy' = policy\<lparr>p_version := 3\<rparr>;
          (reply, h1) = call_set_iam w gcpSaRef policy' h0;
          (status, err) = reply
      in if status = Some 409 then ((True, Some IamConcurrencyError), h1)
         else ((False, map_option GoogleErr err), h1))"

definition is_google_not_found :: "google_error \<Rightarrow> bool" where
  "is_google_not_found e \<longleftrightarrow> e = GoogleApi 404"

section \<open>The binding of one service account\<close>

text \<open>
  The condition of the binding: always true without a requested duration, and a bound on
  the request time, the creation of the service account plus the duration, with one.
\<close>

definition expiration_expr :: "service_account \<Rightarrow> recon_error + string" where
  "expiration_expr sa =
     (let d = map_index (sa_annotations sa) requestedServiceDurationAnnotation
      in if d \<noteq> [] then
           (case parse_duration d of
              None \<Rightarrow> Inl (InvalidDuration d)
            | Some parsed \<Rightarrow>
                Inr (''request.time < timestamp('' @ [CHR 0x27] @
                     rfc3339_utc (om_creation (sa_meta sa) + parsed) @ [CHR 0x27] @ '')''))
         else Inr ''true'')"

definition wanted_binding :: "sa_reconciler \<Rightarrow> world \<Rightarrow> namespaced_name \<Rightarrow> string \<Rightarrow> iam_binding" where
  "wanted_binding r w nn expr =
     \<lparr>b_role = wiRole,
      b_members = [to_k8s_sa_ref (r_cluster_project r) (nn_namespace nn) (nn_name nn)],
      b_condition = Some \<lparr>ex_title = iam_condition_string w nn, ex_expression = expr, ex_other = []\<rparr>\<rparr>"

definition handle_gcp_sa ::
  "sa_reconciler \<Rightarrow> world \<Rightarrow> service_account \<Rightarrow> string \<Rightarrow> namespaced_name \<Rightarrow> history
     \<Rightarrow> reconcile_return outcome \<times> history" where
  "handle_gcp_sa r w sa grp nn h0 =
     (let gcpSaRef = to_gcp_sa_ref (r_group_sa_project r) grp;
          (got, h1) = call_get_iam w gcpSaRef h0
      in case got of
           Inl e \<Rightarrow>
             if is_google_not_found e then (Returns (False, None), h1)
             else (Returns (False, Some (GoogleErr e)), h1)
         | Inr read \<Rightarrow>
             (case expiration_expr sa of
                Inl e \<Rightarrow> (Returns (False, Some e), h1)
              | Inr expr \<Rightarrow>
                  let policy = (case read of None \<Rightarrow> empty_policy | Some p \<Rightarrow> p)
                  in case bind_outcome (index_title (iam_condition_string w nn) (p_bindings policy))
                            (\<lambda>i. ensure_correct_binding (p_bindings policy) i
                                   (Some (wanted_binding r w nn expr))) of
                       Panics k \<Rightarrow> (Panics k, h1)
                     | Returns (modified, bs) \<Rightarrow>
                         if \<not> modified then (Returns (False, None), h1)
                         else let (ret, h2) = update_iam_policy w (policy\<lparr>p_bindings := bs\<rparr>) gcpSaRef h1
                              in (Returns ret, h2)))"

definition remove_iam_binding ::
  "sa_reconciler \<Rightarrow> world \<Rightarrow> string \<Rightarrow> namespaced_name \<Rightarrow> history
     \<Rightarrow> reconcile_return outcome \<times> history" where
  "remove_iam_binding r w grp nn h0 =
     (let gcpSaRef = to_gcp_sa_ref (r_group_sa_project r) grp;
          (got, h1) = call_get_iam w gcpSaRef h0
      in case got of
           Inl e \<Rightarrow>
             if is_google_not_found e then (Returns (False, None), h1)
             else (Returns (False, Some (GoogleErr e)), h1)
         | Inr None \<Rightarrow> (Returns (False, None), h1)
         | Inr (Some policy) \<Rightarrow>
             (case delete_title (iam_condition_string w nn) (p_bindings policy) of
                Panics k \<Rightarrow> (Panics k, h1)
              | Returns bs \<Rightarrow>
                  if length bs = length (p_bindings policy) then (Returns (False, None), h1)
                  else let (ret, h2) = update_iam_policy w (policy\<lparr>p_bindings := bs\<rparr>) gcpSaRef h1
                       in (Returns ret, h2)))"

section \<open>Reconcile\<close>

text \<open>Adding the finalizer to an object that is not being deleted.\<close>

definition ensure_sa_finalizer ::
  "world \<Rightarrow> service_account \<Rightarrow> history \<Rightarrow> (recon_error + service_account) \<times> history" where
  "ensure_sa_finalizer w sa h0 =
     (let fs = om_finalizers (sa_meta sa)
      in if w_contains_finalizer w fs finalizerName then (Inr sa, h0)
         else
           let (fs', added) = w_add_finalizer w fs finalizerName; sa' = set_sa_finalizers fs' sa
           in if \<not> added then (Inr sa', h0)
              else case call_update_sa w sa' h0 of
                (Inl e, h1) \<Rightarrow> (Inl (ApiErr e), h1)
              | (Inr sa'', h1) \<Rightarrow> (Inr sa'', h1))"

text \<open>The object is being deleted: drop the binding, then the finalizer.\<close>

definition finalize_sa ::
  "sa_reconciler \<Rightarrow> world \<Rightarrow> service_account \<Rightarrow> string \<Rightarrow> namespaced_name \<Rightarrow> history
     \<Rightarrow> reconcile_return outcome \<times> history" where
  "finalize_sa r w sa grp nn h0 =
     (let fs = om_finalizers (sa_meta sa)
      in if \<not> w_contains_finalizer w fs finalizerName then (Returns (False, None), h0)
         else
           case remove_iam_binding r w grp nn h0 of
             (Panics k, h1) \<Rightarrow> (Panics k, h1)
           | (Returns (res, Some e), h1) \<Rightarrow> (Returns (res, Some e), h1)
           | (Returns (res, None), h1) \<Rightarrow>
               (let (fs', removed) = w_remove_finalizer w fs finalizerName
                in if \<not> removed then (Returns (False, None), h1)
                   else case call_update_sa w (set_sa_finalizers fs' sa) h1 of
                     (Inl e, h2) \<Rightarrow> (Returns (False, Some (ApiErr e)), h2)
                   | (Inr _, h2) \<Rightarrow> (Returns (False, None), h2)))"

definition gcp_sa_email :: "sa_reconciler \<Rightarrow> string \<Rightarrow> string" where
  "gcp_sa_email r grp = grp @ ''@'' @ r_group_sa_project r @ ''.iam.gserviceaccount.com''"

text \<open>Adding the GKE workload-identity annotation.\<close>

definition annotate_sa ::
  "sa_reconciler \<Rightarrow> world \<Rightarrow> service_account \<Rightarrow> string \<Rightarrow> history
     \<Rightarrow> reconcile_return outcome \<times> history" where
  "annotate_sa r w sa grp h0 =
     (let gcpSa = gcp_sa_email r grp
      in if map_index (sa_annotations sa) gkeWIAnnotation = gcpSa then (Returns (False, None), h0)
         else
           case map_put gkeWIAnnotation gcpSa (sa_annotations sa) of
             Panics k \<Rightarrow> (Panics k, h0)
           | Returns m \<Rightarrow>
               (case call_update_sa w (set_sa_annotations m sa) h0 of
                  (Inl e, h1) \<Rightarrow>
                    if e = Conflict then (Returns (True, None), h1)
                    else (Returns (False, Some (ApiErr e)), h1)
                | (Inr _, h1) \<Rightarrow> (Returns (False, None), h1)))"

definition sa_reconcile ::
  "sa_reconciler \<Rightarrow> world \<Rightarrow> namespaced_name \<Rightarrow> history \<Rightarrow> reconcile_return outcome \<times> history" where
  "sa_reconcile r w nn h0 =
     (case call_get_sa w nn h0 of
        (Inl e, h1) \<Rightarrow>
          if e = NotFound then (Returns (False, None), h1)
          else (Returns (False, Some (ApiErr e)), h1)
      | (Inr sa, h1) \<Rightarrow>
          (case map_get (sa_annotations sa) impersonateGroupAnnotation of
             None \<Rightarrow> (Returns (False, None), h1)
           | Some grp \<Rightarrow>
               if \<not> time_ptr_is_zero (om_deletion (sa_meta sa)) then finalize_sa r w sa grp nn h1
               else
                 case ensure_sa_finalizer w sa h1 of
                   (Inl e, h2) \<Rightarrow> (Returns (False, Some e), h2)
                 | (Inr sa', h2) \<Rightarrow>
                     (case handle_gcp_sa r w sa' grp nn h2 of
                        (Panics k, h3) \<Rightarrow> (Panics k, h3)
                      | (Returns (res, Some e), h3) \<Rightarrow> (Returns (res, Some e), h3)
                      | (Returns (res, None), h3) \<Rightarrow> annotate_sa r w sa' grp h3)))"

lemmas sa_handlers [handler_defs] =
  sa_reconcile_def finalize_sa_def ensure_sa_finalizer_def annotate_sa_def handle_gcp_sa_def
  remove_iam_binding_def update_iam_policy_def

section \<open>Lemmas on bindings\<close>

definition has_title :: "string \<Rightarrow> iam_binding \<Rightarrow> bool" where
  "has_title t b \<longleftrightarrow> (case b_condition b of None \<Rightarrow> False | Some c \<Rightarrow> ex_title c = t)"

definition all_conditions :: "iam_binding list \<Rightarrow> bool" where
  "all_conditions bs \<longleftrightarrow> (\<forall>b \<in> set bs. b_condition b \<noteq> None)"

lemma index_title_returns:
  "index_title t bs = Returns i \<Longrightarrow> i = index_func (has_title t) bs"
  by (induction bs arbitrary: i)
    (auto simp: has_title_def split: option.splits if_splits)

lemma index_title_all_conditions:
  "all_conditions bs \<Longrightarrow> index_title t bs = Returns (index_func (has_title t) bs)"
  by (induction bs) (auto simp: all_conditions_def has_title_def)

lemma delete_title_returns_iff:
  "delete_title t bs = Returns bs' \<longleftrightarrow> all_conditions bs \<and> bs' = delete_func (has_title t) bs"
  by (induction bs arbitrary: bs')
    (auto simp: all_conditions_def has_title_def delete_func_def split: option.splits)

lemma delete_title_panics_kind: "delete_title t bs = Panics k \<Longrightarrow> k = NilDeref"
  by (induction bs) (auto simp: bind_outcome_Panics_iff split: option.splits)

lemma delete_title_panics_iff:
  "delete_title t bs = Panics k \<longleftrightarrow> \<not> all_conditions bs \<and> k = NilDeref"
proof (cases "delete_title t bs")
  case (Returns bs')
  moreover from Returns have "all_conditions bs"
    by (simp add: delete_title_returns_iff)
  ultimately show ?thesis by simp
next
  case (Panics k')
  then have "k' = NilDeref" by (rule delete_title_panics_kind)
  moreover have "\<not> all_conditions bs"
    using Panics delete_title_returns_iff [of t bs "delete_func (has_title t) bs"] by auto
  ultimately show ?thesis using Panics by auto
qed

text \<open>
  The lookup panics exactly when a binding without a condition comes before the first
  binding with the title.
\<close>

lemma index_title_panics_iff:
  "index_title t bs = Panics k \<longleftrightarrow>
     k = NilDeref \<and>
     (\<exists>i < length bs. b_condition (bs ! i) = None \<and> (\<forall>j < i. \<not> has_title t (bs ! j)))"
proof (induction bs)
  case Nil
  then show ?case by simp
next
  case (Cons b bs)
  show ?case
  proof (cases "b_condition b")
    case None
    then show ?thesis by (auto intro!: exI [of _ 0])
  next
    case (Some c)
    show ?thesis
    proof (cases "ex_title c = t")
      case True
      with Some have "has_title t b" by (simp add: has_title_def)
      have "\<not> (\<exists>i < length (b # bs). b_condition ((b # bs) ! i) = None \<and>
              (\<forall>j < i. \<not> has_title t ((b # bs) ! j)))"
      proof
        assume "\<exists>i < length (b # bs). b_condition ((b # bs) ! i) = None \<and>
              (\<forall>j < i. \<not> has_title t ((b # bs) ! j))"
        then obtain i where i: "b_condition ((b # bs) ! i) = None"
          "\<forall>j < i. \<not> has_title t ((b # bs) ! j)" by blast
        from i(1) Some have "0 < i" by (cases i) auto
        with i(2) \<open>has_title t b\<close> show False by auto
      qed
      with Some True show ?thesis by simp
    next
      case False
      with Some have "\<not> has_title t b" by (simp add: has_title_def)
      with Some have "(\<exists>i < length (b # bs). b_condition ((b # bs) ! i) = None \<and>
              (\<forall>j < i. \<not> has_title t ((b # bs) ! j))) \<longleftrightarrow>
            (\<exists>i < length bs. b_condition (bs ! i) = None \<and> (\<forall>j < i. \<not> has_title t (bs ! j)))"
        by (auto simp: Ex_less_Suc2 All_less_Suc2)
      with Some False Cons show ?thesis by (simp add: bind_outcome_Panics_iff)
    qed
  qed
qed

text \<open>What the binding of a service account must say, compared as the code compares it.\<close>

definition grants_as :: "iam_binding \<Rightarrow> iam_binding \<Rightarrow> bool" where
  "grants_as wanted b \<longleftrightarrow>
     b_role b = b_role wanted \<and> b_members b = b_members wanted \<and>
     map_option ex_expression (b_condition b) = map_option ex_expression (b_condition wanted)"

definition wanted_ok :: "string \<Rightarrow> iam_binding \<Rightarrow> bool" where
  "wanted_ok t wb \<longleftrightarrow> b_role wb = wiRole \<and> length (b_members wb) = 1 \<and> has_title t wb"

lemma wanted_binding_ok [simp]:
  "wanted_ok (iam_condition_string w nn) (wanted_binding r w nn expr)"
  by (simp add: wanted_ok_def wanted_binding_def has_title_def)

lemma binding_incorrect_eq:
  assumes "wanted_ok t wb" and "has_title t b"
  shows "binding_incorrect b wb = Returns (\<not> grants_as wb b)"
proof -
  obtain m where m: "b_members wb = [m]"
    using assms(1) by (cases "b_members wb") (auto simp: wanted_ok_def)
  obtain c wc where c: "b_condition b = Some c" "b_condition wb = Some wc"
    using assms by (auto simp: wanted_ok_def has_title_def split: option.splits)
  have "length (b_members b) \<noteq> 1 \<or> hd (b_members b) \<noteq> m \<longleftrightarrow> b_members b \<noteq> [m]"
    by (cases "b_members b") auto
  with m c assms(1) show ?thesis
    by (auto simp: binding_incorrect_def grants_as_def wanted_ok_def Let_def)
qed

lemma filter_update_other:
  assumes "i < length xs" and "\<not> P (xs ! i)" and "\<not> P y"
  shows "filter P (xs[i := y]) = filter P xs"
  using assms by (simp add: upd_conv_take_nth_drop) (metis (no_types, lifting) filter.simps(2)
      filter_append id_take_nth_drop)

text \<open>
  Finding the binding and correcting it: the other bindings keep their content and order,
  the first binding of this title is the wanted one, and the flag tells whether anything
  changed.
\<close>

lemma ensure_correct_binding_spec:
  assumes "bind_outcome (index_title t bs) (\<lambda>i. ensure_correct_binding bs i (Some wb)) = Returns (m, bs')"
    and "wanted_ok t wb"
  shows "filter (\<lambda>b. \<not> has_title t b) bs' = filter (\<lambda>b. \<not> has_title t b) bs"
    and "\<exists>i. index_func (has_title t) bs' = Some i \<and> grants_as wb (bs' ! i)"
    and "m \<longleftrightarrow> bs' \<noteq> bs"
proof -
  have wt: "has_title t wb" using assms(2) by (simp add: wanted_ok_def)
  obtain i where i: "index_title t bs = Returns i"
    and ens: "ensure_correct_binding bs i (Some wb) = Returns (m, bs')"
    using assms(1) by auto
  have idx: "i = index_func (has_title t) bs" using index_title_returns [OF i] .
  have "filter (\<lambda>b. \<not> has_title t b) bs' = filter (\<lambda>b. \<not> has_title t b) bs
    \<and> (\<exists>i. index_func (has_title t) bs' = Some i \<and> grants_as wb (bs' ! i)) \<and> (m \<longleftrightarrow> bs' \<noteq> bs)"
  proof (cases i)
    case None
    with ens idx wt show ?thesis
      by (auto simp: ensure_correct_binding_def index_func_append grants_as_def)
  next
    case (Some k)
    with idx have k: "k < length bs" "has_title t (bs ! k)"
      using index_func_SomeD [of "has_title t" bs k] by auto
    have inc: "binding_incorrect (bs ! k) wb = Returns (\<not> grants_as wb (bs ! k))"
      using assms(2) k(2) by (rule binding_incorrect_eq)
    show ?thesis
    proof (cases "grants_as wb (bs ! k)")
      case True
      with ens Some inc idx show ?thesis
        by (auto simp: ensure_correct_binding_def)
    next
      case False
      with ens Some inc have m: "m" and bs': "bs' = bs[k := wb]"
        by (auto simp: ensure_correct_binding_def)
      have "index_func (has_title t) bs' = Some k"
        unfolding bs' using idx Some wt by (metis index_func_update)
      moreover have "grants_as wb (bs' ! k)" using k(1) by (simp add: bs' grants_as_def)
      moreover have "bs' \<noteq> bs"
        using False k(1) \<open>grants_as wb (bs' ! k)\<close> by auto
      moreover have "filter (\<lambda>b. \<not> has_title t b) bs' = filter (\<lambda>b. \<not> has_title t b) bs"
        unfolding bs' using k wt by (intro filter_update_other) auto
      ultimately show ?thesis using m by blast
    qed
  qed
  then show "filter (\<lambda>b. \<not> has_title t b) bs' = filter (\<lambda>b. \<not> has_title t b) bs"
    and "\<exists>i. index_func (has_title t) bs' = Some i \<and> grants_as wb (bs' ! i)"
    and "m \<longleftrightarrow> bs' \<noteq> bs"
    by blast+
qed

text \<open>A policy that already says so is left alone.\<close>

lemma ensure_correct_binding_steady:
  assumes "index_title t bs = Returns (Some i)" and "grants_as wb (bs ! i)" and "wanted_ok t wb"
  shows "bind_outcome (index_title t bs) (\<lambda>i. ensure_correct_binding bs i (Some wb)) = Returns (False, bs)"
proof -
  have "has_title t (bs ! i)"
    using index_title_returns [OF assms(1)] index_func_SomeD(2) [of "has_title t" bs i] by simp
  then have "binding_incorrect (bs ! i) wb = Returns False"
    using binding_incorrect_eq [OF assms(3)] assms(2) by simp
  with assms(1) show ?thesis by (simp add: ensure_correct_binding_def)
qed

section \<open>What the IAM handlers do\<close>

definition policy_or_empty :: "iam_policy option \<Rightarrow> iam_policy" where
  "policy_or_empty p = (case p of None \<Rightarrow> empty_policy | Some q \<Rightarrow> q)"

text \<open>The written policy against the one read: same etag, same bindings of others.\<close>

definition policy_frame :: "string \<Rightarrow> iam_policy option \<Rightarrow> iam_policy \<Rightarrow> bool" where
  "policy_frame t read p \<longleftrightarrow>
     p_version p = 3 \<and> p_etag p = p_etag (policy_or_empty read) \<and>
     filter (\<lambda>b. \<not> has_title t b) (p_bindings p) =
       filter (\<lambda>b. \<not> has_title t b) (p_bindings (policy_or_empty read))"

definition ensured ::
  "sa_reconciler \<Rightarrow> world \<Rightarrow> namespaced_name \<Rightarrow> string \<Rightarrow> iam_policy option
     \<Rightarrow> (bool \<times> iam_binding list) outcome" where
  "ensured r w nn expr read =
     bind_outcome (index_title (iam_condition_string w nn) (p_bindings (policy_or_empty read)))
       (\<lambda>i. ensure_correct_binding (p_bindings (policy_or_empty read)) i
              (Some (wanted_binding r w nn expr)))"

lemma handle_gcp_sa_run:
  fixes r :: sa_reconciler and grp :: string and ref
  defines "ref \<equiv> to_gcp_sa_ref (r_group_sa_project r) grp"
  assumes "w_get_iam w h0 ref = Inr read" and "expiration_expr sa = Inr expr"
  shows "handle_gcp_sa r w sa grp nn h0 =
      (case ensured r w nn expr read of
         Panics k \<Rightarrow> (Panics k, h0 @ [GetIamPolicy ref])
       | Returns (modified, bs) \<Rightarrow>
           if \<not> modified then (Returns (False, None), h0 @ [GetIamPolicy ref])
           else let (ret, h2) = update_iam_policy w ((policy_or_empty read)\<lparr>p_bindings := bs\<rparr>) ref
                                  (h0 @ [GetIamPolicy ref])
                in (Returns ret, h2))"
  using assms(2,3)
  unfolding handle_gcp_sa_def call_get_iam_def ref_def ensured_def policy_or_empty_def Let_def
  by simp

lemma handle_gcp_sa_early:
  fixes r :: sa_reconciler and grp :: string and ref
  defines "ref \<equiv> to_gcp_sa_ref (r_group_sa_project r) grp"
  shows "w_get_iam w h0 ref = Inl e \<Longrightarrow> handle_gcp_sa r w sa grp nn h0 =
      (Returns (False, if is_google_not_found e then None else Some (GoogleErr e)),
       h0 @ [GetIamPolicy ref])"
    and "w_get_iam w h0 ref = Inr read \<Longrightarrow> expiration_expr sa = Inl x \<Longrightarrow>
      handle_gcp_sa r w sa grp nn h0 = (Returns (False, Some x), h0 @ [GetIamPolicy ref])"
  unfolding ref_def by (simp_all add: handle_gcp_sa_def call_get_iam_def Let_def)

lemma ensured_spec:
  fixes w nn t
  defines "t \<equiv> iam_condition_string w nn"
  assumes "ensured r w nn expr read = Returns (m, bs)"
  shows "filter (\<lambda>b. \<not> has_title t b) bs
           = filter (\<lambda>b. \<not> has_title t b) (p_bindings (policy_or_empty read))"
    and "\<exists>i. index_func (has_title t) bs = Some i \<and> grants_as (wanted_binding r w nn expr) (bs ! i)"
    and "m \<longleftrightarrow> bs \<noteq> p_bindings (policy_or_empty read)"
  using ensure_correct_binding_spec [OF assms(2) [unfolded ensured_def] wanted_binding_ok]
  unfolding t_def by blast+

lemma handle_gcp_sa_trace:
  fixes r :: sa_reconciler and w :: world and grp :: string and nn :: namespaced_name and ref t
  defines "ref \<equiv> to_gcp_sa_ref (r_group_sa_project r) grp" and "t \<equiv> iam_condition_string w nn"
  obtains (read) "snd (handle_gcp_sa r w sa grp nn h0) = h0 @ [GetIamPolicy ref]"
  | (wrote) read p where
      "snd (handle_gcp_sa r w sa grp nn h0) = h0 @ [GetIamPolicy ref, SetIamPolicy ref p]"
      "w_get_iam w h0 ref = Inr read" "policy_frame t read p"
proof -
  consider e where "w_get_iam w h0 ref = Inl e"
    | read x where "w_get_iam w h0 ref = Inr read" "expiration_expr sa = Inl x"
    | read expr where "w_get_iam w h0 ref = Inr read" "expiration_expr sa = Inr expr"
    by (metis sum.exhaust)
  then show thesis
  proof cases
    case 1
    then show ?thesis using read handle_gcp_sa_early(1) [of w h0 r grp e] by (simp add: ref_def)
  next
    case 2
    then show ?thesis using read handle_gcp_sa_early(2) [of w h0 r grp] by (simp add: ref_def)
  next
    case 3
    note run = handle_gcp_sa_run [OF 3(1) [unfolded ref_def] 3(2), folded ref_def]
    show ?thesis
    proof (cases "ensured r w nn expr read")
      case (Panics k)
      with run show ?thesis using read by simp
    next
      case (Returns mb)
      then obtain m bs where ens: "ensured r w nn expr read = Returns (m, bs)" by (cases mb) auto
      let ?p = "(policy_or_empty read)\<lparr>p_bindings := bs, p_version := 3\<rparr>"
      have "policy_frame t read ?p"
        using ensured_spec(1) [OF ens] by (simp add: policy_frame_def t_def)
      moreover have "snd (handle_gcp_sa r w sa grp nn h0) = h0 @ [GetIamPolicy ref] \<or>
          snd (handle_gcp_sa r w sa grp nn h0) = h0 @ [GetIamPolicy ref, SetIamPolicy ref ?p]"
        using run ens
        by (simp add: update_iam_policy_def call_set_iam_def Let_def split: prod.split)
      ultimately show ?thesis using read wrote 3(1) by blast
    qed
  qed
qed

lemma remove_iam_binding_trace:
  fixes r :: sa_reconciler and w :: world and grp :: string and nn :: namespaced_name and ref t
  defines "ref \<equiv> to_gcp_sa_ref (r_group_sa_project r) grp" and "t \<equiv> iam_condition_string w nn"
  obtains (read) "snd (remove_iam_binding r w grp nn h0) = h0 @ [GetIamPolicy ref]"
  | (wrote) read p where
      "snd (remove_iam_binding r w grp nn h0) = h0 @ [GetIamPolicy ref, SetIamPolicy ref p]"
      "w_get_iam w h0 ref = Inr read" "policy_frame t read p"
      "\<forall>b \<in> set (p_bindings p). \<not> has_title t b"
proof (cases "w_get_iam w h0 ref")
  case (Inl e)
  then show ?thesis using read
    by (simp add: remove_iam_binding_def call_get_iam_def ref_def Let_def split: if_splits)
next
  case got: (Inr read_pol)
  show ?thesis
  proof (cases read_pol)
    case None
    with got show ?thesis using read
      by (simp add: remove_iam_binding_def call_get_iam_def ref_def)
  next
    case (Some pol)
    show ?thesis
    proof (cases "delete_title t (p_bindings pol)")
      case (Panics k)
      with got Some show ?thesis using read
        by (simp add: remove_iam_binding_def call_get_iam_def ref_def t_def)
    next
      case (Returns bs)
      then have bs: "bs = delete_func (has_title t) (p_bindings pol)"
        by (simp add: delete_title_returns_iff)
      show ?thesis
      proof (cases "length bs = length (p_bindings pol)")
        case True
        with got Some Returns show ?thesis using read
          by (simp add: remove_iam_binding_def call_get_iam_def ref_def t_def)
      next
        case False
        let ?p = "pol\<lparr>p_bindings := bs, p_version := 3\<rparr>"
        have "snd (remove_iam_binding r w grp nn h0) = h0 @ [GetIamPolicy ref, SetIamPolicy ref ?p]"
          using got Some Returns False
          by (simp add: remove_iam_binding_def call_get_iam_def ref_def t_def
              update_iam_policy_def call_set_iam_def Let_def split: prod.split)
        moreover have "policy_frame t read_pol ?p"
          using Some bs by (simp add: policy_frame_def policy_or_empty_def delete_func_def)
        ultimately show ?thesis using wrote got bs by (simp add: delete_func_def)
      qed
    qed
  qed
qed

section \<open>The shape of a reconcile\<close>

primrec is_iam_event :: "event \<Rightarrow> bool" where
  "is_iam_event (GetIamPolicy ref) = True"
| "is_iam_event (SetIamPolicy ref p) = True"
| "is_iam_event (GetSA nn) = False"
| "is_iam_event (UpdateSA sa) = False"
| "is_iam_event (GetJob nn) = False"
| "is_iam_event (UpdateJob j) = False"
| "is_iam_event (DeleteJob j) = False"
| "is_iam_event (CreateJob j) = False"
| "is_iam_event (GetSfs nn) = False"
| "is_iam_event (UpdateSfs s) = False"
| "is_iam_event (CreateConfigMap c) = False"
| "is_iam_event (ListFolders s) = False"
| "is_iam_event (SearchProjects s) = False"
| "is_iam_event (ListBuckets a b) = False"

abbreviation iam_free :: "event list \<Rightarrow> bool" where
  "iam_free evs \<equiv> list_all (\<lambda>e. \<not> is_iam_event e) evs"

lemma ensure_sa_finalizer_cases:
  obtains (present) "ensure_sa_finalizer w sa h0 = (Inr sa, h0)"
      "w_contains_finalizer w (om_finalizers (sa_meta sa)) finalizerName"
  | (unchanged) sa' where "ensure_sa_finalizer w sa h0 = (Inr sa', h0)"
      "\<not> w_contains_finalizer w (om_finalizers (sa_meta sa)) finalizerName"
      "\<not> snd (w_add_finalizer w (om_finalizers (sa_meta sa)) finalizerName)"
  | (failed) e sa' where "ensure_sa_finalizer w sa h0 = (Inl (ApiErr e), h0 @ [UpdateSA sa'])"
  | (added) sa' sa'' where "ensure_sa_finalizer w sa h0 = (Inr sa'', h0 @ [UpdateSA sa'])"
      "sa' = set_sa_finalizers (fst (w_add_finalizer w (om_finalizers (sa_meta sa)) finalizerName)) sa"
      "w_update_sa w h0 sa' = Inr sa''"
proof (cases "w_contains_finalizer w (om_finalizers (sa_meta sa)) finalizerName")
  case True
  then show ?thesis using present by (simp add: ensure_sa_finalizer_def)
next
  case False
  obtain fs' ok where add: "w_add_finalizer w (om_finalizers (sa_meta sa)) finalizerName = (fs', ok)"
    by fastforce
  show ?thesis
  proof (cases ok)
    case False
    with \<open>\<not> w_contains_finalizer _ _ _\<close> add show ?thesis
      using unchanged by (simp add: ensure_sa_finalizer_def Let_def)
  next
    case True
    with \<open>\<not> w_contains_finalizer _ _ _\<close> add show ?thesis
      using failed added
      by (cases "w_update_sa w h0 (set_sa_finalizers fs' sa)")
        (simp_all add: ensure_sa_finalizer_def call_update_sa_def Let_def)
  qed
qed

lemma annotate_sa_trace:
  "\<exists>post. snd (annotate_sa r w sa grp h0) = h0 @ post \<and> iam_free post"
  by (auto simp: annotate_sa_def call_update_sa_def Let_def split: outcome.split sum.split)

lemma finalize_sa_trace:
  obtains (absent) "snd (finalize_sa r w sa grp nn h0) = h0"
  | (bound) post where
      "snd (finalize_sa r w sa grp nn h0) = snd (remove_iam_binding r w grp nn h0) @ post"
      "iam_free post"
proof (cases "w_contains_finalizer w (om_finalizers (sa_meta sa)) finalizerName")
  case False
  then show ?thesis using absent by (simp add: finalize_sa_def)
next
  case True
  obtain o1 h1 where rm: "remove_iam_binding r w grp nn h0 = (o1, h1)" by fastforce
  have "\<exists>post. snd (finalize_sa r w sa grp nn h0) = h1 @ post \<and> iam_free post"
    using True rm
    by (auto simp: finalize_sa_def call_update_sa_def Let_def
        split: outcome.split option.split sum.split prod.split)
  then show ?thesis using bound rm by auto
qed

lemma finalize_sa_writes:
  assumes "finalizer_laws w"
    and "UpdateSA sa' \<in> set (new_events h0 (snd (finalize_sa r w sa grp nn h0)))"
  obtains iam res where
    "snd (remove_iam_binding r w grp nn h0) = h0 @ iam"
    "fst (remove_iam_binding r w grp nn h0) = Returns (res, None)"
    "sa' = set_sa_finalizers (fst (w_remove_finalizer w (om_finalizers (sa_meta sa)) finalizerName)) sa"
    "snd (finalize_sa r w sa grp nn h0) = h0 @ iam @ [UpdateSA sa']"
proof -
  let ?fs = "om_finalizers (sa_meta sa)"
  let ?upd = "set_sa_finalizers (fst (w_remove_finalizer w ?fs finalizerName)) sa"
  have has: "finalizerName \<in> set ?fs"
  proof (rule ccontr)
    assume "finalizerName \<notin> set ?fs"
    with assms show False by (simp add: finalize_sa_def finalizer_lawsD Let_def)
  qed
  obtain iam where iam: "snd (remove_iam_binding r w grp nn h0) = h0 @ iam"
      "UpdateSA sa' \<notin> set iam"
    by (cases rule: remove_iam_binding_trace [of r w grp nn h0]) auto
  obtain out where rm: "remove_iam_binding r w grp nn h0 = (out, h0 @ iam)"
    using iam(1) by (metis prod.collapse)
  obtain fs' where rf: "w_remove_finalizer w ?fs finalizerName = (fs', True)"
    using has finalizer_lawsD(4) [OF assms(1)] by (metis prod.collapse)
  show thesis
  proof (cases out)
    case (Panics k)
    with has rm iam(2) assms show thesis by (simp add: finalize_sa_def finalizer_lawsD Let_def)
  next
    case (Returns rv)
    obtain res err where rv: "rv = (res, err)" by (cases rv)
    show thesis
    proof (cases err)
      case (Some e)
      with Returns rv has rm iam(2) assms show thesis
        by (simp add: finalize_sa_def finalizer_lawsD Let_def)
    next
      case None
      have eq: "snd (finalize_sa r w sa grp nn h0) = h0 @ iam @ [UpdateSA ?upd]"
        using Returns rv None has rm rf assms(1)
        by (simp add: finalize_sa_def finalizer_lawsD(1) call_update_sa_def Let_def split: sum.split)
      then have "sa' = ?upd" using assms(2) iam(2) by auto
      with that eq rm Returns rv None show thesis by simp
    qed
  qed
qed

text \<open>
  Three shapes: no IAM call at all; the binding is ensured, after the finalizer and
  before the annotation; or the object is being deleted and its binding removed.
\<close>

lemma sa_reconcile_cases:
  obtains (no_iam) evs where "snd (sa_reconcile r w nn h) = h @ GetSA nn # evs" "iam_free evs"
  | (live) sa grp sa' pre post where
      "w_get_sa w h nn = Inr sa"
      "map_get (sa_annotations sa) impersonateGroupAnnotation = Some grp"
      "time_ptr_is_zero (om_deletion (sa_meta sa))"
      "ensure_sa_finalizer w sa (h @ [GetSA nn]) = (Inr sa', h @ GetSA nn # pre)" "iam_free pre"
      "snd (sa_reconcile r w nn h) = snd (handle_gcp_sa r w sa' grp nn (h @ GetSA nn # pre)) @ post"
      "iam_free post"
  | (dying) sa grp post where
      "w_get_sa w h nn = Inr sa"
      "map_get (sa_annotations sa) impersonateGroupAnnotation = Some grp"
      "\<not> time_ptr_is_zero (om_deletion (sa_meta sa))"
      "snd (sa_reconcile r w nn h) = snd (remove_iam_binding r w grp nn (h @ [GetSA nn])) @ post"
      "iam_free post"
proof (cases "w_get_sa w h nn")
  case (Inl e)
  then show ?thesis using no_iam [of "[]"]
    by (simp add: sa_reconcile_def call_get_sa_def)
next
  case got: (Inr sa)
  show ?thesis
  proof (cases "map_get (sa_annotations sa) impersonateGroupAnnotation")
    case None
    with got show ?thesis using no_iam [of "[]"]
      by (simp add: sa_reconcile_def call_get_sa_def)
  next
    case grp: (Some grp)
    show ?thesis
    proof (cases "time_ptr_is_zero (om_deletion (sa_meta sa))")
      case False
      then have eq: "sa_reconcile r w nn h = finalize_sa r w sa grp nn (h @ [GetSA nn])"
        using got grp by (simp add: sa_reconcile_def call_get_sa_def)
      show ?thesis
      proof (cases rule: finalize_sa_trace [of r w sa grp nn "h @ [GetSA nn]"])
        case absent
        then show ?thesis using no_iam [of "[]"] eq by simp
      next
        case (bound post)
        then show ?thesis using dying [OF got grp False] eq by simp
      qed
    next
      case True
      have run: "sa_reconcile r w nn h =
          (case ensure_sa_finalizer w sa (h @ [GetSA nn]) of
             (Inl e, h2) \<Rightarrow> (Returns (False, Some e), h2)
           | (Inr sa', h2) \<Rightarrow>
               (case handle_gcp_sa r w sa' grp nn h2 of
                  (Panics k, h3) \<Rightarrow> (Panics k, h3)
                | (Returns (res, Some e), h3) \<Rightarrow> (Returns (res, Some e), h3)
                | (Returns (res, None), h3) \<Rightarrow> annotate_sa r w sa' grp h3))"
        using got grp True by (simp add: sa_reconcile_def call_get_sa_def)
      have fin: "\<exists>evs. snd (ensure_sa_finalizer w sa (h @ [GetSA nn])) = h @ GetSA nn # evs \<and> iam_free evs"
        by (cases rule: ensure_sa_finalizer_cases [of w sa "h @ [GetSA nn]"]) auto
      obtain pre where pre: "snd (ensure_sa_finalizer w sa (h @ [GetSA nn])) = h @ GetSA nn # pre"
        "iam_free pre" using fin by blast
      show ?thesis
      proof (cases "fst (ensure_sa_finalizer w sa (h @ [GetSA nn]))")
        case (Inl e)
        then have "ensure_sa_finalizer w sa (h @ [GetSA nn]) = (Inl e, h @ GetSA nn # pre)"
          using pre(1) by (simp add: prod_eq_iff)
        then have "snd (sa_reconcile r w nn h) = h @ GetSA nn # pre"
          using run by simp
        then show ?thesis using no_iam pre(2) by blast
      next
        case (Inr sa')
        then have ens: "ensure_sa_finalizer w sa (h @ [GetSA nn]) = (Inr sa', h @ GetSA nn # pre)"
          using pre(1) by (simp add: prod_eq_iff)
        obtain o3 h3 where hg: "handle_gcp_sa r w sa' grp nn (h @ GetSA nn # pre) = (o3, h3)"
          by fastforce
        have "\<exists>post. snd (sa_reconcile r w nn h) = h3 @ post \<and> iam_free post"
        proof -
          have "snd (sa_reconcile r w nn h) = h3 \<or>
                snd (sa_reconcile r w nn h) = snd (annotate_sa r w sa' grp h3)"
            using run ens hg by (auto split: outcome.split option.split)
          then show ?thesis using annotate_sa_trace [of r w sa' grp h3] by auto
        qed
        then show ?thesis using live [OF got grp True ens pre(2)] hg by auto
      qed
    qed
  qed
qed

section \<open>Properties\<close>

text \<open>
  A service account that does not carry the impersonation annotation is read and left
  alone: no write to the cluster, no IAM call, and no finalizer handling.
\<close>

theorem sa_without_annotation_untouched:
  assumes "w_get_sa w h nn = Inr sa"
    and "map_get (sa_annotations sa) impersonateGroupAnnotation = None"
  shows "sa_reconcile r w nn h = (Returns (False, None), h @ [GetSA nn])"
  using assms by (simp add: sa_reconcile_def call_get_sa_def)

lemma policy_writes_framed:
  assumes "SetIamPolicy ref p \<in> set (new_events h (snd (sa_reconcile r w nn h)))"
  shows "\<exists>sa grp pre read post.
    w_get_sa w h nn = Inr sa \<and>
    map_get (sa_annotations sa) impersonateGroupAnnotation = Some grp \<and>
    ref = to_gcp_sa_ref (r_group_sa_project r) grp \<and>
    new_events h (snd (sa_reconcile r w nn h)) = pre @ [GetIamPolicy ref, SetIamPolicy ref p] @ post \<and>
    w_get_iam w (h @ pre) ref = Inr read \<and>
    policy_frame (iam_condition_string w nn) read p"
proof (cases rule: sa_reconcile_cases [of r w nn h])
  case (no_iam evs)
  with assms show ?thesis by (auto simp: list_all_iff)
next
  case (live sa grp sa' pre post)
  show ?thesis
  proof (cases rule: handle_gcp_sa_trace [of r w sa' grp nn "h @ GetSA nn # pre"])
    case read
    with live assms show ?thesis by (auto simp: list_all_iff)
  next
    case (wrote read p')
    with live(5-7) assms have "ref = to_gcp_sa_ref (r_group_sa_project r) grp" "p = p'"
      by (auto simp: list_all_iff)
    with live wrote show ?thesis
      by (intro exI [of _ sa] exI [of _ grp] exI [of _ "GetSA nn # pre"] exI [of _ read] exI [of _ post])
        simp
  qed
next
  case (dying sa grp post)
  show ?thesis
  proof (cases rule: remove_iam_binding_trace [of r w grp nn "h @ [GetSA nn]"])
    case read
    with dying assms show ?thesis by (auto simp: list_all_iff)
  next
    case (wrote read p')
    with dying(4,5) assms have "ref = to_gcp_sa_ref (r_group_sa_project r) grp" "p = p'"
      by (auto simp: list_all_iff)
    with dying wrote show ?thesis
      by (intro exI [of _ sa] exI [of _ grp] exI [of _ "[GetSA nn]"] exI [of _ read] exI [of _ post])
        simp
  qed
qed

text \<open>
  Every IAM policy a reconcile writes belongs to the Google service account of the
  group in the annotation, is written directly after it was read, with the same etag, and
  differs from what was read only in the bindings of this very service account.
\<close>

theorem sa_policy_write_frame:
  assumes "SetIamPolicy ref p \<in> set (new_events h (snd (sa_reconcile r w nn h)))"
  shows "\<exists>sa grp pre read post.
    w_get_sa w h nn = Inr sa \<and>
    map_get (sa_annotations sa) impersonateGroupAnnotation = Some grp \<and>
    ref = to_gcp_sa_ref (r_group_sa_project r) grp \<and>
    new_events h (snd (sa_reconcile r w nn h)) = pre @ [GetIamPolicy ref, SetIamPolicy ref p] @ post \<and>
    w_get_iam w (h @ pre) ref = Inr read \<and>
    policy_frame (iam_condition_string w nn) read p"
  using assms by (rule policy_writes_framed)

text \<open>
  C4: When ensuring the binding succeeds and IAM knows the Google service account, the
  policy in force afterwards (the one written, or the one read if nothing was written)
  has, as the first binding titled with this service account's name, the
  workload-identity role for exactly this Kubernetes service account under the expected
  condition.
\<close>

theorem handle_gcp_sa_establishes_binding:
  fixes r :: sa_reconciler and grp :: string and ref
  defines "ref \<equiv> to_gcp_sa_ref (r_group_sa_project r) grp"
  assumes "fst (handle_gcp_sa r w sa grp nn h) = Returns (q, None)"
    and "w_get_iam w h ref = Inr read"
  shows "\<exists>expr bs i.
    expiration_expr sa = Inr expr \<and>
    ((snd (handle_gcp_sa r w sa grp nn h) = h @ [GetIamPolicy ref] \<and>
        bs = p_bindings (policy_or_empty read)) \<or>
     (\<exists>p. snd (handle_gcp_sa r w sa grp nn h) = h @ [GetIamPolicy ref, SetIamPolicy ref p] \<and>
        bs = p_bindings p)) \<and>
    index_func (has_title (iam_condition_string w nn)) bs = Some i \<and>
    grants_as (wanted_binding r w nn expr) (bs ! i)"
proof (cases "expiration_expr sa")
  case (Inl x)
  then show ?thesis
    using assms(2) handle_gcp_sa_early(2) [OF assms(3) [unfolded ref_def] Inl] by simp
next
  case (Inr expr)
  note run = handle_gcp_sa_run [OF assms(3) [unfolded ref_def] Inr, folded ref_def]
  show ?thesis
  proof (cases "ensured r w nn expr read")
    case (Panics k)
    with run assms(2) show ?thesis by simp
  next
    case (Returns mb)
    then obtain m bs where ens: "ensured r w nn expr read = Returns (m, bs)" by (cases mb) auto
    note spec = ensured_spec [OF ens]
    show ?thesis
    proof (cases m)
      case False
      with spec(3) have "bs = p_bindings (policy_or_empty read)" by simp
      with False run ens spec(2) Inr show ?thesis by auto
    next
      case True
      let ?p = "(policy_or_empty read)\<lparr>p_bindings := bs, p_version := 3\<rparr>"
      have "snd (handle_gcp_sa r w sa grp nn h) = h @ [GetIamPolicy ref, SetIamPolicy ref ?p]"
        using run ens True
        by (simp add: update_iam_policy_def call_set_iam_def Let_def split: prod.split)
      moreover have "bs = p_bindings ?p" by simp
      ultimately show ?thesis using spec(2) Inr by blast
    qed
  qed
qed

text \<open>
  C18: Outside deletion, no policy is written unless the finalizer that guarantees its
  later removal is on the stored object: it was on the object read, or an update carrying
  it was accepted before.
\<close>

theorem sa_grant_only_behind_finalizer:
  assumes "finalizer_laws w"
    and "w_get_sa w h nn = Inr sa" and "time_ptr_is_zero (om_deletion (sa_meta sa))"
    and "SetIamPolicy ref p \<in> set (new_events h (snd (sa_reconcile r w nn h)))"
  shows "finalizerName \<in> set (om_finalizers (sa_meta sa)) \<or>
    (\<exists>sa' rest. new_events h (snd (sa_reconcile r w nn h)) = GetSA nn # UpdateSA sa' # rest \<and>
       SetIamPolicy ref p \<in> set rest \<and>
       finalizerName \<in> set (om_finalizers (sa_meta sa')) \<and>
       (\<exists>stored. w_update_sa w (h @ [GetSA nn]) sa' = Inr stored))"
proof (cases rule: sa_reconcile_cases [of r w nn h])
  case (no_iam evs)
  with assms(4) show ?thesis by (auto simp: list_all_iff)
next
  case (dying sa2 grp post)
  with assms(2,3) show ?thesis by simp
next
  case (live sa2 grp sa' pre post)
  with assms(2) have sa2: "sa2 = sa" by simp
  show ?thesis
  proof (cases rule: ensure_sa_finalizer_cases [of w sa "h @ [GetSA nn]"])
    case present
    with assms(1) show ?thesis by (simp add: finalizer_lawsD)
  next
    case unchanged
    with assms(1) show ?thesis by (simp add: finalizer_lawsD)
  next
    case failed
    with live(4) sa2 show ?thesis by simp
  next
    case (added upd stored)
    with live(4) sa2 have pre: "pre = [UpdateSA upd]" by simp
    have fin: "finalizerName \<in> set (om_finalizers (sa_meta upd))"
      using added(2) assms(1) by (simp add: finalizer_lawsD)
    obtain rest where rest: "snd (sa_reconcile r w nn h) = h @ GetSA nn # UpdateSA upd # rest"
      using live(6) pre
      by (cases rule: handle_gcp_sa_trace [of r w sa' grp nn "h @ GetSA nn # pre"]) auto
    with assms(4) have "SetIamPolicy ref p \<in> set rest" by auto
    with rest fin added(3) show ?thesis by auto
  qed
qed

text \<open>
  A binding without a condition in the policy of the group's service account makes the
  removal of a binding panic, and nothing else does: the code reads the title of every
  condition without checking that there is one.
\<close>

theorem remove_iam_binding_panics_iff:
  "fst (remove_iam_binding r w grp nn h) = Panics k \<longleftrightarrow>
     k = NilDeref \<and>
     (\<exists>policy. w_get_iam w h (to_gcp_sa_ref (r_group_sa_project r) grp) = Inr (Some policy) \<and>
        \<not> all_conditions (p_bindings policy))"
proof (cases "w_get_iam w h (to_gcp_sa_ref (r_group_sa_project r) grp)")
  case (Inl e)
  then show ?thesis by (simp add: remove_iam_binding_def call_get_iam_def Let_def)
next
  case got: (Inr read)
  show ?thesis
  proof (cases read)
    case None
    with got show ?thesis by (simp add: remove_iam_binding_def call_get_iam_def)
  next
    case (Some pol)
    show ?thesis
    proof (cases "delete_title (iam_condition_string w nn) (p_bindings pol)")
      case (Panics k')
      then have "\<not> all_conditions (p_bindings pol)" "k' = NilDeref"
        by (simp_all add: delete_title_panics_iff)
      with got Some Panics show ?thesis
        by (auto simp: remove_iam_binding_def call_get_iam_def)
    next
      case (Returns bs)
      then have "all_conditions (p_bindings pol)" by (simp add: delete_title_returns_iff)
      with got Some Returns show ?thesis
        by (auto simp: remove_iam_binding_def call_get_iam_def Let_def split: prod.split)
    qed
  qed
qed

text \<open>
  Under the documented behaviour of the generated client, which returns no policy with
  a status that is not 2xx, the branch for a concurrent modification is never taken: a
  reconcile never reports the concurrency error, and a conflict is reported as the
  client's own error without an immediate requeue.
\<close>

theorem iam_conflict_branch_is_dead:
  assumes "google_status_law w"
  shows "fst (update_iam_policy w policy ref h)
    = (False, map_option GoogleErr (snd (w_set_iam w h ref (policy\<lparr>p_version := 3\<rparr>))))"
proof -
  obtain st err where reply: "w_set_iam w h ref (policy\<lparr>p_version := 3\<rparr>) = (st, err)"
    by fastforce
  have "st \<noteq> Some 409"
  proof
    assume "st = Some 409"
    with assms [unfolded google_status_law_def, rule_format, of h ref "policy\<lparr>p_version := 3\<rparr>"] reply
    show False by simp
  qed
  with reply show ?thesis
    by (simp add: update_iam_policy_def call_set_iam_def Let_def)
qed

text \<open>
  Ensuring the binding panics exactly when the policy read has a binding without a
  condition in front of the first binding titled with this service account's name (and
  the requested duration, if any, parses).
\<close>

theorem handle_gcp_sa_panics_iff:
  "fst (handle_gcp_sa r w sa grp nn h) = Panics k \<longleftrightarrow>
     k = NilDeref \<and>
     (\<exists>read expr i.
        w_get_iam w h (to_gcp_sa_ref (r_group_sa_project r) grp) = Inr read \<and>
        expiration_expr sa = Inr expr \<and>
        i < length (p_bindings (policy_or_empty read)) \<and>
        b_condition (p_bindings (policy_or_empty read) ! i) = None \<and>
        (\<forall>j < i. \<not> has_title (iam_condition_string w nn) (p_bindings (policy_or_empty read) ! j)))"
proof (cases "w_get_iam w h (to_gcp_sa_ref (r_group_sa_project r) grp)")
  case (Inl e)
  then show ?thesis by (simp add: handle_gcp_sa_early)
next
  case got: (Inr read)
  show ?thesis
  proof (cases "expiration_expr sa")
    case (Inl x)
    with got show ?thesis by (simp add: handle_gcp_sa_early)
  next
    case (Inr expr)
    let ?t = "iam_condition_string w nn" and ?bs = "p_bindings (policy_or_empty read)"
    have "fst (handle_gcp_sa r w sa grp nn h) = Panics k \<longleftrightarrow> ensured r w nn expr read = Panics k"
      unfolding handle_gcp_sa_run [OF got Inr]
      by (auto simp: Let_def split: outcome.split prod.split)
    also have "\<dots> \<longleftrightarrow> index_title ?t ?bs = Panics k"
    proof -
      have "ensure_correct_binding ?bs i (Some (wanted_binding r w nn expr)) \<noteq> Panics k"
        if "index_title ?t ?bs = Returns i" for i
      proof (cases i)
        case (Some n)
        with that have "has_title ?t (?bs ! n)"
          using index_title_returns index_func_SomeD(2) by metis
        then show ?thesis
          by (simp add: Some ensure_correct_binding_def binding_incorrect_eq [OF wanted_binding_ok])
      qed (simp add: ensure_correct_binding_def)
      then show ?thesis by (auto simp: ensured_def bind_outcome_Panics_iff)
    qed
    also have "\<dots> \<longleftrightarrow> k = NilDeref \<and>
        (\<exists>i < length ?bs. b_condition (?bs ! i) = None \<and> (\<forall>j < i. \<not> has_title ?t (?bs ! j)))"
      by (rule index_title_panics_iff)
    finally show ?thesis using got Inr by auto
  qed
qed

lemma nn_string_eq_iff:
  assumes "nn_string_law w"
    and "CHR ''/'' \<notin> set (nn_namespace a)" and "CHR ''/'' \<notin> set (nn_namespace b)"
  shows "iam_condition_string w a = iam_condition_string w b \<longleftrightarrow> a = b"
proof
  assume "iam_condition_string w a = iam_condition_string w b"
  then have eq: "nn_namespace a @ CHR ''/'' # nn_name a = nn_namespace b @ CHR ''/'' # nn_name b"
    using assms(1) by (simp add: iam_condition_string_def nn_string_law_def)
  have "takeWhile (\<lambda>c. c \<noteq> CHR ''/'') (nn_namespace x @ CHR ''/'' # nn_name x) = nn_namespace x"
    if "CHR ''/'' \<notin> set (nn_namespace x)" for x
    using that by (induction "nn_namespace x" arbitrary: x) (auto simp: takeWhile_tail takeWhile_append2)
  with assms(2,3) eq have "nn_namespace a = nn_namespace b" by metis
  with eq show "a = b" by simp
qed simp

text \<open>
  The titles by which bindings are told apart are different for different service
  accounts, as long as namespaces contain no slash (Kubernetes names never do).
\<close>

theorem iam_condition_string_inj:
  assumes "nn_string_law w"
    and "CHR ''/'' \<notin> set (nn_namespace a)" and "CHR ''/'' \<notin> set (nn_namespace b)"
  shows "iam_condition_string w a = iam_condition_string w b \<longleftrightarrow> a = b"
  using assms by (rule nn_string_eq_iff)

text \<open>
  While a service account is being deleted, its finalizer is given up only as the very
  last step, and only when the Google service account is gone, or its policy holds no
  binding of this service account, or a policy without one was written successfully.
\<close>

theorem sa_finalizer_released_last:
  fixes r :: sa_reconciler and grp :: string and ref
  defines "ref \<equiv> to_gcp_sa_ref (r_group_sa_project r) grp"
  assumes "finalizer_laws w"
    and "w_get_sa w h nn = Inr sa" and "\<not> time_ptr_is_zero (om_deletion (sa_meta sa))"
    and "map_get (sa_annotations sa) impersonateGroupAnnotation = Some grp"
    and "UpdateSA sa' \<in> set (new_events h (snd (sa_reconcile r w nn h)))"
  shows "\<exists>iam. new_events h (snd (sa_reconcile r w nn h)) = GetSA nn # iam @ [UpdateSA sa'] \<and>
    finalizerName \<notin> set (om_finalizers (sa_meta sa')) \<and>
    (w_get_iam w (h @ [GetSA nn]) ref = Inl (GoogleApi 404) \<or>
     (\<exists>read. w_get_iam w (h @ [GetSA nn]) ref = Inr read \<and>
        (\<forall>b \<in> set (p_bindings (policy_or_empty read)).
           \<not> has_title (iam_condition_string w nn) b)) \<or>
     (\<exists>p. iam = [GetIamPolicy ref, SetIamPolicy ref p] \<and>
        snd (w_set_iam w (h @ [GetSA nn, GetIamPolicy ref]) ref p) = None \<and>
        (\<forall>b \<in> set (p_bindings p). \<not> has_title (iam_condition_string w nn) b)))"
proof -
  let ?h = "h @ [GetSA nn]" and ?t = "iam_condition_string w nn"
  let ?fs = "om_finalizers (sa_meta sa)"
  let ?rm = "remove_iam_binding r w grp nn ?h"
  have run: "sa_reconcile r w nn h = finalize_sa r w sa grp nn ?h"
    using assms(3-5) by (simp add: sa_reconcile_def call_get_sa_def)
  obtain iam res where iam: "snd ?rm = ?h @ iam" and res: "fst ?rm = Returns (res, None)"
    and fin: "sa' = set_sa_finalizers (fst (w_remove_finalizer w ?fs finalizerName)) sa"
    and upd: "snd (finalize_sa r w sa grp nn ?h) = ?h @ iam @ [UpdateSA sa']"
  proof (rule finalize_sa_writes [OF assms(2), of sa' ?h r sa grp nn])
    show "UpdateSA sa' \<in> set (new_events ?h (snd (finalize_sa r w sa grp nn ?h)))"
      using assms(6) run
      by (cases rule: finalize_sa_trace [of r w sa grp nn ?h];
          cases rule: remove_iam_binding_trace [of r w grp nn ?h]) auto
  qed
  have upd: "new_events h (snd (sa_reconcile r w nn h)) = GetSA nn # iam @ [UpdateSA sa']"
    using run upd by simp
  have "w_get_iam w ?h ref = Inl (GoogleApi 404) \<or>
     (\<exists>read. w_get_iam w ?h ref = Inr read \<and>
        (\<forall>b \<in> set (p_bindings (policy_or_empty read)). \<not> has_title ?t b)) \<or>
     (\<exists>p. iam = [GetIamPolicy ref, SetIamPolicy ref p] \<and>
        snd (w_set_iam w (h @ [GetSA nn, GetIamPolicy ref]) ref p) = None \<and>
        (\<forall>b \<in> set (p_bindings p). \<not> has_title ?t b))"
  proof (cases "w_get_iam w ?h ref")
    case (Inl e)
    with res show ?thesis
      by (auto simp: remove_iam_binding_def call_get_iam_def is_google_not_found_def ref_def Let_def
          split: if_splits)
  next
    case got: (Inr read)
    show ?thesis
    proof (cases read)
      case None
      with got show ?thesis by (simp add: policy_or_empty_def empty_policy_def)
    next
      case (Some pol)
      then obtain bs where bs: "delete_title ?t (p_bindings pol) = Returns bs"
        using res got
        by (cases "delete_title ?t (p_bindings pol)")
          (auto simp: remove_iam_binding_def call_get_iam_def ref_def)
      then have bs': "bs = delete_func (has_title ?t) (p_bindings pol)"
        by (simp add: delete_title_returns_iff)
      show ?thesis
      proof (cases "length bs = length (p_bindings pol)")
        case True
        then have "\<forall>b \<in> set (p_bindings pol). \<not> has_title ?t b"
          unfolding bs' by (simp add: length_delete_func_eq_iff)
        with got Some show ?thesis by (simp add: policy_or_empty_def)
      next
        case False
        let ?p = "pol\<lparr>p_bindings := bs, p_version := 3\<rparr>"
        have rm: "?rm = (let (ret, h2) = update_iam_policy w (pol\<lparr>p_bindings := bs\<rparr>) ref
              (?h @ [GetIamPolicy ref]) in (Returns ret, h2))"
          using got Some bs False
          by (simp add: remove_iam_binding_def call_get_iam_def ref_def Let_def)
        then have "snd (w_set_iam w (h @ [GetSA nn, GetIamPolicy ref]) ref ?p) = None"
          using res
          by (auto simp: update_iam_policy_def call_set_iam_def Let_def split: prod.splits if_splits)
        moreover have "iam = [GetIamPolicy ref, SetIamPolicy ref ?p]"
          using rm iam
          by (auto simp: update_iam_policy_def call_set_iam_def Let_def split: prod.splits if_splits)
        ultimately show ?thesis by (auto simp: bs')
      qed
    qed
  qed
  moreover have "finalizerName \<notin> set (om_finalizers (sa_meta sa'))"
    using assms(2) by (simp add: fin finalizer_lawsD)
  ultimately show ?thesis using upd by blast
qed

text \<open>
  Bindings of other service accounts survive: a policy written for one service account
  contains, for every other one, the same bindings in the same order as the policy read.
\<close>

theorem sa_bindings_isolated:
  assumes "nn_string_law w" and "other \<noteq> nn"
    and "CHR ''/'' \<notin> set (nn_namespace nn)" and "CHR ''/'' \<notin> set (nn_namespace other)"
    and "SetIamPolicy ref p \<in> set (new_events h (snd (sa_reconcile r w nn h)))"
  shows "\<exists>pre read. w_get_iam w (h @ pre) ref = Inr read \<and>
    filter (has_title (iam_condition_string w other)) (p_bindings p) =
    filter (has_title (iam_condition_string w other)) (p_bindings (policy_or_empty read))"
proof -
  let ?t = "iam_condition_string w nn" and ?o = "iam_condition_string w other"
  have "?o \<noteq> ?t"
    using assms(1-4) by (metis nn_string_eq_iff)
  then have other_not: "has_title ?o b \<Longrightarrow> \<not> has_title ?t b" for b
    by (auto simp: has_title_def split: option.splits)
  have sub: "filter (has_title ?o) bs = filter (has_title ?o) (filter (\<lambda>b. \<not> has_title ?t b) bs)" for bs
    by (simp add: filter_filter conj_commute) (metis (mono_tags, lifting) filter_cong other_not)
  from policy_writes_framed [OF assms(5)] obtain pre read
    where "w_get_iam w (h @ pre) ref = Inr read" "policy_frame ?t read p"
    by blast
  then show ?thesis
    unfolding policy_frame_def using sub by metis
qed

text \<open>
  Steady state: when the finalizer, the binding and the annotation are already as
  wanted, a reconcile reads the service account and the policy and writes nothing.
\<close>

theorem sa_reconcile_steady_state:
  fixes r :: sa_reconciler and grp :: string and ref
  defines "ref \<equiv> to_gcp_sa_ref (r_group_sa_project r) grp"
  assumes "w_get_sa w h nn = Inr sa"
    and "map_get (sa_annotations sa) impersonateGroupAnnotation = Some grp"
    and "time_ptr_is_zero (om_deletion (sa_meta sa))"
    and "w_contains_finalizer w (om_finalizers (sa_meta sa)) finalizerName"
    and "w_get_iam w (h @ [GetSA nn]) ref = Inr read" and "expiration_expr sa = Inr expr"
    and "index_title (iam_condition_string w nn) (p_bindings (policy_or_empty read)) = Returns (Some i)"
    and "grants_as (wanted_binding r w nn expr) (p_bindings (policy_or_empty read) ! i)"
    and "map_index (sa_annotations sa) gkeWIAnnotation = gcp_sa_email r grp"
  shows "sa_reconcile r w nn h = (Returns (False, None), h @ [GetSA nn, GetIamPolicy ref])"
proof -
  have ens: "ensured r w nn expr read = Returns (False, p_bindings (policy_or_empty read))"
    using ensure_correct_binding_steady [OF assms(8,9) wanted_binding_ok]
    by (simp add: ensured_def)
  have "handle_gcp_sa r w sa grp nn (h @ [GetSA nn])
      = (Returns (False, None), h @ [GetSA nn, GetIamPolicy ref])"
    using handle_gcp_sa_run [OF assms(6) [unfolded ref_def] assms(7)] ens by (simp add: ref_def)
  then show ?thesis
    using assms(2-5,10)
    by (simp add: sa_reconcile_def call_get_sa_def ensure_sa_finalizer_def annotate_sa_def)
qed

section \<open>Witnesses\<close>

definition example_nn :: namespaced_name where
  "example_nn = \<lparr>nn_namespace = ''user-ssb-abc'', nn_name = ''app''\<rparr>"

definition example_reconciler :: sa_reconciler where
  "example_reconciler = \<lparr>r_group_sa_project = ''groups'', r_cluster_project = ''cluster''\<rparr>"

definition example_sa :: "(string \<times> string) list \<Rightarrow> string list \<Rightarrow> gotime option \<Rightarrow> service_account" where
  "example_sa anns fins del =
     \<lparr>sa_meta = empty_meta\<lparr>om_name := ''app'', om_namespace := ''user-ssb-abc'',
        om_annotations := Some anns, om_finalizers := fins, om_creation := 0, om_deletion := del\<rparr>,
      sa_other = []\<rparr>"

definition example_group :: "(string \<times> string) list" where
  "example_group = [(impersonateGroupAnnotation, ''dapla-developers'')]"

definition example_world :: "service_account \<Rightarrow> iam_policy option \<Rightarrow> world" where
  "example_world sa p = quiet_world\<lparr>w_get_sa := (\<lambda>_ _. Inr sa), w_get_iam := (\<lambda>_ _. Inr p)\<rparr>"

definition example_ref :: string where
  "example_ref = to_gcp_sa_ref ''groups'' ''dapla-developers''"

definition example_binding :: iam_binding where
  "example_binding = wanted_binding example_reconciler quiet_world example_nn ''true''"

definition example_policy :: iam_policy where
  "example_policy = \<lparr>p_bindings = [example_binding], p_version = 3, p_etag = []\<rparr>"

lemmas example_defs =
  example_nn_def example_reconciler_def example_sa_def example_group_def example_world_def
  quiet_world_def annotation_keys empty_meta_def

lemma example_world_laws [simp]:
  "finalizer_laws (example_world sa p)" "nn_string_law (example_world sa p)"
  "google_status_law (example_world sa p)"
  by (auto simp: example_world_def quiet_world_def finalizer_laws_def nn_string_law_def
      google_status_law_def)

lemma example_fields [simp]:
  "w_get_sa (example_world sa p) h nn = Inr sa"
  "w_get_iam (example_world sa p) h ref = Inr p"
  "map_of example_group impersonateGroupAnnotation = Some ''dapla-developers''"
  "om_deletion (sa_meta (example_sa anns fins del)) = del"
  "om_finalizers (sa_meta (example_sa anns fins del)) = fins"
  "sa_annotations (example_sa anns fins del) = Some anns"
  "wanted_binding example_reconciler (example_world sa p) example_nn ''true'' = example_binding"
  "expiration_expr (example_sa example_group fins del) = Inr ''true''"
  by (simp_all add: example_defs example_binding_def wanted_binding_def iam_condition_string_def
      expiration_expr_def map_index_def)

lemma example_title [simp]:
  "iam_condition_string (example_world sa p) example_nn = ''ssbucketeer.namespacedName=user-ssb-abc/app''"
  by (simp add: iam_condition_string_def example_defs iamConditionKey_def)

lemma example_wants [simp]:
  "b_condition example_binding = Some \<lparr>ex_title = ''ssbucketeer.namespacedName=user-ssb-abc/app'',
     ex_expression = ''true'', ex_other = []\<rparr>"
  "grants_as example_binding example_binding"
  by (simp_all add: example_binding_def wanted_binding_def iam_condition_string_def example_defs
      iamConditionKey_def grants_as_def)

text \<open>A first reconcile, in the world where nothing is set up yet.\<close>

lemma example_first_run:
  "snd (sa_reconcile example_reconciler (example_world (example_sa example_group [] None) None)
      example_nn []) =
    [GetSA example_nn, UpdateSA (example_sa example_group [finalizerName] None),
     GetIamPolicy example_ref, SetIamPolicy example_ref example_policy,
     UpdateSA (example_sa (AList.update gkeWIAnnotation
        (gcp_sa_email example_reconciler ''dapla-developers'') example_group) [finalizerName] None)]"
proof -
  have upd: "w_update_sa (example_world sa p) h x = Inr x"
    and fin: "w_contains_finalizer (example_world sa p) [] f = False"
    and add: "w_add_finalizer (example_world sa p) [] f = ([f], True)"
    and set_iam: "w_set_iam (example_world sa p) h ref q = (Some 200, None)"
    for sa p h x f ref q
    by (simp_all add: example_world_def quiet_world_def)
  have sa: "set_sa_finalizers fs (example_sa anns fins None) = example_sa anns fs None"
      "set_sa_annotations (Some kvs) (example_sa anns fins None) = example_sa kvs fins None"
    for anns kvs fins fs
    by (simp_all add: example_sa_def set_sa_finalizers_def set_sa_annotations_def)
  have ref: "to_gcp_sa_ref (r_group_sa_project example_reconciler) ''dapla-developers'' = example_ref"
    by (simp add: example_ref_def example_reconciler_def)
  have pol: "policy_or_empty None\<lparr>p_bindings := [example_binding], p_version := 3\<rparr> = example_policy"
    by (simp add: policy_or_empty_def empty_policy_def example_policy_def)
  have no_wi: "map_index (Some example_group) gkeWIAnnotation \<noteq> gcp_sa_email example_reconciler grp" for grp
    by (simp add: map_index_def example_group_def annotation_keys gcp_sa_email_def)
  have ens: "ensured example_reconciler (example_world sa p) example_nn ''true'' None
      = Returns (True, [example_binding])" for sa p
    by (simp add: ensured_def policy_or_empty_def empty_policy_def ensure_correct_binding_def)
  show ?thesis
    using no_wi pol
    by (simp add: sa_reconcile_def call_get_sa_def time_ptr_is_zero_def ensure_sa_finalizer_def fin
        add upd sa call_update_sa_def handle_gcp_sa_run [where expr = "''true''"] ens ref
        update_iam_policy_def call_set_iam_def set_iam annotate_sa_def Let_def)
qed

lemma example_ensured:
  "ensured example_reconciler (example_world sa p) example_nn ''true'' None
      = Returns (True, [example_binding])"
  by (simp add: ensured_def policy_or_empty_def empty_policy_def ensure_correct_binding_def)

text \<open>The same service account being deleted, with its binding in place.\<close>

lemma example_delete_run:
  "snd (sa_reconcile example_reconciler
      (example_world (example_sa example_group [finalizerName] (Some 5)) (Some example_policy)) example_nn []) =
    [GetSA example_nn, GetIamPolicy example_ref,
     SetIamPolicy example_ref (example_policy\<lparr>p_bindings := []\<rparr>),
     UpdateSA (example_sa example_group [] (Some 5))]"
proof -
  have w: "w_update_sa (example_world sa p) h x = Inr x"
      "w_contains_finalizer (example_world sa p) [f] f"
      "w_remove_finalizer (example_world sa p) [f] f = ([], True)"
      "w_set_iam (example_world sa p) h ref q = (Some 200, None)"
    for sa p h x f ref q
    by (simp_all add: example_world_def quiet_world_def)
  have sa: "set_sa_finalizers fs (example_sa anns fins d) = example_sa anns fs d" for anns fins fs d
    by (simp add: example_sa_def set_sa_finalizers_def)
  have ref: "to_gcp_sa_ref (r_group_sa_project example_reconciler) ''dapla-developers'' = example_ref"
    by (simp add: example_ref_def example_reconciler_def)
  have pol: "p_bindings example_policy = [example_binding]"
      "example_policy\<lparr>p_bindings := [], p_version := 3\<rparr> = example_policy\<lparr>p_bindings := []\<rparr>"
    by (simp_all add: example_policy_def)
  show ?thesis
    by (simp add: sa_reconcile_def call_get_sa_def time_ptr_is_zero_def zero_time_def second_def
        finalize_sa_def remove_iam_binding_def call_get_iam_def w sa ref pol update_iam_policy_def
        call_set_iam_def call_update_sa_def Let_def)
qed

theorem sa_without_annotation_untouched_witness:
  "sa_reconcile example_reconciler (example_world (example_sa [] [] None) None) example_nn []
     = (Returns (False, None), [GetSA example_nn])"
  using sa_without_annotation_untouched
    [of "example_world (example_sa [] [] None) None" "[]" example_nn "example_sa [] [] None"]
  by simp

theorem sa_policy_write_frame_witness:
  "\<exists>sa grp pre read post.
    w_get_sa (example_world (example_sa example_group [] None) None) [] example_nn = Inr sa \<and>
    map_get (sa_annotations sa) impersonateGroupAnnotation = Some grp \<and>
    example_ref = to_gcp_sa_ref (r_group_sa_project example_reconciler) grp \<and>
    new_events [] (snd (sa_reconcile example_reconciler
        (example_world (example_sa example_group [] None) None) example_nn []))
      = pre @ [GetIamPolicy example_ref, SetIamPolicy example_ref example_policy] @ post \<and>
    w_get_iam (example_world (example_sa example_group [] None) None) ([] @ pre) example_ref = Inr read \<and>
    policy_frame (iam_condition_string (example_world (example_sa example_group [] None) None) example_nn)
      read example_policy"
  by (rule sa_policy_write_frame) (simp add: example_first_run)

theorem handle_gcp_sa_establishes_binding_witness:
  "\<exists>expr bs i.
    expiration_expr (example_sa example_group [] None) = Inr expr \<and>
    ((snd (handle_gcp_sa example_reconciler (example_world (example_sa example_group [] None) None)
            (example_sa example_group [] None) ''dapla-developers'' example_nn [])
        = [] @ [GetIamPolicy (to_gcp_sa_ref (r_group_sa_project example_reconciler) ''dapla-developers'')] \<and>
        bs = p_bindings (policy_or_empty None)) \<or>
     (\<exists>p. snd (handle_gcp_sa example_reconciler (example_world (example_sa example_group [] None) None)
            (example_sa example_group [] None) ''dapla-developers'' example_nn [])
        = [] @ [GetIamPolicy (to_gcp_sa_ref (r_group_sa_project example_reconciler) ''dapla-developers''),
           SetIamPolicy (to_gcp_sa_ref (r_group_sa_project example_reconciler) ''dapla-developers'') p] \<and>
        bs = p_bindings p)) \<and>
    index_func (has_title (iam_condition_string
      (example_world (example_sa example_group [] None) None) example_nn)) bs = Some i \<and>
    grants_as (wanted_binding example_reconciler
      (example_world (example_sa example_group [] None) None) example_nn expr) (bs ! i)"
proof (rule handle_gcp_sa_establishes_binding)
  have "w_set_iam (example_world sa p) h ref q = (Some 200, None)" for sa p h ref q
    by (simp add: example_world_def quiet_world_def)
  then show "fst (handle_gcp_sa example_reconciler (example_world (example_sa example_group [] None) None)
      (example_sa example_group [] None) ''dapla-developers'' example_nn []) = Returns (False, None)"
    by (simp add: handle_gcp_sa_run [where expr = "''true''"] example_ensured update_iam_policy_def
        call_set_iam_def Let_def)
qed simp

theorem sa_grant_only_behind_finalizer_witness:
  "finalizerName \<in> set (om_finalizers (sa_meta (example_sa example_group [] None))) \<or>
    (\<exists>sa' rest. new_events [] (snd (sa_reconcile example_reconciler
        (example_world (example_sa example_group [] None) None) example_nn []))
          = GetSA example_nn # UpdateSA sa' # rest \<and>
       SetIamPolicy example_ref example_policy \<in> set rest \<and>
       finalizerName \<in> set (om_finalizers (sa_meta sa')) \<and>
       (\<exists>stored. w_update_sa (example_world (example_sa example_group [] None) None)
          ([] @ [GetSA example_nn]) sa' = Inr stored))"
  by (rule sa_grant_only_behind_finalizer)
    (simp_all add: example_first_run time_ptr_is_zero_def)

theorem iam_conflict_branch_is_dead_witness:
  "fst (update_iam_policy quiet_world example_policy example_ref [])
    = (False, map_option GoogleErr (snd (w_set_iam quiet_world [] example_ref
        (example_policy\<lparr>p_version := 3\<rparr>))))"
  by (rule iam_conflict_branch_is_dead) simp

theorem handle_gcp_sa_panics_iff_witness:
  "fst (handle_gcp_sa example_reconciler
      (example_world (example_sa example_group [] None)
         (Some (example_policy\<lparr>p_bindings := [example_binding\<lparr>b_condition := None\<rparr>, example_binding]\<rparr>)))
      (example_sa example_group [] None) ''dapla-developers'' example_nn []) = Panics NilDeref"
  unfolding handle_gcp_sa_panics_iff
  by (intro conjI exI [of _ "''true''"] exI [of _ "0 :: nat"] exI
      [of _ "Some (example_policy\<lparr>p_bindings := [example_binding\<lparr>b_condition := None\<rparr>, example_binding]\<rparr>)"])
    (simp_all add: policy_or_empty_def)

theorem iam_condition_string_inj_witness:
  "iam_condition_string quiet_world example_nn
     \<noteq> iam_condition_string quiet_world (example_nn\<lparr>nn_name := ''web''\<rparr>)"
  using iam_condition_string_inj [of quiet_world example_nn "example_nn\<lparr>nn_name := ''web''\<rparr>"]
  by (simp add: example_nn_def)

theorem sa_finalizer_released_last_witness:
  "\<exists>iam. new_events [] (snd (sa_reconcile example_reconciler
        (example_world (example_sa example_group [finalizerName] (Some 5)) (Some example_policy)) example_nn []))
      = GetSA example_nn # iam @ [UpdateSA (example_sa example_group [] (Some 5))] \<and>
    iam \<noteq> []"
proof -
  let ?w = "example_world (example_sa example_group [finalizerName] (Some 5)) (Some example_policy)"
  have "\<exists>iam. new_events [] (snd (sa_reconcile example_reconciler ?w example_nn []))
      = GetSA example_nn # iam @ [UpdateSA (example_sa example_group [] (Some 5))]"
    using sa_finalizer_released_last [of ?w "[]" example_nn
        "example_sa example_group [finalizerName] (Some 5)" "''dapla-developers''"
        "example_sa example_group [] (Some 5)" example_reconciler]
    by (auto simp: example_delete_run time_ptr_is_zero_def zero_time_def second_def)
  then show ?thesis by (auto simp: example_delete_run)
qed

theorem sa_bindings_isolated_witness:
  "\<exists>pre read. w_get_iam (example_world (example_sa example_group [] None) None) ([] @ pre) example_ref
      = Inr read \<and>
    filter (has_title (iam_condition_string (example_world (example_sa example_group [] None) None)
        (example_nn\<lparr>nn_name := ''web''\<rparr>))) (p_bindings example_policy) =
    filter (has_title (iam_condition_string (example_world (example_sa example_group [] None) None)
        (example_nn\<lparr>nn_name := ''web''\<rparr>))) (p_bindings (policy_or_empty read))"
proof (rule sa_bindings_isolated [where nn = example_nn and r = example_reconciler])
  show "example_nn\<lparr>nn_name := ''web''\<rparr> \<noteq> example_nn" by (simp add: example_nn_def)
qed (simp_all add: example_first_run, simp_all add: example_nn_def)

theorem sa_reconcile_steady_state_witness:
  "sa_reconcile example_reconciler
     (example_world (example_sa ((gkeWIAnnotation, gcp_sa_email example_reconciler ''dapla-developers'') # example_group)
        [finalizerName] None) (Some example_policy)) example_nn []
   = (Returns (False, None), [] @ [GetSA example_nn,
       GetIamPolicy (to_gcp_sa_ref (r_group_sa_project example_reconciler) ''dapla-developers'')])"
proof (rule sa_reconcile_steady_state)
  let ?anns = "(gkeWIAnnotation, gcp_sa_email example_reconciler ''dapla-developers'') # example_group"
  show "expiration_expr (example_sa ?anns [finalizerName] None) = Inr ''true''"
    and "map_get (sa_annotations (example_sa ?anns [finalizerName] None)) impersonateGroupAnnotation
      = Some ''dapla-developers''"
    by (simp_all add: expiration_expr_def example_group_def map_index_def annotation_keys)
  show "index_title (iam_condition_string (example_world (example_sa ?anns [finalizerName] None)
      (Some example_policy)) example_nn) (p_bindings (policy_or_empty (Some example_policy))) = Returns (Some 0)"
    by (simp add: policy_or_empty_def example_policy_def)
  show "w_contains_finalizer (example_world (example_sa ?anns [finalizerName] None) (Some example_policy))
      (om_finalizers (sa_meta (example_sa ?anns [finalizerName] None))) finalizerName"
    by (simp add: example_world_def quiet_world_def)
qed (simp_all add: time_ptr_is_zero_def map_index_def policy_or_empty_def example_policy_def)

end
