(* ===== verification/Job_Controller.thy ===== *)
theory Job_Controller
  imports ServiceAccount_Controller
begin

text \<open>
  \<^verbatim>\<open>internal/controller/job_controller.go\<close>: the reconciler that waits for the IAM probe of
  a StatefulSet and revives the StatefulSet when the probe is done. It returns as the other
  reconciler does.
\<close>

section \<open>Steps of Reconcile\<close>

text \<open>Removing the finalizer of the job, the last step.\<close>

definition release_job :: "world \<Rightarrow> job \<Rightarrow> history \<Rightarrow> reconcile_return outcome \<times> history" where
  "release_job w j h0 =
     (let (fs, removed) = w_remove_finalizer w (om_finalizers (job_meta j)) finalizerName
      in if \<not> removed then (Returns (False, None), h0)
         else case call_update_job w (set_job_finalizers fs j) h0 of
           (Inl e, h1) \<Rightarrow>
             if e = Conflict then (Returns (True, None), h1)
             else (Returns (False, Some (ApiErr e)), h1)
         | (Inr _, h1) \<Rightarrow> (Returns (False, None), h1))"

definition saved_replicas :: "statefulset \<Rightarrow> int32" where
  "saved_replicas sfs =
     (let replicasStr = trim_prefix (map_index (sfs_annotations sfs) iamProbeStatus) iamProbeRunningPrefix
      in to_int32 (case atoi replicasStr of None \<Rightarrow> 1 | Some n \<Rightarrow> n))"

definition refresh_config_map :: "statefulset \<Rightarrow> config_map" where
  "refresh_config_map sfs =
     \<lparr>cm_meta = empty_meta\<lparr>
        om_name := om_name (sfs_meta sfs) @ ''-refresh-buckets'',
        om_namespace := om_namespace (sfs_meta sfs),
        om_owners := [\<lparr>or_kind = ''StatefulSet'', or_api_version = ''apps/v1'',
          or_name = om_name (sfs_meta sfs), or_uid = om_uid (sfs_meta sfs)\<rparr>]\<rparr>,
      cm_data = Some [(''refresh-buckets'',
        ''#!/bin/bash'' @ [CHR 0x0A] @ ''curl http://localhost:8383/refresh-folders'')]\<rparr>"

definition refresh_volume :: "config_map \<Rightarrow> volume" where
  "refresh_volume cm =
     \<lparr>v_name = ''refresh-buckets-command'',
      v_source = ConfigMapSource \<lparr>cms_name = om_name (cm_meta cm), cms_mode = Some 365\<rparr>\<rparr>"

definition refresh_mount :: volume_mount where
  "refresh_mount =
     \<lparr>vm_name = ''refresh-buckets-command'', vm_path = ''/usr/bin/refresh-buckets'',
      vm_sub_path = ''refresh-buckets'', vm_read_only = False, vm_other = []\<rparr>"

text \<open>The StatefulSet with its replicas back and the refresh command mounted in container \<open>i\<close>.\<close>

definition revived :: "gomap \<Rightarrow> nat \<Rightarrow> statefulset \<Rightarrow> statefulset" where
  "revived anns i sfs =
     (let pod = sfs_pod sfs;
          pod' = modify_container i (\<lambda>c. c\<lparr>c_mounts := c_mounts c @ [refresh_mount]\<rparr>)
            (pod\<lparr>ps_volumes := ps_volumes pod @ [refresh_volume (refresh_config_map sfs)]\<rparr>)
      in set_sfs_pod pod' (set_sfs_annotations anns (sfs\<lparr>sfs_replicas := Some (saved_replicas sfs)\<rparr>)))"

text \<open>
  The container is looked up by the annotations that were just changed; only the probe
  status changed.
\<close>

definition revive_sfs ::
  "world \<Rightarrow> job \<Rightarrow> statefulset \<Rightarrow> history \<Rightarrow> reconcile_return outcome \<times> history" where
  "revive_sfs w j sfs h0 =
     (case map_put iamProbeStatus iamProbeDone (sfs_annotations sfs) of
        Panics k \<Rightarrow> (Panics k, h0)
      | Returns anns \<Rightarrow>
          (case index_func (\<lambda>c. c_name c = map_index anns serviceContainerAnnotation)
                  (ps_containers (sfs_pod sfs)) of
             None \<Rightarrow>
               (Returns (False, Some (ContainerNotFound (map_index anns serviceContainerAnnotation))), h0)
           | Some i \<Rightarrow>
               (case call_create_cm w (refresh_config_map sfs) h0 of
                  (Some e, h1) \<Rightarrow> (Returns (False, Some (ApiErr e)), h1)
                | (None, h1) \<Rightarrow>
                    (case call_update_sfs w (revived anns i sfs) h1 of
                       (Inl e, h2) \<Rightarrow>
                         if e = Conflict then (Returns (True, None), h2)
                         else (Returns (False, Some (ApiErr e)), h2)
                     | (Inr _, h2) \<Rightarrow> release_job w j h2))))"

definition job_reconcile ::
  "world \<Rightarrow> namespaced_name \<Rightarrow> history \<Rightarrow> reconcile_return outcome \<times> history" where
  "job_reconcile w nn h0 =
     (case call_get_job w nn h0 of
        (Inl e, h1) \<Rightarrow>
          if e = NotFound then (Returns (False, None), h1)
          else (Returns (False, Some (ApiErr e)), h1)
      | (Inr j, h1) \<Rightarrow>
          (case map_get (om_annotations (job_meta j)) probeJobStatefulsetAnnotation of
             None \<Rightarrow> (Returns (False, None), h1)
           | Some sfsName \<Rightarrow>
               if time_ptr_is_zero (job_completion j)
                  \<or> \<not> w_contains_finalizer w (om_finalizers (job_meta j)) finalizerName then
                 (Returns (False, None), h1)
               else
                 (case call_get_sfs w \<lparr>nn_namespace = nn_namespace nn, nn_name = sfsName\<rparr> h1 of
                    (Inl e, h2) \<Rightarrow>
                      if e = NotFound then
                        (case call_delete_job w j h2 of
                           (None, h3) \<Rightarrow> (Returns (False, None), h3)
                         | (Some e', h3) \<Rightarrow>
                             if e' = NotFound then (Returns (False, None), h3)
                             else (Returns (False, Some (ApiErr e')), h3))
                      else (Returns (False, Some (ApiErr e)), h2)
                  | (Inr sfs, h2) \<Rightarrow>
                      if map_index (sfs_annotations sfs) iamProbeStatus = iamProbeDone then
                        release_job w j h2
                      else revive_sfs w j sfs h2)))"

lemmas job_handlers [handler_defs] = job_reconcile_def revive_sfs_def release_job_def

section \<open>Runs that concern a probe job\<close>

text \<open>The jobs that are acted upon: completed probes that still have the finalizer.\<close>

definition probe_finished :: "world \<Rightarrow> job \<Rightarrow> string \<Rightarrow> bool" where
  "probe_finished w j sfsName \<longleftrightarrow>
     map_get (om_annotations (job_meta j)) probeJobStatefulsetAnnotation = Some sfsName \<and>
     \<not> time_ptr_is_zero (job_completion j) \<and>
     w_contains_finalizer w (om_finalizers (job_meta j)) finalizerName"

lemma job_reconcile_unconcerned:
  assumes "w_get_job w h nn = Inr j" and "\<And>sfsName. \<not> probe_finished w j sfsName"
  shows "job_reconcile w nn h = (Returns (False, None), h @ [GetJob nn])"
  using assms
  by (auto simp: job_reconcile_def call_get_job_def probe_finished_def split: option.split)

lemma job_reconcile_run:
  assumes "w_get_job w h nn = Inr j" and "probe_finished w j sfsName"
  defines "h2 \<equiv> h @ [GetJob nn, GetSfs \<lparr>nn_namespace = nn_namespace nn, nn_name = sfsName\<rparr>]"
  shows "job_reconcile w nn h =
    (case w_get_sfs w (h @ [GetJob nn]) \<lparr>nn_namespace = nn_namespace nn, nn_name = sfsName\<rparr> of
       Inl e \<Rightarrow>
         if e = NotFound then
           (Returns (False, case w_delete_job w h2 j of None \<Rightarrow> None
              | Some e' \<Rightarrow> if e' = NotFound then None else Some (ApiErr e')), h2 @ [DeleteJob j])
         else (Returns (False, Some (ApiErr e)), h2)
     | Inr sfs \<Rightarrow>
         if map_index (sfs_annotations sfs) iamProbeStatus = iamProbeDone then release_job w j h2
         else revive_sfs w j sfs h2)"
  using assms
  by (auto simp: job_reconcile_def call_get_job_def call_get_sfs_def call_delete_job_def probe_finished_def
      split: sum.split option.split)

text \<open>Releasing the job makes at most one call.\<close>

lemma release_job_run:
  assumes "finalizer_laws w"
  shows "release_job w j h =
    (if finalizerName \<notin> set (om_finalizers (job_meta j)) then (Returns (False, None), h)
     else
       let j' = set_job_finalizers (fst (w_remove_finalizer w (om_finalizers (job_meta j)) finalizerName)) j
       in (Returns (case w_update_job w h j' of
             Inl e \<Rightarrow> if e = Conflict then (True, None) else (False, Some (ApiErr e))
           | Inr _ \<Rightarrow> (False, None)), h @ [UpdateJob j']))"
  using finalizer_lawsD(4) [OF assms, of "om_finalizers (job_meta j)" finalizerName]
  by (auto simp: release_job_def call_update_job_def Let_def split: prod.split sum.split)

lemma release_job_events:
  "\<exists>evs. snd (release_job w j h) = h @ evs \<and>
     (\<forall>ev \<in> set evs. \<exists>fs. ev = UpdateJob (set_job_finalizers fs j))"
  by (auto simp: release_job_def call_update_job_def Let_def split: prod.split sum.split)

text \<open>Reviving the StatefulSet, by how far it gets.\<close>

lemma revive_sfs_cases:
  obtains (panics) "sfs_annotations sfs = None" "revive_sfs w j sfs h = (Panics NilMapWrite, h)"
  | (no_container) anns e where "sfs_annotations sfs = Some anns" "revive_sfs w j sfs h = (Returns (False, Some e), h)"
      "\<forall>c \<in> set (ps_containers (sfs_pod sfs)).
         c_name c \<noteq> map_index (sfs_annotations sfs) serviceContainerAnnotation"
  | (no_config_map) anns e where "sfs_annotations sfs = Some anns" "w_create_cm w h (refresh_config_map sfs) = Some e"
      "revive_sfs w j sfs h = (Returns (False, Some (ApiErr e)), h @ [CreateConfigMap (refresh_config_map sfs)])"
  | (update) anns i h2 where "sfs_annotations sfs = Some anns"
      "index_func (\<lambda>c. c_name c = map_index (sfs_annotations sfs) serviceContainerAnnotation)
         (ps_containers (sfs_pod sfs)) = Some i"
      "w_create_cm w h (refresh_config_map sfs) = None"
      "h2 = h @ [CreateConfigMap (refresh_config_map sfs),
         UpdateSfs (revived (Some (AList.update iamProbeStatus iamProbeDone anns)) i sfs)]"
      "revive_sfs w j sfs h =
         (case w_update_sfs w (h @ [CreateConfigMap (refresh_config_map sfs)])
                 (revived (Some (AList.update iamProbeStatus iamProbeDone anns)) i sfs) of
            Inl e \<Rightarrow> (Returns (if e = Conflict then (True, None) else (False, Some (ApiErr e))), h2)
          | Inr _ \<Rightarrow> release_job w j h2)"
proof (cases "sfs_annotations sfs")
  case None
  then show ?thesis by (intro panics) (simp_all add: revive_sfs_def map_put_def)
next
  case (Some anns)
  have key: "map_index (Some (AList.update iamProbeStatus iamProbeDone anns)) serviceContainerAnnotation
      = map_index (sfs_annotations sfs) serviceContainerAnnotation"
    by (simp add: Some map_index_def update_conv' annotation_keys)
  show ?thesis
  proof (cases "index_func (\<lambda>c. c_name c = map_index (sfs_annotations sfs) serviceContainerAnnotation)
      (ps_containers (sfs_pod sfs))")
    case None
    then have "\<forall>c \<in> set (ps_containers (sfs_pod sfs)).
         c_name c \<noteq> map_index (sfs_annotations sfs) serviceContainerAnnotation" by simp
    then show ?thesis
      using None key Some
      by (intro no_container [OF Some]) (simp_all add: revive_sfs_def del: index_func_None_iff)
  next
    case found: (Some i)
    show ?thesis
    proof (cases "w_create_cm w h (refresh_config_map sfs)")
      case e: (Some e)
      then show ?thesis
        using key Some found by (intro no_config_map [OF Some e]) (simp add: revive_sfs_def call_create_cm_def)
    next
      case ok: None
      show ?thesis
        by (rule update [OF Some found ok refl])
          (simp add: revive_sfs_def Some key [unfolded Some] found [unfolded Some] ok call_create_cm_def
            call_update_sfs_def split: sum.split)
    qed
  qed
qed

lemma revived_fields [simp]:
  "sfs_annotations (revived anns i sfs) = anns"
  "sfs_replicas (revived anns i sfs) = Some (saved_replicas sfs)"
  "ps_volumes (sfs_pod (revived anns i sfs)) = ps_volumes (sfs_pod sfs) @ [refresh_volume (refresh_config_map sfs)]"
  "ps_containers (sfs_pod (revived anns i sfs)) =
     (ps_containers (sfs_pod sfs))[i := (ps_containers (sfs_pod sfs) ! i)\<lparr>c_mounts :=
        c_mounts (ps_containers (sfs_pod sfs) ! i) @ [refresh_mount]\<rparr>]"
  by (simp_all add: revived_def modify_container_def set_sfs_pod_def set_sfs_annotations_def Let_def)

section \<open>Properties\<close>

text \<open>
  A completed probe whose StatefulSet exists with the probe running, and whose
  ConfigMap is created, makes the reconciler send the StatefulSet with the replicas that
  the status holds (one, if it holds no number), the probe marked done, every annotation
  but the status unchanged, and the refresh command mounted in the service container and
  nowhere else.
\<close>

theorem job_revives_statefulset:
  assumes "w_get_job w h nn = Inr j" and "probe_finished w j sfsName"
    and "w_get_sfs w (h @ [GetJob nn]) \<lparr>nn_namespace = nn_namespace nn, nn_name = sfsName\<rparr> = Inr sfs"
    and "map_index (sfs_annotations sfs) iamProbeStatus \<noteq> iamProbeDone"
    and "sfs_annotations sfs \<noteq> None"
    and "index_func (\<lambda>c. c_name c = map_index (sfs_annotations sfs) serviceContainerAnnotation)
      (ps_containers (sfs_pod sfs)) = Some i"
    and "\<And>t. w_create_cm w t (refresh_config_map sfs) = None"
  shows "\<exists>sfs' rest. new_events h (snd (job_reconcile w nn h)) =
      [GetJob nn, GetSfs \<lparr>nn_namespace = nn_namespace nn, nn_name = sfsName\<rparr>,
       CreateConfigMap (refresh_config_map sfs), UpdateSfs sfs'] @ rest \<and>
    sfs_replicas sfs' = Some (to_int32 (case atoi (trim_prefix (map_index (sfs_annotations sfs) iamProbeStatus)
      iamProbeRunningPrefix) of None \<Rightarrow> 1 | Some n \<Rightarrow> n)) \<and>
    map_get (sfs_annotations sfs') iamProbeStatus = Some iamProbeDone \<and>
    (\<forall>k. k \<noteq> iamProbeStatus \<longrightarrow> map_get (sfs_annotations sfs') k = map_get (sfs_annotations sfs) k) \<and>
    ps_volumes (sfs_pod sfs') = ps_volumes (sfs_pod sfs) @ [refresh_volume (refresh_config_map sfs)] \<and>
    (\<forall>k < length (ps_containers (sfs_pod sfs)). ps_containers (sfs_pod sfs') ! k =
       (if k = i then (ps_containers (sfs_pod sfs) ! i)\<lparr>c_mounts :=
          c_mounts (ps_containers (sfs_pod sfs) ! i) @ [refresh_mount]\<rparr> else ps_containers (sfs_pod sfs) ! k))"
proof -
  let ?h = "h @ [GetJob nn, GetSfs \<lparr>nn_namespace = nn_namespace nn, nn_name = sfsName\<rparr>]"
  have run: "job_reconcile w nn h = revive_sfs w j sfs ?h"
    using job_reconcile_run [OF assms(1,2)] assms(3,4) by simp
  show ?thesis
  proof (cases rule: revive_sfs_cases [of sfs w j ?h])
    case panics
    with assms(5) show ?thesis by simp
  next
    case (no_container anns e)
    with index_func_SomeD(1,2) [OF assms(6)] nth_mem show ?thesis by blast
  next
    case (no_config_map anns e)
    with assms(7) show ?thesis by simp
  next
    case (update anns k h2)
    let ?s = "revived (Some (AList.update iamProbeStatus iamProbeDone anns)) i sfs"
    from update(2) assms(6) have k: "k = i" by simp
    have "\<exists>rest. snd (revive_sfs w j sfs ?h) = ?h @ [CreateConfigMap (refresh_config_map sfs), UpdateSfs ?s] @ rest"
      unfolding update(5) using update(4) release_job_events [of w j h2] k by (auto split: sum.split)
    then obtain rest where "snd (job_reconcile w nn h)
        = ?h @ [CreateConfigMap (refresh_config_map sfs), UpdateSfs ?s] @ rest"
      using run by auto
    then have "new_events h (snd (job_reconcile w nn h)) =
      [GetJob nn, GetSfs \<lparr>nn_namespace = nn_namespace nn, nn_name = sfsName\<rparr>,
       CreateConfigMap (refresh_config_map sfs), UpdateSfs ?s] @ rest" by simp
    then show ?thesis
      by (rule_tac x = ?s in exI, rule_tac x = rest in exI)
        (auto simp: saved_replicas_def update(1) update_conv' nth_list_update)
  qed
qed

text \<open>
  C26: A probe job loses its finalizer only when its StatefulSet was found revived already,
  or after an update that revives it was accepted in this very run; and that is the last
  call of the run.
\<close>

theorem job_finalizer_released_last:
  assumes "w_get_job w h nn = Inr j" and "probe_finished w j sfsName"
    and "UpdateJob j' \<in> set (new_events h (snd (job_reconcile w nn h)))"
  shows "\<exists>sfs pre. w_get_sfs w (h @ [GetJob nn]) \<lparr>nn_namespace = nn_namespace nn, nn_name = sfsName\<rparr> = Inr sfs \<and>
    new_events h (snd (job_reconcile w nn h)) = pre @ [UpdateJob j'] \<and>
    (map_index (sfs_annotations sfs) iamProbeStatus = iamProbeDone \<or>
     (\<exists>sfs' stored earlier. pre = earlier @ [UpdateSfs sfs'] \<and>
        w_update_sfs w (h @ earlier) sfs' = Inr stored \<and>
        sfs_replicas sfs' = Some (saved_replicas sfs) \<and>
        map_get (sfs_annotations sfs') iamProbeStatus = Some iamProbeDone))"
proof -
  let ?nn = "\<lparr>nn_namespace = nn_namespace nn, nn_name = sfsName\<rparr>"
  let ?h = "h @ [GetJob nn, GetSfs ?nn]"
  note run = job_reconcile_run [OF assms(1,2)]
  show ?thesis
  proof (cases "w_get_sfs w (h @ [GetJob nn]) ?nn")
    case (Inl e)
    with run assms(3) show ?thesis by (auto split: if_splits)
  next
    case (Inr sfs)
    have last: "\<exists>pre. evs = pre @ [UpdateJob j'] \<and> pre = []"
      if "snd (release_job w j h1) = h1 @ evs" "UpdateJob j' \<in> set evs" for h1 evs
      using that by (auto simp: release_job_def call_update_job_def Let_def split: prod.splits sum.splits if_splits)
    show ?thesis
    proof (cases "map_index (sfs_annotations sfs) iamProbeStatus = iamProbeDone")
      case True
      with run Inr have rel: "job_reconcile w nn h = release_job w j ?h" by simp
      obtain evs where evs: "snd (release_job w j ?h) = ?h @ evs" using release_job_events by blast
      with rel assms(3) have "UpdateJob j' \<in> set evs" by simp
      with last [OF evs] have "evs = [UpdateJob j']" by simp
      with evs rel Inr True show ?thesis
        by (intro exI [of _ sfs] exI [of _ "[GetJob nn, GetSfs ?nn]"]) simp
    next
      case False
      with run Inr have rev: "job_reconcile w nn h = revive_sfs w j sfs ?h" by simp
      show ?thesis
      proof (cases rule: revive_sfs_cases [of sfs w j ?h])
        case (update anns i h2)
        let ?s = "revived (Some (AList.update iamProbeStatus iamProbeDone anns)) i sfs"
        show ?thesis
        proof (cases "w_update_sfs w (?h @ [CreateConfigMap (refresh_config_map sfs)]) ?s")
          case e: (Inl e)
          with rev update(4,5) assms(3) show ?thesis by auto
        next
          case ok: (Inr stored)
          with rev update(5) have rel: "job_reconcile w nn h = release_job w j h2" by simp
          obtain evs where evs: "snd (release_job w j h2) = h2 @ evs" using release_job_events by blast
          with rel update(4) assms(3) have "UpdateJob j' \<in> set evs" by simp
          with last [OF evs] have "evs = [UpdateJob j']" by simp
          with evs rel update(4) have "new_events h (snd (job_reconcile w nn h)) =
              ([GetJob nn, GetSfs ?nn, CreateConfigMap (refresh_config_map sfs)] @ [UpdateSfs ?s]) @ [UpdateJob j']"
            by simp
          moreover have "map_get (sfs_annotations ?s) iamProbeStatus = Some iamProbeDone"
            by (simp add: update_conv')
          ultimately show ?thesis
            using Inr ok revived_fields(2)
            by (intro exI [of _ sfs] exI [of _ "[GetJob nn, GetSfs ?nn, CreateConfigMap (refresh_config_map sfs)] @ [UpdateSfs ?s]"]
                conjI disjI2 exI [of _ ?s] exI [of _ stored]
                exI [of _ "[GetJob nn, GetSfs ?nn, CreateConfigMap (refresh_config_map sfs)]"])
              (simp_all del: revived_fields(1))
        qed
      qed (use rev assms(3) in auto)
    qed
  qed
qed

text \<open>
  When the StatefulSet of a completed probe is gone, the job is deleted and nothing
  else happens: its finalizer is never removed, so the deletion cannot complete.
\<close>

theorem orphaned_probe_keeps_finalizer:
  assumes "w_get_job w h nn = Inr j" and "probe_finished w j sfsName"
    and "w_get_sfs w (h @ [GetJob nn]) \<lparr>nn_namespace = nn_namespace nn, nn_name = sfsName\<rparr> = Inl NotFound"
    and "finalizer_laws w"
  shows "new_events h (snd (job_reconcile w nn h)) =
      [GetJob nn, GetSfs \<lparr>nn_namespace = nn_namespace nn, nn_name = sfsName\<rparr>, DeleteJob j] \<and>
    finalizerName \<in> set (om_finalizers (job_meta j))"
  using job_reconcile_run [OF assms(1,2)] assms(2-4)
  by (auto simp: probe_finished_def finalizer_lawsD(1))

text \<open>
  C33: The reconciler panics exactly when it reads a completed probe job that has its finalizer,
  and then finds the StatefulSet of the job without any annotations: the status is then not
  done, and it is written into a nil map. Nothing else makes it panic, whatever the cluster
  answers.
\<close>

theorem job_reconcile_panics_iff:
  "fst (job_reconcile w nn h) = Panics k \<longleftrightarrow>
     k = NilMapWrite \<and>
     (\<exists>j sfsName sfs. w_get_job w h nn = Inr j \<and> probe_finished w j sfsName \<and>
        w_get_sfs w (h @ [GetJob nn]) \<lparr>nn_namespace = nn_namespace nn, nn_name = sfsName\<rparr> = Inr sfs \<and>
        sfs_annotations sfs = None)"
proof -
  have release: "fst (release_job w j t) \<noteq> Panics k" for j t
    by (auto simp: release_job_def Let_def split: prod.split sum.split)
  have revive: "fst (revive_sfs w j sfs t) = Panics k \<longleftrightarrow> k = NilMapWrite \<and> sfs_annotations sfs = None" for j sfs t
    by (cases rule: revive_sfs_cases [of sfs w j t])
      (use release in \<open>auto split: sum.splits\<close>)
  show ?thesis
  proof (cases "w_get_job w h nn")
    case (Inl e)
    then show ?thesis by (simp add: job_reconcile_def call_get_job_def)
  next
    case (Inr j)
    show ?thesis
    proof (cases "\<exists>sfsName. probe_finished w j sfsName")
      case False
      with Inr job_reconcile_unconcerned [OF Inr] show ?thesis by auto
    next
      case True
      then obtain sfsName where pf: "probe_finished w j sfsName" by blast
      then have unique: "probe_finished w j x \<longleftrightarrow> x = sfsName" for x
        by (auto simp: probe_finished_def)
      have done_ann: "m \<noteq> None" if "map_index m iamProbeStatus = iamProbeDone" for m
        using that by (cases m) (simp_all add: iamProbeDone_def)
      show ?thesis
        unfolding job_reconcile_run [OF Inr pf] using release revive Inr unique
        by (auto split: sum.split dest: done_ann)
    qed
  qed
qed

section \<open>Witnesses\<close>

definition example_job_nn :: namespaced_name where
  "example_job_nn = \<lparr>nn_namespace = ''user-ssb-abc'', nn_name = ''app-iam-probe''\<rparr>"

definition example_job :: job where
  "example_job = \<lparr>job_meta = empty_meta\<lparr>om_annotations := Some [(probeJobStatefulsetAnnotation, ''app'')],
       om_finalizers := [finalizerName]\<rparr>,
     job_deadline_seconds = Some 300, job_ttl_seconds = Some 0,
     job_template = \<lparr>pt_meta = empty_meta, pt_spec = \<lparr>ps_volumes = [], ps_containers = [],
       ps_service_account = ''app'', ps_restart_policy = ''Never'', ps_other = []\<rparr>\<rparr>,
     job_completion = Some 5, job_other = []\<rparr>"

definition example_probed :: "gomap \<Rightarrow> statefulset" where
  "example_probed anns = \<lparr>sfs_meta = empty_meta\<lparr>om_name := ''app'', om_annotations := anns\<rparr>,
     sfs_replicas = Some 0,
     sfs_template = \<lparr>pt_meta = empty_meta, pt_spec = \<lparr>ps_volumes = [],
       ps_containers = [\<lparr>c_name = ''jupyter'', c_image = ''jupyter:1'', c_env = [], c_mounts = [], c_other = []\<rparr>],
       ps_service_account = ''app'', ps_restart_policy = [], ps_other = []\<rparr>\<rparr>,
     sfs_other = []\<rparr>"

definition example_running :: gomap where
  "example_running = Some [(iamProbeStatus, ''running-replicas-3''), (serviceContainerAnnotation, ''jupyter'')]"

definition example_job_world :: "(api_error + statefulset) \<Rightarrow> world" where
  "example_job_world s = quiet_world\<lparr>w_get_job := (\<lambda>_ _. Inr example_job), w_get_sfs := (\<lambda>_ _. s),
     w_create_cm := (\<lambda>t cm. if CreateConfigMap cm \<in> set t then Some AlreadyExists else None)\<rparr>"

lemma example_job_world_fields [simp]:
  "w_get_job (example_job_world s) t nn = Inr example_job"
  "w_get_sfs (example_job_world s) t nn = s"
  "w_update_sfs (example_job_world s) t x = Inr x"
  "finalizer_laws (example_job_world s)"
  "w_create_cm (example_job_world s) t cm = (if CreateConfigMap cm \<in> set t then Some AlreadyExists else None)"
  by (auto simp: example_job_world_def quiet_world_def finalizer_laws_def)

lemma example_probe_finished [simp]: "probe_finished (example_job_world s) example_job ''app''"
  by (simp add: probe_finished_def example_job_def time_ptr_is_zero_def zero_time_def second_def
      finalizer_lawsD(1) [OF example_job_world_fields(4)])

lemma example_probed_fields [simp]:
  "sfs_annotations (example_probed anns) = anns"
  "ps_containers (sfs_pod (example_probed anns)) =
     [\<lparr>c_name = ''jupyter'', c_image = ''jupyter:1'', c_env = [], c_mounts = [], c_other = []\<rparr>]"
  by (simp_all add: example_probed_def)

lemma example_running_fields [simp]:
  "map_index example_running iamProbeStatus = ''running-replicas-3''"
  "map_index example_running serviceContainerAnnotation = ''jupyter''"
  "example_running \<noteq> None" "''running-replicas-3'' \<noteq> iamProbeDone"
  by (simp_all add: example_running_def map_index_def annotation_keys iamProbeDone_def)

lemma example_saved: "saved_replicas (example_probed example_running) = 3"
proof -
  have "trim_prefix ''running-replicas-3'' iamProbeRunningPrefix = show_int32 3"
    by (simp add: iamProbeRunningPrefix_def trim_prefix_def has_prefix_def show_int32_def show_int_def
        show_nat_small digit_def)
      (code_simp)
  then show ?thesis by (simp add: saved_replicas_def to_int32_def)
qed

theorem job_revives_statefulset_witness:
  "\<exists>sfs' rest. new_events [] (snd (job_reconcile
        ((example_job_world (Inr (example_probed example_running)))\<lparr>w_create_cm := (\<lambda>_ _. None)\<rparr>) example_job_nn []))
      = [GetJob example_job_nn, GetSfs \<lparr>nn_namespace = nn_namespace example_job_nn, nn_name = ''app''\<rparr>,
         CreateConfigMap (refresh_config_map (example_probed example_running)), UpdateSfs sfs'] @ rest \<and>
    sfs_replicas sfs' = Some 3"
proof -
  let ?w = "(example_job_world (Inr (example_probed example_running)))\<lparr>w_create_cm := (\<lambda>_ _. None)\<rparr>"
  have "probe_finished ?w example_job ''app''"
    using example_probe_finished [of "Inr (example_probed example_running)"] by (simp add: probe_finished_def)
  then show ?thesis
    using job_revives_statefulset [of ?w "[]" example_job_nn example_job "''app''" "example_probed example_running" 0]
      example_saved by (auto simp: saved_replicas_def)
qed

theorem job_finalizer_released_last_witness:
  "\<exists>j' pre. new_events [] (snd (job_reconcile
        (example_job_world (Inr (example_probed (Some [(iamProbeStatus, iamProbeDone)])))) example_job_nn []))
      = pre @ [UpdateJob j']"
proof -
  let ?w = "example_job_world (Inr (example_probed (Some [(iamProbeStatus, iamProbeDone)])))"
  let ?h = "[GetJob example_job_nn, GetSfs \<lparr>nn_namespace = nn_namespace example_job_nn, nn_name = ''app''\<rparr>]"
  have run: "job_reconcile ?w example_job_nn [] = release_job ?w example_job ?h"
    using job_reconcile_run [of ?w "[]" example_job_nn example_job "''app''"]
    by (simp add: map_index_def)
  have "finalizerName \<in> set (om_finalizers (job_meta example_job))" by (simp add: example_job_def)
  then obtain j' where "UpdateJob j' \<in> set (new_events [] (snd (job_reconcile ?w example_job_nn [])))"
    unfolding run by (auto simp: release_job_run Let_def)
  from job_finalizer_released_last [OF example_job_world_fields(1) example_probe_finished this]
  show ?thesis by blast
qed

theorem orphaned_probe_keeps_finalizer_witness:
  "new_events [] (snd (job_reconcile (example_job_world (Inl NotFound)) example_job_nn [])) =
      [GetJob example_job_nn, GetSfs \<lparr>nn_namespace = nn_namespace example_job_nn, nn_name = ''app''\<rparr>,
       DeleteJob example_job] \<and>
    finalizerName \<in> set (om_finalizers (job_meta example_job))"
  by (rule orphaned_probe_keeps_finalizer) simp_all

end
