(* ===== verification/Main_Setup.thy ===== *)
theory Main_Setup
  imports ServiceAccount_Webhook Statefulset_Webhook Job_Controller
begin

text \<open>
  \<^verbatim>\<open>cmd/main.go\<close>: how the operator is put together from its configuration, and the ways it
  gives up. The manager, the clients and the parser of the environment are the parameters
  \<open>boot\<close>; every \<^verbatim>\<open>os.Exit(1)\<close> is an exit reason.
\<close>

section \<open>Configuration\<close>

record audit_sink_config =
  as_type :: string
  as_config :: gomap

record operator_config =
  oc_group_sa_project :: string
  oc_teams_folder :: string
  oc_stage :: string
  oc_iam_probe_image :: string
  oc_precreator_image :: "string option"
  oc_adc_env :: string
  oc_project_env :: string
  oc_configs :: "access_group_config list"
  oc_audit_sinks :: "audit_sink_config list"
  oc_shared_template :: "shared_bucket_template_data anonymous_template"

text \<open>The parser for one environment variable: the decoded value, or the decoder's error.\<close>

definition yaml_parser :: "(string \<Rightarrow> string + 'a) \<Rightarrow> string \<Rightarrow> string + 'a" where
  "yaml_parser unmarshal v = (case unmarshal v of Inl e \<Rightarrow> Inl e | Inr out \<Rightarrow> Inr out)"

section \<open>The project of the cluster\<close>

record http_response =
  hr_status :: nat
  hr_body :: "string + string"

record http_lib =
  hl_new_request :: "string \<Rightarrow> string \<Rightarrow> string option"
  hl_do :: "string \<Rightarrow> (string \<times> string) list \<Rightarrow> string + http_response"

definition metadata_url :: string where
  "metadata_url = ''http://metadata.google.internal/computeMetadata/v1/project/project-id''"

definition get_gke_project_id :: "http_lib \<Rightarrow> string + string" where
  "get_gke_project_id hl =
     (case hl_new_request hl ''GET'' metadata_url of
        Some e \<Rightarrow> Inl e
      | None \<Rightarrow>
          (case hl_do hl metadata_url [(''Metadata-Flavor'', ''Google'')] of
             Inl e \<Rightarrow> Inl e
           | Inr res \<Rightarrow> (case hr_body res of Inl e \<Rightarrow> Inl e | Inr body \<Rightarrow> Inr body)))"

section \<open>TLS\<close>

record tls_config =
  tls_next_protos :: "string list"

definition disable_http2 :: "tls_config \<Rightarrow> tls_config" where
  "disable_http2 c = c\<lparr>tls_next_protos := [''http/1.1'']\<rparr>"

definition tls_opts :: "bool \<Rightarrow> (tls_config \<Rightarrow> tls_config) list" where
  "tls_opts enableHTTP2 = (if \<not> enableHTTP2 then [disable_http2] else [])"

section \<open>Starting up\<close>

datatype exit_reason =
    ManagerFailed string
  | ConfigInvalid string
  | NoProjectId string
  | ClientsFailed string
  | SinkFailed sink_config_error
  | RegistrationFailed string string
  | ManagerStopped string

record boot =
  bt_enable_http2 :: bool
  bt_new_manager :: "string option"
  bt_parse :: "string + operator_config"
  bt_http :: http_lib
  bt_cloud_identity :: "string + ci_service"
  bt_iam :: "string option"
  bt_projects :: "string option"
  bt_folders :: "string option"
  bt_storage :: "string option"
  bt_logging_client :: "string \<Rightarrow> string option"
  bt_sink_storage_client :: "string option"
  bt_filename_template :: "string \<Rightarrow> string option"
  bt_getenv :: "string \<Rightarrow> string"
  bt_register :: "string \<Rightarrow> string option"

record operator =
  op_tls :: "(tls_config \<Rightarrow> tls_config) list"
  op_router :: router
  op_webhooks :: "(sfs_mutator \<times> sa_validator) option"
  op_reconciler :: sa_reconciler

text \<open>The loop over the configured sinks; a type it does not know is passed over.\<close>

fun build_sinks :: "boot \<Rightarrow> audit_sink_config list \<Rightarrow> sink list \<Rightarrow> sink_config_error + sink list" where
  "build_sinks b [] sinks = Inr sinks"
| "build_sinks b (s # ss) sinks =
     (if as_type s = ''cloudlogging'' then
        (case new_cloud_logging_sink (bt_logging_client b) (as_config s) of
           Inl e \<Rightarrow> Inl e
         | Inr _ \<Rightarrow> build_sinks b ss (sinks @ [CloudLogging []]))
      else if as_type s = ''cloudstorage'' then
        (case new_cloud_storage_sink (bt_sink_storage_client b) (bt_filename_template b) (as_config s) of
           Inl e \<Rightarrow> Inl e
         | Inr _ \<Rightarrow> build_sinks b ss (sinks @ [CloudStorage []]))
      else build_sinks b ss sinks)"

text \<open>The first of several steps that fails, under the name it is reported with.\<close>

fun first_failure :: "(string \<times> string option) list \<Rightarrow> (string \<times> string) option" where
  "first_failure [] = None"
| "first_failure ((name, err) # rest) =
     (case err of Some e \<Rightarrow> Some (name, e) | None \<Rightarrow> first_failure rest)"

definition mutator_of :: "operator_config \<Rightarrow> sfs_mutator" where
  "mutator_of cfg =
     \<lparr>mu_teams_folder = oc_teams_folder cfg, mu_stage = oc_stage cfg,
      mu_iam_probe_image = oc_iam_probe_image cfg, mu_precreator_image = oc_precreator_image cfg,
      mu_adc_env = oc_adc_env cfg, mu_project_env = oc_project_env cfg,
      mu_configs = oc_configs cfg, mu_shared_template = oc_shared_template cfg\<rparr>"

definition validator_of :: "operator_config \<Rightarrow> ci_service \<Rightarrow> sa_validator" where
  "validator_of cfg ci =
     \<lparr>va_auth = user_is_member_of ci, va_configs = oc_configs cfg, va_stage = oc_stage cfg\<rparr>"

definition start_operator :: "boot \<Rightarrow> exit_reason + operator" where
  "start_operator b =
     (case bt_new_manager b of
        Some e \<Rightarrow> Inl (ManagerFailed e)
      | None \<Rightarrow>
     (case bt_parse b of
        Inl e \<Rightarrow> Inl (ConfigInvalid e)
      | Inr cfg \<Rightarrow>
     (case get_gke_project_id (bt_http b) of
        Inl e \<Rightarrow> Inl (NoProjectId e)
      | Inr gkeProjectId \<Rightarrow>
     (case bt_cloud_identity b of
        Inl e \<Rightarrow> Inl (ClientsFailed e)
      | Inr ciService \<Rightarrow>
     (case first_failure [(''iam'', bt_iam b), (''projects'', bt_projects b), (''folders'', bt_folders b),
             (''storage'', bt_storage b)] of
        Some (name, e) \<Rightarrow> Inl (ClientsFailed e)
      | None \<Rightarrow>
     (case build_sinks b (oc_audit_sinks cfg) [] of
        Inl e \<Rightarrow> Inl (SinkFailed e)
      | Inr sinks \<Rightarrow>
          let auditRouter = new_router sinks;
              enabled = (bt_getenv b ''ENABLE_WEBHOOKS'' \<noteq> ''false'')
          in case first_failure
                    ((if enabled then [(''ServiceAccount webhook'', bt_register b ''ServiceAccount webhook'')] else []) @
                     [(''ServiceAccount'', bt_register b ''ServiceAccount''), (''Job'', bt_register b ''Job''),
                      (''healthz'', bt_register b ''healthz''), (''readyz'', bt_register b ''readyz'')]) of
               Some (name, e) \<Rightarrow> Inl (RegistrationFailed name e)
             | None \<Rightarrow>
                 Inr \<lparr>op_tls = tls_opts (bt_enable_http2 b), op_router = auditRouter,
                   op_webhooks = (if enabled then Some (mutator_of cfg, validator_of cfg ciService) else None),
                   op_reconciler = \<lparr>r_group_sa_project = oc_group_sa_project cfg,
                     r_cluster_project = gkeProjectId\<rparr>\<rparr>))))))"

text \<open>
  The end: \<^verbatim>\<open>mgr.Start\<close> returned, with an error or none, and the router has the state \<open>rt\<close>.
  Flushing is deferred, and \<^verbatim>\<open>os.Exit\<close> runs no deferred calls. The result has the errors
  of the flush, \<open>None\<close> when there was none.
\<close>

definition stop_operator ::
  "audit_env \<Rightarrow> string option \<Rightarrow> router \<Rightarrow> exit_reason option \<times> sink_error list option \<times> router" where
  "stop_operator env start_error rt =
     (case start_error of
        Some e \<Rightarrow> (Some (ManagerStopped e), None, rt)
      | None \<Rightarrow> (let (errs, rt') = flush_all env rt in (None, Some errs, rt')))"

section \<open>Lemmas\<close>

lemma first_failure_None_iff: "first_failure steps = None \<longleftrightarrow> (\<forall>s \<in> set steps. snd s = None)"
  by (induction steps rule: first_failure.induct) (auto split: option.split)

definition sink_of :: "audit_sink_config \<Rightarrow> sink option" where
  "sink_of s =
     (if as_type s = ''cloudlogging'' then Some (CloudLogging [])
      else if as_type s = ''cloudstorage'' then Some (CloudStorage []) else None)"

lemma build_sinks_Inr:
  "build_sinks b ss sinks = Inr res \<Longrightarrow> res = sinks @ List.map_filter sink_of ss"
proof (induction b ss sinks rule: build_sinks.induct)
  case (1 b sinks)
  then show ?case by (simp add: List.map_filter_def)
next
  case (2 b s ss sinks)
  then show ?case
    by (auto simp: List.map_filter_def sink_of_def split: if_splits sum.splits)
qed

lemma start_operator_Inr:
  assumes "start_operator b = Inr op"
  obtains cfg gke ci where "bt_parse b = Inr cfg" "get_gke_project_id (bt_http b) = Inr gke"
    "bt_cloud_identity b = Inr ci"
    "op = \<lparr>op_tls = tls_opts (bt_enable_http2 b),
       op_router = new_router (List.map_filter sink_of (oc_audit_sinks cfg)),
       op_webhooks = (if bt_getenv b ''ENABLE_WEBHOOKS'' \<noteq> ''false''
         then Some (mutator_of cfg, validator_of cfg ci) else None),
       op_reconciler = \<lparr>r_group_sa_project = oc_group_sa_project cfg, r_cluster_project = gke\<rparr>\<rparr>"
proof -
  from assms obtain cfg where cfg: "bt_parse b = Inr cfg"
    by (auto simp: start_operator_def split: option.splits sum.splits)
  with assms obtain gke where gke: "get_gke_project_id (bt_http b) = Inr gke"
    by (auto simp: start_operator_def split: option.splits sum.splits)
  with assms cfg obtain ci where ci: "bt_cloud_identity b = Inr ci"
    by (auto simp: start_operator_def split: option.splits sum.splits)
  from assms cfg gke ci obtain sinks where sinks: "build_sinks b (oc_audit_sinks cfg) [] = Inr sinks"
    by (auto simp: start_operator_def split: option.splits sum.splits)
  with assms cfg gke ci have "op = \<lparr>op_tls = tls_opts (bt_enable_http2 b), op_router = new_router sinks,
       op_webhooks = (if bt_getenv b ''ENABLE_WEBHOOKS'' \<noteq> ''false''
         then Some (mutator_of cfg, validator_of cfg ci) else None),
       op_reconciler = \<lparr>r_group_sa_project = oc_group_sa_project cfg, r_cluster_project = gke\<rparr>\<rparr>"
    by (auto simp: start_operator_def Let_def simp del: first_failure.simps split: option.splits)
  with build_sinks_Inr [OF sinks] cfg gke ci show ?thesis by (intro that) simp_all
qed

section \<open>A concrete operator\<close>

definition example_operator_config :: operator_config where
  "example_operator_config = \<lparr>oc_group_sa_project = ''groups'', oc_teams_folder = ''1'', oc_stage = ''test'',
     oc_iam_probe_image = ''probe:1'', oc_precreator_image = None, oc_adc_env = [], oc_project_env = [],
     oc_configs = [example_admin_config, example_team_config False],
     oc_audit_sinks = [\<lparr>as_type = ''cloudlogging'', as_config = Some [(''projectId'', ''logs'')]\<rparr>,
       \<lparr>as_type = ''cloudloging'', as_config = None\<rparr>],
     oc_shared_template = None\<rparr>"

definition example_boot :: boot where
  "example_boot = \<lparr>bt_enable_http2 = False, bt_new_manager = None, bt_parse = Inr example_operator_config,
     bt_http = \<lparr>hl_new_request = (\<lambda>_ _. None),
       hl_do = (\<lambda>_ _. Inr \<lparr>hr_status = 200, hr_body = Inr ''cluster''\<rparr>)\<rparr>,
     bt_cloud_identity = Inr example_member_ci, bt_iam = None, bt_projects = None, bt_folders = None,
     bt_storage = None, bt_logging_client = (\<lambda>_. None), bt_sink_storage_client = None,
     bt_filename_template = (\<lambda>_. None), bt_getenv = (\<lambda>_. []), bt_register = (\<lambda>_. None)\<rparr>"

lemma example_started:
  "start_operator example_boot = Inr \<lparr>op_tls = [disable_http2], op_router = new_router [CloudLogging []],
     op_webhooks = Some (mutator_of example_operator_config, validator_of example_operator_config example_member_ci),
     op_reconciler = \<lparr>r_group_sa_project = ''groups'', r_cluster_project = ''cluster''\<rparr>\<rparr>"
  by (simp add: start_operator_def example_boot_def example_operator_config_def get_gke_project_id_def
      new_cloud_logging_sink_def tls_opts_def Let_def)

end
