(* ===== verification/Operator_Runs.thy ===== *)
theory Operator_Runs
  imports Main_Setup
begin

text \<open>
  The operator at work: its webhooks and reconcilers called in any order and any number of
  times, on a cluster that answers as it likes. The interface of a handler to the history
  of calls is a locale, with the mutating webhook and the two reconcilers as its
  interpretations; the runs of the whole operator are a step relation over it.
\<close>

section \<open>Calls that are guarded by earlier calls\<close>

fun events_ok :: "(history \<Rightarrow> event \<Rightarrow> bool) \<Rightarrow> history \<Rightarrow> event list \<Rightarrow> bool" where
  "events_ok ok h [] = True"
| "events_ok ok h (e # es) = (ok h e \<and> events_ok ok (h @ [e]) es)"

lemma events_ok_append [simp]:
  "events_ok ok h (xs @ ys) \<longleftrightarrow> events_ok ok h xs \<and> events_ok ok (h @ xs) ys"
  by (induction xs arbitrary: h) auto

lemma events_okD: "events_ok ok h (pre @ e # post) \<Longrightarrow> ok (h @ pre) e"
  by simp

lemma events_ok_always:
  assumes "list_all P evs" and "\<And>t e. P e \<Longrightarrow> ok t e"
  shows "events_ok ok h evs"
  using assms(1) by (induction evs arbitrary: h) (auto intro: assms(2))

section \<open>The contract of a handler\<close>

text \<open>A handler of requests makes calls and never rewrites what was called before.\<close>

locale recorded_handler =
  fixes run :: "'r \<Rightarrow> history \<Rightarrow> 'a \<times> history"
  assumes extends: "\<exists>evs. snd (run x h) = h @ evs"
begin

lemma history_grows: "snd (run x h) = h @ new_events h (snd (run x h))"
  using extends [of x h] by auto

lemma earlier_calls_stay: "set h \<subseteq> set (snd (run x h))"
  using extends [of x h] by auto

end

text \<open>Each call is one that \<open>ok\<close> allows after the calls before it.\<close>

locale guarded_handler = recorded_handler run
  for run :: "'r \<Rightarrow> history \<Rightarrow> 'a \<times> history" +
  fixes ok :: "history \<Rightarrow> event \<Rightarrow> bool"
  assumes guarded: "events_ok ok h (new_events h (snd (run x h)))"
begin

lemma keeps_guarded: "events_ok ok [] h \<Longrightarrow> events_ok ok [] (snd (run x h))"
  by (subst history_grows) (simp add: guarded)

lemma requests_keep_guarded:
  "events_ok ok [] h \<Longrightarrow> events_ok ok [] (fold (\<lambda>x h. snd (run x h)) xs h)"
  by (induction xs arbitrary: h) (simp_all add: keeps_guarded)

end

section \<open>The guards of the operator's calls\<close>

text \<open>
  A policy is written directly after it was read, for one service account, in the project
  of the groups; a job is created with the finalizer and the name of its StatefulSet, loses
  the finalizer when it is updated, and is deleted only when the two calls before read this
  very job, finished, and found the StatefulSet it names, in its own namespace, missing; a
  StatefulSet is updated only as the one that the three calls before have read for a finished
  job, with its probe not ended yet, revived, and after its own config map was created.
  Updates of service accounts are bound by the properties of their own components.
\<close>

text \<open>The two reads before: the finished job \<open>j\<close>, and its StatefulSet with the answer \<open>ans\<close>.\<close>

definition probe_read ::
  "world \<Rightarrow> history \<Rightarrow> namespaced_name \<Rightarrow> job \<Rightarrow> string \<Rightarrow> (api_error + statefulset) \<Rightarrow> history \<Rightarrow> bool" where
  "probe_read w t nn j sfsName ans h \<longleftrightarrow>
     (let sfs_nn = \<lparr>nn_namespace = nn_namespace nn, nn_name = sfsName\<rparr>
      in h = t @ [GetJob nn, GetSfs sfs_nn] \<and> w_get_job w t nn = Inr j \<and>
         map_get (om_annotations (job_meta j)) probeJobStatefulsetAnnotation = Some sfsName \<and>
         \<not> time_ptr_is_zero (job_completion j) \<and> w_get_sfs w (t @ [GetJob nn]) sfs_nn = ans)"

text \<open>What is sent for the StatefulSet \<open>sfs\<close> that was read: \<open>sfs\<close> itself, revived.\<close>

definition revival_of :: "statefulset \<Rightarrow> statefulset \<Rightarrow> bool" where
  "revival_of sfs s \<longleftrightarrow>
     (\<exists>anns i. sfs_annotations sfs = Some anns \<and>
        index_func (\<lambda>c. c_name c = map_index (sfs_annotations sfs) serviceContainerAnnotation)
          (ps_containers (sfs_pod sfs)) = Some i \<and>
        s = revived (Some (AList.update iamProbeStatus iamProbeDone anns)) i sfs)"

fun event_ok :: "world \<Rightarrow> sa_reconciler \<Rightarrow> history \<Rightarrow> event \<Rightarrow> bool" where
  "event_ok w r h (SetIamPolicy ref p) \<longleftrightarrow>
     (\<exists>grp nn t read. ref = to_gcp_sa_ref (r_group_sa_project r) grp \<and> h = t @ [GetIamPolicy ref] \<and>
        w_get_iam w t ref = Inr read \<and> policy_frame (iam_condition_string w nn) read p)"
| "event_ok w r h (CreateJob j) \<longleftrightarrow>
     map_get (om_annotations (job_meta j)) probeJobStatefulsetAnnotation \<noteq> None \<and>
     (finalizer_laws w \<longrightarrow> finalizerName \<in> set (om_finalizers (job_meta j)))"
| "event_ok w r h (UpdateJob j) \<longleftrightarrow>
     (finalizer_laws w \<longrightarrow> finalizerName \<notin> set (om_finalizers (job_meta j)))"
| "event_ok w r h (DeleteJob j) \<longleftrightarrow>
     (\<exists>t nn sfsName. probe_read w t nn j sfsName (Inl NotFound) h)"
| "event_ok w r h (UpdateSfs s) \<longleftrightarrow>
     (\<exists>t nn j sfsName sfs reads. probe_read w t nn j sfsName (Inr sfs) reads \<and>
        map_index (sfs_annotations sfs) iamProbeStatus \<noteq> iamProbeDone \<and>
        h = reads @ [CreateConfigMap (refresh_config_map sfs)] \<and>
        w_create_cm w reads (refresh_config_map sfs) = None \<and> revival_of sfs s \<and>
        map_get (sfs_annotations s) iamProbeStatus = Some iamProbeDone)"
| "event_ok w r h e = True"

text \<open>The calls that need no guard.\<close>

primrec free_event :: "event \<Rightarrow> bool" where
  "free_event (GetSA nn) = True"
| "free_event (UpdateSA sa) = True"
| "free_event (GetJob nn) = True"
| "free_event (UpdateJob j) = False"
| "free_event (DeleteJob j) = False"
| "free_event (CreateJob j) = False"
| "free_event (GetSfs nn) = True"
| "free_event (UpdateSfs s) = False"
| "free_event (CreateConfigMap c) = True"
| "free_event (GetIamPolicy ref) = True"
| "free_event (SetIamPolicy ref p) = False"
| "free_event (ListFolders s) = True"
| "free_event (SearchProjects s) = True"
| "free_event (ListBuckets a b) = True"

lemma free_event_ok: "free_event e \<Longrightarrow> event_ok w r h e"
  by (cases e) auto

lemma free_events_ok [simp]: "list_all free_event evs \<Longrightarrow> events_ok (event_ok w r) h evs"
  by (erule events_ok_always) (rule free_event_ok)

subsection \<open>The service account reconciler\<close>

lemma ensure_sa_finalizer_free: "emits free_event h (snd (ensure_sa_finalizer w sa h))"
  by (auto simp: ensure_sa_finalizer_def call_update_sa_def Let_def split: prod.split sum.split)

lemma annotate_sa_free: "emits free_event h (snd (annotate_sa r w sa grp h))"
  by (auto simp: annotate_sa_def call_update_sa_def Let_def split: outcome.split sum.split)

definition iam_call :: "event \<Rightarrow> bool" where
  "iam_call e \<longleftrightarrow> free_event e \<or> is_iam_event e"

lemma free_call: "emits free_event h h' \<Longrightarrow> emits iam_call h h'"
  by (erule emits_mono) (simp add: iam_call_def)

lemma handle_gcp_sa_calls: "emits iam_call h (snd (handle_gcp_sa r w sa grp nn h))"
  by (cases rule: handle_gcp_sa_trace [of r w sa grp nn h]) (simp_all add: iam_call_def)

lemma finalize_sa_calls: "emits iam_call h (snd (finalize_sa r w sa grp nn h))"
proof -
  have "emits iam_call h (snd (remove_iam_binding r w grp nn h))"
    by (cases rule: remove_iam_binding_trace [of r w grp nn h]) (simp_all add: iam_call_def)
  then show ?thesis
    by (auto simp: finalize_sa_def call_update_sa_def Let_def iam_call_def
        split: outcome.split option.split sum.split prod.split
        elim!: emits_trans)
qed

lemma sa_reconcile_calls: "emits iam_call h (snd (sa_reconcile r w nn h))"
proof -
  let ?h1 = "h @ [GetSA nn]"
  have start: "emits iam_call h ?h1" by (simp add: iam_call_def)
  have live: "emits iam_call ?h1 (snd (case ensure_sa_finalizer w sa ?h1 of
       (Inl e, h2) \<Rightarrow> (Returns (False, Some e), h2)
     | (Inr sa', h2) \<Rightarrow>
         (case handle_gcp_sa r w sa' grp nn h2 of
            (Panics k, h3) \<Rightarrow> (Panics k, h3)
          | (Returns (res, Some e), h3) \<Rightarrow> (Returns (res, Some e), h3)
          | (Returns (res, None), h3) \<Rightarrow> annotate_sa r w sa' grp h3)))" for sa grp
  proof -
    obtain x h2 where ens: "ensure_sa_finalizer w sa ?h1 = (x, h2)" by fastforce
    then have h2: "emits iam_call ?h1 h2"
      using ensure_sa_finalizer_free [of ?h1 w sa] by (auto intro: free_call)
    show ?thesis
    proof (cases x)
      case (Inl e)
      with ens h2 show ?thesis by simp
    next
      case (Inr sa')
      obtain o3 h3 where gcp: "handle_gcp_sa r w sa' grp nn h2 = (o3, h3)" by fastforce
      with handle_gcp_sa_calls [of h2 r w sa' grp nn] h2 have h3: "emits iam_call ?h1 h3"
        by (auto intro: emits_trans)
      moreover have "emits iam_call h3 (snd (annotate_sa r w sa' grp h3))"
        by (intro free_call annotate_sa_free)
      ultimately have "emits iam_call ?h1 (snd (annotate_sa r w sa' grp h3))" by (rule emits_trans)
      with h3 Inr ens gcp show ?thesis by (auto split: outcome.split option.split)
    qed
  qed
  show ?thesis
    using emits_trans [OF start live] emits_trans [OF start finalize_sa_calls] start
    by (auto simp: sa_reconcile_def call_get_sa_def split: sum.split option.split)
qed

lemma list_all_free: "list_all iam_call evs \<Longrightarrow> iam_free evs \<Longrightarrow> list_all free_event evs"
  by (auto simp: list_all_iff iam_call_def)

lemma sa_reconcile_guarded:
  "\<exists>evs. snd (sa_reconcile r w nn h) = h @ evs \<and> events_ok (event_ok w r) h evs"
proof -
  have calls: "emits iam_call h (snd (sa_reconcile r w nn h))" by (rule sa_reconcile_calls)
  show ?thesis
  proof (cases rule: sa_reconcile_cases [of r w nn h])
    case (no_iam evs)
    with calls have "list_all free_event (GetSA nn # evs)" by (auto dest: list_all_free)
    then have "events_ok (event_ok w r) h (GetSA nn # evs)" by (rule free_events_ok)
    with no_iam(1) show ?thesis by blast
  next
    case (live sa grp sa' pre post)
    show ?thesis
    proof (cases rule: handle_gcp_sa_trace [of r w sa' grp nn "h @ GetSA nn # pre"])
      case read
      with live calls have "list_all free_event pre" "list_all free_event post"
        by (auto dest: list_all_free)
      with read live show ?thesis by simp
    next
      case (wrote read p)
      with live calls have "list_all free_event pre" "list_all free_event post"
        by (auto dest: list_all_free)
      with wrote live show ?thesis by auto
    qed
  next
    case (dying sa grp post)
    show ?thesis
    proof (cases rule: remove_iam_binding_trace [of r w grp nn "h @ [GetSA nn]"])
      case read
      with dying calls have "list_all free_event post" by (auto dest: list_all_free)
      with read dying show ?thesis by simp
    next
      case (wrote read p)
      with dying calls have "list_all free_event post" by (auto dest: list_all_free)
      with wrote dying show ?thesis by auto
    qed
  qed
qed

subsection \<open>The job reconciler\<close>

lemma release_job_guarded:
  "\<exists>evs. snd (release_job w j h) = h @ evs \<and> events_ok (event_ok w r) h evs"
  by (auto simp: release_job_def call_update_job_def set_job_finalizers_def finalizer_lawsD(5) Let_def
      split: prod.split sum.split)
    (metis Diff_iff finalizer_lawsD(5) fst_conv singletonI)+

lemma revive_sfs_guarded:
  assumes "probe_read w t nn j sfsName (Inr sfs) h"
    and "map_index (sfs_annotations sfs) iamProbeStatus \<noteq> iamProbeDone"
  shows "\<exists>evs. snd (revive_sfs w j sfs h) = h @ evs \<and> events_ok (event_ok w r) h evs"
proof (cases rule: revive_sfs_cases [of sfs w j h])
  case (update anns i h2)
  let ?sent = "revived (Some (AList.update iamProbeStatus iamProbeDone anns)) i sfs"
  let ?new = "[CreateConfigMap (refresh_config_map sfs), UpdateSfs ?sent]"
  have sent: "revival_of sfs ?sent"
    unfolding revival_of_def using update(1,2) by blast
  have "map_get (sfs_annotations ?sent) iamProbeStatus = Some iamProbeDone"
    by (simp add: update_conv')
  with assms update(3) sent have "event_ok w r (h @ [CreateConfigMap (refresh_config_map sfs)]) (UpdateSfs ?sent)"
    by (simp only: event_ok.simps) blast
  then have new: "events_ok (event_ok w r) h ?new" by simp
  obtain evs where "snd (release_job w j h2) = h2 @ evs" "events_ok (event_ok w r) h2 evs"
    using release_job_guarded by blast
  with update(4,5) new show ?thesis
    by (auto split: sum.split intro!: exI [of _ ?new] exI [of _ "?new @ evs"])
qed auto

lemma job_reconcile_guarded:
  "\<exists>evs. snd (job_reconcile w nn h) = h @ evs \<and> events_ok (event_ok w r) h evs"
proof (cases "w_get_job w h nn")
  case (Inl e)
  then show ?thesis by (simp add: job_reconcile_def call_get_job_def)
next
  case job: (Inr j)
  show ?thesis
  proof (cases "\<exists>sfsName. probe_finished w j sfsName")
    case False
    with job_reconcile_unconcerned [OF job] show ?thesis by simp
  next
    case True
    then obtain sfsName where fin: "probe_finished w j sfsName" by blast
    let ?nn = "\<lparr>nn_namespace = nn_namespace nn, nn_name = sfsName\<rparr>"
    let ?reads = "[GetJob nn, GetSfs ?nn]"
    have read: "probe_read w h nn j sfsName (w_get_sfs w (h @ [GetJob nn]) ?nn) (h @ ?reads)"
      using job fin by (simp add: probe_read_def probe_finished_def)
    note run = job_reconcile_run [OF job fin]
    show ?thesis
    proof (cases "w_get_sfs w (h @ [GetJob nn]) ?nn")
      case (Inl e)
      with read have "e = NotFound \<Longrightarrow> event_ok w r (h @ ?reads) (DeleteJob j)" by auto
      with run Inl show ?thesis by (cases "e = NotFound") auto
    next
      case (Inr sfs)
      obtain evs where "snd (job_reconcile w nn h) = (h @ ?reads) @ evs" "events_ok (event_ok w r) (h @ ?reads) evs"
        using run Inr release_job_guarded [of w j "h @ ?reads" r]
          revive_sfs_guarded [OF read [unfolded Inr], of r]
        by (auto split: if_splits)
      then show ?thesis by (intro exI [of _ "?reads @ evs"]) simp
    qed
  qed
qed

subsection \<open>The mutating webhook\<close>

definition webhook_call :: "world \<Rightarrow> event \<Rightarrow> bool" where
  "webhook_call w e \<longleftrightarrow> free_event e \<or>
     (\<exists>j. e = CreateJob j \<and> map_get (om_annotations (job_meta j)) probeJobStatefulsetAnnotation \<noteq> None \<and>
        (finalizer_laws w \<longrightarrow> finalizerName \<in> set (om_finalizers (job_meta j))))"

lemma webhook_call_ok: "webhook_call w e \<Longrightarrow> event_ok w r h e"
  by (auto simp: webhook_call_def free_event_ok)

lemma handle_service_account_calls:
  "emits (webhook_call w) h (snd (handle_service_account w ord ns name wanted h))"
  by (auto simp: handle_service_account_def call_get_sa_def call_update_sa_def webhook_call_def Let_def
      split: sum.split option.split prod.split)

lemma get_standard_project_calls: "emits (webhook_call w) h (snd (get_standard_project m w team c h))"
  by (auto simp: get_standard_project_def call_list_folders_def call_search_projects_def webhook_call_def
      Let_def split: sum.split prod.split)

lemma bucket_mounts_of_calls: "emits (webhook_call w) h (snd (bucket_mounts_of m js w team prj anns h))"
  by (auto simp: bucket_mounts_of_def add_standard_buckets_def call_list_buckets_def webhook_call_def Let_def
      split: option.split)

lemma finish_calls: "emits (webhook_call w) h (snd (finish m js w sfs h))"
  by (auto simp: finish_def launch_iam_probe_def call_create_job_def webhook_call_def probe_job_def
      finalizer_lawsD(3) Let_def split: option.split outcome.split prod.split)

lemma mutate_calls: "emits (webhook_call w) h (snd (mutate m js w ord c grp i sfs h))"
proof -
  obtain res h2 where prj: "get_standard_project m w (to_team c grp) c h = (res, h2)" by fastforce
  have h2: "emits (webhook_call w) h h2"
    using get_standard_project_calls [of w h m "to_team c grp" c] prj by simp
  have fin: "emits (webhook_call w) h (snd (finish m js w s t))" if "emits (webhook_call w) h t" for s t
    using emits_trans [OF that finish_calls] .
  have mounts: "emits (webhook_call w) h t"
    if "bucket_mounts_of m js w team p anns h2 = (bm, t)" for team p anns bm t
    using emits_trans [OF h2 bucket_mounts_of_calls [of w h2 m js team p anns]] that by simp
  show ?thesis
    using h2 fin mounts
    by (auto simp: mutate_def prj Let_def split: outcome.split option.split bool.split prod.split)
qed

lemma handle_calls: "emits (webhook_call w) h (snd (handle m js w req h))"
proof -
  have "emits (webhook_call w) h (snd (mutate m js w ord c grp i s t))"
    if "handle_service_account w ord' ns name wanted h = (res, t)" for ord ord' c grp i s t ns name wanted res
    using emits_trans [OF _ mutate_calls] handle_service_account_calls [of w h ord' ns name wanted] that
    by simp
  moreover have "emits (webhook_call w) h t"
    if "handle_service_account w ord' ns name wanted h = (res, t)" for ord' t ns name wanted res
    using handle_service_account_calls [of w h ord' ns name wanted] that by simp
  ultimately show ?thesis
    by (auto simp: handle_def Let_def split: sum.split option.split prod.split)
qed

lemma handle_guarded:
  "\<exists>evs. snd (handle m js w req h) = h @ evs \<and> events_ok (event_ok w r) h evs"
  using handle_calls [of w h m js req]
  by (auto simp: emits_def intro: events_ok_always webhook_call_ok)

section \<open>Every handler keeps the contract\<close>

interpretation sa_handler: guarded_handler "sa_reconcile r w" "event_ok w r" for r w
proof
  show "\<exists>evs. snd (sa_reconcile r w nn h) = h @ evs" for nn h
    using sa_reconcile_guarded by blast
  show "events_ok (event_ok w r) h (new_events h (snd (sa_reconcile r w nn h)))" for nn h
    using sa_reconcile_guarded [of r w nn h] by auto
qed

interpretation job_handler: guarded_handler "job_reconcile w" "event_ok w r" for w r
proof
  show "\<exists>evs. snd (job_reconcile w nn h) = h @ evs" for nn h
    using job_reconcile_guarded by blast
  show "events_ok (event_ok w r) h (new_events h (snd (job_reconcile w nn h)))" for nn h
    using job_reconcile_guarded [of w nn h r] by auto
qed

interpretation mutating_handler: guarded_handler "handle m js w" "event_ok w r" for m js w r
proof
  show "\<exists>evs. snd (handle m js w req h) = h @ evs" for req h
    using handle_guarded by blast
  show "events_ok (event_ok w r) h (new_events h (snd (handle m js w req h)))" for req h
    using handle_guarded [of m js w req h r] by auto
qed

section \<open>Audit logs along a run\<close>

primrec is_logging :: "sink \<Rightarrow> bool" where
  "is_logging (CloudLogging es) = True"
| "is_logging (CloudStorage objs) = False"

text \<open>Every Cloud Logging sink has taken a record with the hash \<open>x\<close>.\<close>

definition logged :: "audit_env \<Rightarrow> router \<Rightarrow> string \<Rightarrow> bool" where
  "logged env rt x \<longleftrightarrow> (\<forall>s \<in> set (rt_sinks rt). is_logging s \<longrightarrow> x \<in> payload_hash env ` set (accepted s))"

text \<open>The ring remembers nothing that the logs do not have.\<close>

definition ring_logged :: "audit_env \<Rightarrow> router \<Rightarrow> bool" where
  "ring_logged env rt \<longleftrightarrow> (\<forall>x \<in> set (rt_recent rt). x \<noteq> [] \<longrightarrow> logged env rt x)"

lemma ring_logged_new [simp]: "ring_logged env (new_router sinks)"
  by (simp add: ring_logged_def new_router_def)

lemma sink_record_logging [simp]:
  "is_logging (snd (sink_record env p s)) = is_logging s"
  "is_logging s \<Longrightarrow> accepted (snd (sink_record env p s)) = accepted s @ [p]"
  by (cases s; auto simp: Let_def split: sum.split option.split)+

lemma accepted_grows: "set (accepted s) \<subseteq> set (accepted (snd (sink_record env p s)))"
  using any_sink.record_prefix [of env p s] by auto

lemma record_all_logs:
  assumes "router_ok rt" and "ring_logged env rt" and "record_all env p rt = Returns (errs, rt')"
  shows "router_ok rt' \<and> ring_logged env rt' \<and> logged env rt' (payload_hash env p) \<and>
    (\<forall>x. logged env rt x \<longrightarrow> logged env rt' x)"
proof (cases "payload_hash env p \<in> set (rt_recent rt)")
  case True
  then have "rt' = rt" using assms(3) by (simp add: record_all_seen)
  with True assms(1,2) show ?thesis by (auto simp: ring_logged_def)
next
  case False
  obtain rt1 where rt1: "record_hash (payload_hash env p) rt = Returns rt1" "router_ok rt1"
      "rt_sinks rt1 = rt_sinks rt" "ring_window rt1 = tl (ring_window rt) @ [payload_hash env p]"
    using record_hash_refines [OF assms(1)] by blast
  with False assms(3) have sinks: "rt_sinks rt' = map (\<lambda>s. snd (sink_record env p s)) (rt_sinks rt)"
    and recent: "rt_recent rt' = rt_recent rt1" and ok: "router_ok rt'"
    by (auto simp: record_all_def record_sinks_eq)
  have "set (tl (ring_window rt)) \<subseteq> set (ring_window rt)"
    by (cases "ring_window rt") auto
  then have sub: "set (rt_recent rt') \<subseteq> insert (payload_hash env p) (set (rt_recent rt))"
    using recent rt1(4) set_ring_window [of rt1] by auto
  have new: "logged env rt' (payload_hash env p)"
    by (auto simp: logged_def sinks)
  have keep: "logged env rt' x" if "logged env rt x" for x
    using that accepted_grows by (fastforce simp: logged_def sinks)
  have "ring_logged env rt'"
    using sub new keep assms(2) by (auto simp: ring_logged_def)
  with ok new keep show ?thesis by blast
qed

text \<open>The record an admission to a group that requires a reason must have left.\<close>

definition admission_logged :: "sa_validator \<Rightarrow> audit_env \<Rightarrow> router \<Rightarrow> service_account \<Rightarrow> bool" where
  "admission_logged v env rt sa \<longleftrightarrow>
     (\<forall>grp c. impersonates sa grp \<longrightarrow> get_config (va_configs v) grp = Some c \<longrightarrow> gc_reason_required c \<longrightarrow>
        (\<exists>user d reason. om_namespace (sa_meta sa) = userNamespacePrefix @ user \<and>
           privileged_ok c sa d reason \<and>
           logged env rt (payload_hash env (audit_entry v sa c user (to_team c grp) grp reason d))))"

lemma validate_logs:
  assumes "router_ok rt" and "ring_logged env rt" and "validate v env (SAObject sa) rt = Returns (ans, rt')"
  shows "router_ok rt' \<and> ring_logged env rt' \<and> (\<forall>x. logged env rt x \<longrightarrow> logged env rt' x) \<and>
    (ans = None \<longrightarrow> admission_logged v env rt' sa)"
proof (cases "\<exists>grp. impersonates sa grp")
  case False
  then have "validate v env (SAObject sa) rt = Returns (None, rt)"
    using validate_untouched [of "SAObject sa" v env rt] False by auto
  with assms False show ?thesis by (auto simp: admission_logged_def)
next
  case True
  then obtain grp where imp: "impersonates sa grp" by blast
  then have only: "impersonates sa grp' \<longleftrightarrow> grp' = grp" for grp'
    by (auto simp: impersonates_def)
  from imp show ?thesis
  proof (cases rule: validate_cases [of sa grp v env rt])
    case (refused e)
    with assms show ?thesis by auto
  next
    case (unlimited c user)
    with assms show ?thesis by (simp add: admission_logged_def only)
  next
    case (limited c user d reason)
    obtain errs where ans: "ans = None"
      and rec: "record_all env (audit_entry v sa c user (to_team c grp) grp reason d) rt = Returns (errs, rt')"
      using assms(3) limited(1) by auto
    from record_all_logs [OF assms(1,2) rec] limited show ?thesis
      by (auto simp: admission_logged_def only owner_of_Some_iff ans)
  qed
qed

section \<open>Runs of the operator\<close>

text \<open>
  The state of a run: the calls made so far, the audit router, and the service accounts
  the validating webhook has let through. A step is one request to one handler; webhooks
  are served only when the operator was started with them. A validated deletion and an
  object of another type change nothing.
\<close>

record op_state =
  os_history :: history
  os_router :: router
  os_admitted :: "service_account list"

inductive operator_step :: "operator \<Rightarrow> json_codec \<Rightarrow> audit_env \<Rightarrow> world \<Rightarrow> op_state \<Rightarrow> op_state \<Rightarrow> bool"
  for op js env w where
  mutating:
    "op_webhooks op = Some (m, v) \<Longrightarrow>
       operator_step op js env w s (s\<lparr>os_history := snd (handle m js w req (os_history s))\<rparr>)"
| admitting:
    "op_webhooks op = Some (m, v) \<Longrightarrow> validate v env (SAObject sa) (os_router s) = Returns (None, rt') \<Longrightarrow>
       operator_step op js env w s (s\<lparr>os_router := rt', os_admitted := os_admitted s @ [sa]\<rparr>)"
| refusing:
    "op_webhooks op = Some (m, v) \<Longrightarrow> validate v env (SAObject sa) (os_router s) = Returns (Some e, rt') \<Longrightarrow>
       operator_step op js env w s (s\<lparr>os_router := rt'\<rparr>)"
| reconciling_sa:
    "operator_step op js env w s
       (s\<lparr>os_history := snd (sa_reconcile (op_reconciler op) w nn (os_history s))\<rparr>)"
| reconciling_job:
    "operator_step op js env w s (s\<lparr>os_history := snd (job_reconcile w nn (os_history s))\<rparr>)"

inductive_cases operator_stepE: "operator_step op js env w s s'"

definition started_state :: "operator \<Rightarrow> op_state" where
  "started_state op = \<lparr>os_history = [], os_router = op_router op, os_admitted = []\<rparr>"

definition run_ok :: "operator \<Rightarrow> audit_env \<Rightarrow> world \<Rightarrow> op_state \<Rightarrow> bool" where
  "run_ok op env w s \<longleftrightarrow>
     events_ok (event_ok w (op_reconciler op)) [] (os_history s) \<and>
     router_ok (os_router s) \<and> ring_logged env (os_router s) \<and>
     (\<forall>m v. op_webhooks op = Some (m, v) \<longrightarrow>
        (\<forall>sa \<in> set (os_admitted s). admission_logged v env (os_router s) sa))"

lemma admission_logged_mono:
  assumes "admission_logged v env rt sa" and "\<And>x. logged env rt x \<Longrightarrow> logged env rt' x"
  shows "admission_logged v env rt' sa"
  using assms unfolding admission_logged_def by blast

lemma run_ok_step:
  assumes "operator_step op js env w s s'" and "run_ok op env w s"
  shows "run_ok op env w s'"
  using assms(1)
proof cases
  case (mutating m v req)
  with assms(2) show ?thesis by (simp add: run_ok_def mutating_handler.keeps_guarded)
next
  case (admitting m v sa rt')
  with assms(2) validate_logs [of "os_router s" env v sa None rt'] show ?thesis
    by (auto simp: run_ok_def intro: admission_logged_mono)
next
  case (refusing m v sa e rt')
  with assms(2) validate_logs [of "os_router s" env v sa "Some e" rt'] show ?thesis
    by (auto simp: run_ok_def intro: admission_logged_mono)
next
  case (reconciling_sa nn)
  with assms(2) show ?thesis by (simp add: run_ok_def sa_handler.keeps_guarded)
next
  case (reconciling_job nn)
  with assms(2) show ?thesis by (simp add: run_ok_def job_handler.keeps_guarded)
qed

lemma run_ok_reachable:
  assumes "start_operator b = Inr op" and "(operator_step op js env w)\<^sup>*\<^sup>* (started_state op) s"
  shows "run_ok op env w s"
  using assms(2)
proof induction
  case base
  from assms(1) have "\<exists>sinks. op_router op = new_router sinks"
    by (rule start_operator_Inr) auto
  then show ?case by (auto simp: run_ok_def started_state_def)
next
  case (step s s')
  from step.hyps(2) step.IH show ?case by (rule run_ok_step)
qed

section \<open>Properties\<close>


text \<open>
  C13: No privileged admission of a run escapes the logs: for every service account the
  validating webhook let through to a group that requires a reason, every Cloud Logging
  sink holds a record with the hash of its audit entry, whatever was admitted before or
  after and however often.
\<close>

theorem every_privileged_admission_is_logged:
  assumes "start_operator b = Inr op" and "op_webhooks op = Some (m, v)"
    and "(operator_step op js env w)\<^sup>*\<^sup>* (started_state op) s"
    and "sa \<in> set (os_admitted s)" and "impersonates sa grp"
    and "get_config (va_configs v) grp = Some c" and "gc_reason_required c"
    and "CloudLogging es \<in> set (rt_sinks (os_router s))"
  shows "\<exists>user d reason entry. om_namespace (sa_meta sa) = userNamespacePrefix @ user \<and>
    privileged_ok c sa d reason \<and> entry \<in> set es \<and>
    payload_hash env (le_payload entry) =
      payload_hash env (audit_entry v sa c user (to_team c grp) grp reason d)"
proof -
  have "admission_logged v env (os_router s) sa"
    using run_ok_reachable [OF assms(1,3)] assms(2,4) by (simp add: run_ok_def)
  with assms(5-7) obtain user d reason where user: "om_namespace (sa_meta sa) = userNamespacePrefix @ user"
      "privileged_ok c sa d reason"
    and "logged env (os_router s) (payload_hash env (audit_entry v sa c user (to_team c grp) grp reason d))"
    unfolding admission_logged_def by blast
  then have "payload_hash env (audit_entry v sa c user (to_team c grp) grp reason d)
      \<in> payload_hash env ` set (accepted (CloudLogging es))"
    using assms(8) by (fastforce simp: logged_def)
  with user show ?thesis by fastforce
qed

section \<open>A refused revival\<close>

text \<open>Where an object is stored.\<close>

definition sfs_key :: "statefulset \<Rightarrow> namespaced_name" where
  "sfs_key s = \<lparr>nn_namespace = om_namespace (sfs_meta s), nn_name = om_name (sfs_meta s)\<rparr>"

definition cm_key :: "config_map \<Rightarrow> namespaced_name" where
  "cm_key c = \<lparr>nn_namespace = om_namespace (cm_meta c), nn_name = om_name (cm_meta c)\<rparr>"

text \<open>
  Kubernetes refuses to create an object of a name that is taken: once the creation of a
  config map was accepted, another one of its namespace and name is answered with
  \<^verbatim>\<open>AlreadyExists\<close>, as long as nobody deletes the first. The operator deletes none.
\<close>

definition config_maps_stay :: "world \<Rightarrow> bool" where
  "config_maps_stay w \<longleftrightarrow>
     (\<forall>t cm later cm'. w_create_cm w t cm = None \<longrightarrow> cm_key cm' = cm_key cm \<longrightarrow>
        w_create_cm w (t @ CreateConfigMap cm # later) cm' = Some AlreadyExists)"

text \<open>
  Nobody else scales the StatefulSet: the replicas that are read of it are a function of the
  calls, which only an update of it that is accepted can change.
\<close>

definition scaled_only_by_operator :: "world \<Rightarrow> namespaced_name \<Rightarrow> (history \<Rightarrow> int32 option) \<Rightarrow> bool" where
  "scaled_only_by_operator w nn replicas \<longleftrightarrow>
     (\<forall>t s. w_get_sfs w t nn = Inr s \<longrightarrow> sfs_replicas s = replicas t) \<and>
     (\<forall>t e. (\<forall>s. e = UpdateSfs s \<longrightarrow> sfs_key s = nn \<longrightarrow> (\<exists>err. w_update_sfs w t s = Inl err)) \<longrightarrow>
        replicas (t @ [e]) = replicas t)"

lemma refresh_config_map_key:
  "cm_key (refresh_config_map s) = cm_key (refresh_config_map s') \<longleftrightarrow> sfs_key s = sfs_key s'"
  by (auto simp: cm_key_def sfs_key_def refresh_config_map_def)

lemma revival_key: "revival_of sfs s \<Longrightarrow> sfs_key s = sfs_key sfs"
  by (auto simp: revival_of_def revived_def sfs_key_def set_sfs_pod_def set_sfs_annotations_def Let_def)

text \<open>What stands before an update of a StatefulSet: the creation of its config map, accepted.\<close>

lemma update_follows_creation:
  assumes "event_ok w r h (UpdateSfs s)"
  obtains reads cm where "h = reads @ [CreateConfigMap cm]" "w_create_cm w reads cm = None"
    and "\<And>sfs. sfs_key sfs = sfs_key s \<Longrightarrow> cm_key (refresh_config_map sfs) = cm_key cm"
  using assms revival_key refresh_config_map_key by (simp, metis)

lemma no_second_update:
  assumes "config_maps_stay w" and "events_ok (event_ok w r) [] (before @ UpdateSfs s # after)"
    and "UpdateSfs s' \<in> set after"
  shows "sfs_key s' \<noteq> sfs_key s"
proof
  assume same: "sfs_key s' = sfs_key s"
  obtain a b where after: "after = a @ UpdateSfs s' # b" using assms(3) by (meson split_list)
  have ok: "event_ok w r before (UpdateSfs s)" "event_ok w r (before @ UpdateSfs s # a) (UpdateSfs s')"
    using assms(2) by (simp_all add: after)
  obtain reads cm where first: "before = reads @ [CreateConfigMap cm]" "w_create_cm w reads cm = None"
    "\<And>sfs. sfs_key sfs = sfs_key s \<Longrightarrow> cm_key (refresh_config_map sfs) = cm_key cm"
    using ok(1) by (rule update_follows_creation) blast
  obtain reads' cm' where second: "before @ UpdateSfs s # a = reads' @ [CreateConfigMap cm']"
    "w_create_cm w reads' cm' = None"
    "\<And>sfs. sfs_key sfs = sfs_key s' \<Longrightarrow> cm_key (refresh_config_map sfs) = cm_key cm'"
    using ok(2) by (rule update_follows_creation) blast
  from second(1) obtain a' where "reads' = before @ UpdateSfs s # a'"
    by (cases a rule: rev_cases) auto
  then have "reads' = reads @ CreateConfigMap cm # UpdateSfs s # a'" by (simp add: first(1))
  moreover have "cm_key cm' = cm_key cm" using first(3) [of s] second(3) [of s] same by simp
  ultimately have "w_create_cm w reads' cm' = Some AlreadyExists"
    using assms(1) first(2) unfolding config_maps_stay_def by blast
  with second(2) show False by simp
qed

lemma replicas_stay:
  assumes "scaled_only_by_operator w nn replicas"
    and "\<And>pre s post. evs = pre @ UpdateSfs s # post \<Longrightarrow> sfs_key s = nn \<Longrightarrow> \<exists>err. w_update_sfs w (t @ pre) s = Inl err"
  shows "replicas (t @ evs) = replicas t"
  using assms(2)
proof (induction evs rule: rev_induct)
  case Nil
  then show ?case by simp
next
  case (snoc e evs)
  have "\<exists>err. w_update_sfs w (t @ pre) s = Inl err"
    if "evs = pre @ UpdateSfs s # post" "sfs_key s = nn" for pre s post
    using snoc.prems [of pre s "post @ [e]"] that by simp
  then have "replicas (t @ evs) = replicas t" by (rule snoc.IH)
  moreover have "\<forall>s. e = UpdateSfs s \<longrightarrow> sfs_key s = nn \<longrightarrow> (\<exists>err. w_update_sfs w (t @ evs) s = Inl err)"
    using snoc.prems [of evs _ "[]"] by simp
  ultimately show ?case
    using assms(1) unfolding scaled_only_by_operator_def by (metis append.assoc)
qed

text \<open>With the config map there, a run that reads the StatefulSet as pending ends in an error.\<close>

lemma revival_blocked:
  assumes "w_get_job w h nn = Inr j" and "probe_finished w j sfsName"
    and "w_get_sfs w (h @ [GetJob nn]) \<lparr>nn_namespace = nn_namespace nn, nn_name = sfsName\<rparr> = Inr sfs"
    and "map_index (sfs_annotations sfs) iamProbeStatus \<noteq> iamProbeDone" and "sfs_annotations sfs \<noteq> None"
    and "\<And>later. w_create_cm w (h @ later) (refresh_config_map sfs) = Some AlreadyExists"
  shows "(\<exists>e. fst (job_reconcile w nn h) = Returns (False, Some e)) \<and>
    (\<forall>e \<in> set (new_events h (snd (job_reconcile w nn h))). (\<forall>s. e \<noteq> UpdateSfs s) \<and> (\<forall>j'. e \<noteq> UpdateJob j'))"
proof -
  let ?h = "h @ [GetJob nn, GetSfs \<lparr>nn_namespace = nn_namespace nn, nn_name = sfsName\<rparr>]"
  have run: "job_reconcile w nn h = revive_sfs w j sfs ?h"
    using job_reconcile_run [OF assms(1,2)] assms(3,4) by simp
  have exists: "w_create_cm w ?h (refresh_config_map sfs) = Some AlreadyExists" by (rule assms(6))
  show ?thesis
    by (cases rule: revive_sfs_cases [of sfs w j ?h]) (use run assms(5) exists in auto)
qed

text \<open>
  C39: A refused update stops the revival for good. Once the API server has refused the update
  that revives a StatefulSet, a conflict included, no run of the operator, however long, sends
  another update of that StatefulSet, since the config map of the first attempt is in the
  way: every later reconcile of a completed probe job, its finalizer in place, that finds the
  StatefulSet still pending (its annotations not gone altogether) ends in an error and updates
  neither it nor the job. If it had no replicas when the update was refused, it is read with none ever after.
  Assumed: the name of an accepted config map stays taken, so nobody deletes it
  (\<open>config_maps_stay\<close>), and nobody else scales the StatefulSet (\<open>scaled_only_by_operator\<close>,
  for the replicas only).
\<close>

theorem conflict_blocks_revival:
  assumes "start_operator b = Inr op" and "(operator_step op js env w)\<^sup>*\<^sup>* (started_state op) s"
    and "os_history s = before @ UpdateSfs sfs # after" and "w_update_sfs w before sfs = Inl err"
    and "config_maps_stay w"
  shows "(\<forall>sfs'. UpdateSfs sfs' \<in> set after \<longrightarrow> sfs_key sfs' \<noteq> sfs_key sfs) \<and>
    (\<forall>nn j sfsName sfs'. w_get_job w (os_history s) nn = Inr j \<longrightarrow> probe_finished w j sfsName \<longrightarrow>
       w_get_sfs w (os_history s @ [GetJob nn]) \<lparr>nn_namespace = nn_namespace nn, nn_name = sfsName\<rparr> = Inr sfs' \<longrightarrow>
       sfs_key sfs' = sfs_key sfs \<longrightarrow> map_index (sfs_annotations sfs') iamProbeStatus \<noteq> iamProbeDone \<longrightarrow>
       sfs_annotations sfs' \<noteq> None \<longrightarrow>
       (\<exists>e. fst (job_reconcile w nn (os_history s)) = Returns (False, Some e)) \<and>
       (\<forall>e \<in> set (new_events (os_history s) (snd (job_reconcile w nn (os_history s)))).
          (\<forall>x. e \<noteq> UpdateSfs x) \<and> (\<forall>j'. e \<noteq> UpdateJob j'))) \<and>
    (\<forall>replicas sfs'. scaled_only_by_operator w (sfs_key sfs) replicas \<longrightarrow> replicas before = Some 0 \<longrightarrow>
       w_get_sfs w (os_history s) (sfs_key sfs) = Inr sfs' \<longrightarrow> sfs_replicas sfs' = Some 0)"
proof -
  have ok: "events_ok (event_ok w (op_reconciler op)) [] (before @ UpdateSfs sfs # after)"
    using run_ok_reachable [OF assms(1,2)] assms(3) by (simp add: run_ok_def)
  have other: "sfs_key sfs' \<noteq> sfs_key sfs" if "UpdateSfs sfs' \<in> set after" for sfs'
    using assms(5) ok that by (rule no_second_update)
  have "event_ok w (op_reconciler op) before (UpdateSfs sfs)" using ok by simp
  then obtain reads cm where first: "before = reads @ [CreateConfigMap cm]" "w_create_cm w reads cm = None"
    "\<And>x. sfs_key x = sfs_key sfs \<Longrightarrow> cm_key (refresh_config_map x) = cm_key cm"
    by (rule update_follows_creation) blast
  have blocked: "(\<exists>e. fst (job_reconcile w nn (os_history s)) = Returns (False, Some e)) \<and>
      (\<forall>e \<in> set (new_events (os_history s) (snd (job_reconcile w nn (os_history s)))).
         (\<forall>x. e \<noteq> UpdateSfs x) \<and> (\<forall>j'. e \<noteq> UpdateJob j'))"
    if read: "w_get_job w (os_history s) nn = Inr j" "probe_finished w j sfsName"
      "w_get_sfs w (os_history s @ [GetJob nn]) \<lparr>nn_namespace = nn_namespace nn, nn_name = sfsName\<rparr> = Inr sfs'"
      and key: "sfs_key sfs' = sfs_key sfs"
      and pending: "map_index (sfs_annotations sfs') iamProbeStatus \<noteq> iamProbeDone" "sfs_annotations sfs' \<noteq> None"
    for nn j sfsName sfs'
  proof -
    have "w_create_cm w (reads @ CreateConfigMap cm # (UpdateSfs sfs # after @ later)) (refresh_config_map sfs')
        = Some AlreadyExists" for later
      using assms(5) first(2) first(3) [OF key] unfolding config_maps_stay_def by blast
    then have "w_create_cm w (os_history s @ later) (refresh_config_map sfs') = Some AlreadyExists" for later
      by (simp add: assms(3) first(1))
    with read pending show ?thesis by (rule revival_blocked)
  qed
  have unscaled: "sfs_replicas sfs' = Some 0"
    if scaled: "scaled_only_by_operator w (sfs_key sfs) replicas" and zero: "replicas before = Some 0"
      and read: "w_get_sfs w (os_history s) (sfs_key sfs) = Inr sfs'" for replicas sfs'
  proof -
    have "replicas (before @ UpdateSfs sfs # after) = replicas before"
    proof (rule replicas_stay [OF scaled])
      fix pre x post
      assume "UpdateSfs sfs # after = pre @ UpdateSfs x # post" "sfs_key x = sfs_key sfs"
      with other assms(4) show "\<exists>err. w_update_sfs w (before @ pre) x = Inl err"
        by (cases pre) auto
    qed
    then show ?thesis
      using scaled read zero assms(3) unfolding scaled_only_by_operator_def by metis
  qed
  show ?thesis
    by (intro conjI allI impI) (use other blocked unscaled in blast)+
qed

section \<open>From the admission to the grant\<close>

text \<open>
  What Kubernetes documents of its API server. An object read is the one of that name, and
  an update returns the object that was sent, with nothing changed but what the server
  itself maintains (\<open>api_laws\<close>). A validating webhook stands before storage: an object
  that is stored was let through in the state it is stored in (\<open>admission_law\<close>).
\<close>

definition api_laws :: "world \<Rightarrow> bool" where
  "api_laws w \<longleftrightarrow>
     (\<forall>h nn sa. w_get_sa w h nn = Inr sa \<longrightarrow> om_namespace (sa_meta sa) = nn_namespace nn) \<and>
     (\<forall>h sa sa'. w_update_sa w h sa = Inr sa' \<longrightarrow>
        sa_annotations sa' = sa_annotations sa \<and> om_creation (sa_meta sa') = om_creation (sa_meta sa))"

definition admission_law :: "sa_validator \<Rightarrow> world \<Rightarrow> bool" where
  "admission_law v w \<longleftrightarrow>
     (\<forall>h nn sa grp. w_get_sa w h nn = Inr sa \<longrightarrow> impersonates sa grp \<longrightarrow>
        (\<exists>env rt rt'. validate v env (SAObject sa) rt = Returns (None, rt')))"

lemma handle_gcp_sa_writes:
  assumes "SetIamPolicy ref p \<in> set (new_events h (snd (handle_gcp_sa r w sa grp nn h)))"
  obtains expr i where "expiration_expr sa = Inr expr"
    and "index_func (has_title (iam_condition_string w nn)) (p_bindings p) = Some i"
    and "grants_as (wanted_binding r w nn expr) (p_bindings p ! i)"
    and "ref = to_gcp_sa_ref (r_group_sa_project r) grp"
proof (cases "w_get_iam w h (to_gcp_sa_ref (r_group_sa_project r) grp)")
  case (Inl e)
  with assms handle_gcp_sa_early(1) [OF Inl] show thesis by simp
next
  case got: (Inr read)
  show thesis
  proof (cases "expiration_expr sa")
    case (Inl e)
    with assms handle_gcp_sa_early(2) [OF got Inl] show thesis by simp
  next
    case (Inr expr)
    note run = handle_gcp_sa_run [OF got Inr, of nn]
    show thesis
    proof (cases "ensured r w nn expr read")
      case (Panics k)
      with assms run show thesis by simp
    next
      case (Returns mb)
      then obtain m bs where ens: "ensured r w nn expr read = Returns (m, bs)" by (cases mb) auto
      have "p_bindings p = bs \<and> ref = to_gcp_sa_ref (r_group_sa_project r) grp"
        using assms run ens
        by (auto simp: update_iam_policy_def call_set_iam_def Let_def split: prod.splits if_splits)
      with ensured_spec(2) [OF ens] Inr that show thesis by auto
    qed
  qed
qed

lemma ensured_finalizer_keeps:
  assumes "api_laws w" and "ensure_sa_finalizer w sa h = (Inr sa', h')"
  shows "sa_annotations sa' = sa_annotations sa" and "om_creation (sa_meta sa') = om_creation (sa_meta sa)"
proof -
  have "sa_annotations sa' = sa_annotations sa \<and> om_creation (sa_meta sa') = om_creation (sa_meta sa)"
    using assms
    by (auto simp: ensure_sa_finalizer_def call_update_sa_def set_sa_finalizers_def api_laws_def Let_def
        split: if_splits prod.splits sum.splits)
  then show "sa_annotations sa' = sa_annotations sa" "om_creation (sa_meta sa') = om_creation (sa_meta sa)"
    by auto
qed

lemma expiration_expr_cong:
  assumes "sa_annotations sa' = sa_annotations sa" and "om_creation (sa_meta sa') = om_creation (sa_meta sa)"
  shows "expiration_expr sa' = expiration_expr sa"
  unfolding expiration_expr_def assms ..

text \<open>A written policy that binds this service account was written for a live object.\<close>

lemma grant_is_live:
  assumes "SetIamPolicy ref p \<in> set (new_events h (snd (sa_reconcile r w nn h)))"
    and "binding \<in> set (p_bindings p)" and "has_title (iam_condition_string w nn) binding"
  obtains sa grp sa' t h' where "w_get_sa w h nn = Inr sa" and "impersonates sa grp"
    and "ensure_sa_finalizer w sa (h @ [GetSA nn]) = (Inr sa', h')"
    and "SetIamPolicy ref p \<in> set (new_events h' (snd (handle_gcp_sa r w sa' grp nn h')))"
proof (cases rule: sa_reconcile_cases [of r w nn h])
  case (no_iam evs)
  with assms(1) show thesis by (auto simp: list_all_iff)
next
  case (live sa grp sa' pre post)
  let ?h = "h @ GetSA nn # pre"
  have "SetIamPolicy ref p \<in> set (new_events ?h (snd (handle_gcp_sa r w sa' grp nn ?h)))"
  proof (cases rule: handle_gcp_sa_trace [of r w sa' grp nn ?h])
    case read
    with live assms(1) show ?thesis by (auto simp: list_all_iff)
  next
    case (wrote read p')
    with live assms(1) show ?thesis by (auto simp: list_all_iff)
  qed
  with live that show thesis by (simp add: impersonates_def)
next
  case (dying sa grp post)
  show thesis
  proof (cases rule: remove_iam_binding_trace [of r w grp nn "h @ [GetSA nn]"])
    case read
    with dying assms(1) show thesis by (auto simp: list_all_iff)
  next
    case (wrote read p')
    with dying assms show thesis by (auto simp: list_all_iff)
  qed
qed

text \<open>
  What an admission stands for: the owner of the namespace is a confirmed member of the group,
  and the condition of the binding ends in time for a group that requires a reason.
\<close>

lemma admitted_grant:
  assumes "va_auth v = user_is_member_of ci" and "impersonates sa grp"
    and "validate v env (SAObject sa) rt = Returns (None, rt')" and "expiration_expr sa = Inr expr"
  obtains user c where "om_namespace (sa_meta sa) = userNamespacePrefix @ user" and "ci_confirms ci user grp"
    and "get_config (va_configs v) grp = Some c"
    and "gc_reason_required c \<Longrightarrow>
      \<exists>end \<le> om_creation (sa_meta sa) + gc_max_duration c.
        expr = ''request.time < timestamp('' @ [CHR 0x27] @ rfc3339_utc end @ [CHR 0x27] @ '')''"
proof -
  obtain user where user: "om_namespace (sa_meta sa) = userNamespacePrefix @ user" "ci_confirms ci user grp"
    using google.admitted_confirmed [OF assms(1-3)] by (auto simp: owner_of_Some_iff)
  obtain c where c: "get_config (va_configs v) grp = Some c"
    and timed: "gc_reason_required c \<Longrightarrow> \<exists>d reason. privileged_ok c sa d reason"
    using assms(2,3) by (cases rule: validate_cases [of sa grp v env rt]) auto
  have "\<exists>end \<le> om_creation (sa_meta sa) + gc_max_duration c.
      expr = ''request.time < timestamp('' @ [CHR 0x27] @ rfc3339_utc end @ [CHR 0x27] @ '')''"
    if required: "gc_reason_required c"
  proof -
    obtain s d where d: "map_get (sa_annotations sa) requestedServiceDurationAnnotation = Some s"
        "parse_duration s = Some d" "d \<le> gc_max_duration c"
      using timed [OF required] by (auto simp: privileged_ok_def)
    then have "s \<noteq> []" by auto
    with d assms(4) show ?thesis
      by (intro exI [of _ "om_creation (sa_meta sa) + d"]) (simp add: expiration_expr_def map_index_get)
  qed
  with user c that show thesis by blast
qed

lemma started_auth:
  assumes "start_operator b = Inr op" and "op_webhooks op = Some (m, v)"
  obtains ci where "bt_cloud_identity b = Inr ci" and "va_auth v = user_is_member_of ci"
  using assms(1) by (rule start_operator_Inr) (use assms(2) that in \<open>auto simp: validator_of_def split: if_splits\<close>)

text \<open>
  C2: No grant without a confirmed membership: when the reconciler writes a policy that
  binds a service account, the account is in the namespace of a user whom Cloud Identity
  confirmed as a member of the very group the policy belongs to, and the first binding of
  that title grants what this account may have: for a group that requires a reason only
  until some moment within the longest duration after the creation.
\<close>

theorem grants_only_to_confirmed_members:
  assumes "start_operator b = Inr op" and "op_webhooks op = Some (m, v)"
    and "api_laws w" and "admission_law v w"
    and "SetIamPolicy ref p \<in> set (new_events h (snd (sa_reconcile (op_reconciler op) w nn h)))"
    and "binding \<in> set (p_bindings p)" and "has_title (iam_condition_string w nn) binding"
  shows "\<exists>ci sa user grp c expr i. bt_cloud_identity b = Inr ci \<and> w_get_sa w h nn = Inr sa \<and>
    impersonates sa grp \<and> ref = to_gcp_sa_ref (r_group_sa_project (op_reconciler op)) grp \<and>
    nn_namespace nn = userNamespacePrefix @ user \<and> ci_confirms ci user grp \<and>
    get_config (va_configs v) grp = Some c \<and>
    index_func (has_title (iam_condition_string w nn)) (p_bindings p) = Some i \<and>
    grants_as (wanted_binding (op_reconciler op) w nn expr) (p_bindings p ! i) \<and>
    (gc_reason_required c \<longrightarrow>
       (\<exists>end \<le> om_creation (sa_meta sa) + gc_max_duration c.
          expr = ''request.time < timestamp('' @ [CHR 0x27] @ rfc3339_utc end @ [CHR 0x27] @ '')''))"
  using assms(5-7)
proof (rule grant_is_live)
  fix sa grp sa' h'
  assume sa: "w_get_sa w h nn = Inr sa" and imp: "impersonates sa grp"
    and fin: "ensure_sa_finalizer w sa (h @ [GetSA nn]) = (Inr sa', h')"
    and wrote: "SetIamPolicy ref p \<in> set (new_events h' (snd (handle_gcp_sa (op_reconciler op) w sa' grp nn h')))"
  obtain env rt rt' where adm: "validate v env (SAObject sa) rt = Returns (None, rt')"
    using assms(4) sa imp unfolding admission_law_def by blast
  obtain ci where ci: "bt_cloud_identity b = Inr ci" and auth: "va_auth v = user_is_member_of ci"
    using assms(1,2) by (rule started_auth)
  obtain expr i where expr: "expiration_expr sa' = Inr expr"
    and bound: "index_func (has_title (iam_condition_string w nn)) (p_bindings p) = Some i"
      "grants_as (wanted_binding (op_reconciler op) w nn expr) (p_bindings p ! i)"
    and ref: "ref = to_gcp_sa_ref (r_group_sa_project (op_reconciler op)) grp"
    using handle_gcp_sa_writes [OF wrote] by blast
  have "expiration_expr sa = Inr expr"
    using expr expiration_expr_cong [OF ensured_finalizer_keeps [OF assms(3) fin]] by simp
  from admitted_grant [OF auth imp adm this] obtain user c where
    user: "om_namespace (sa_meta sa) = userNamespacePrefix @ user" "ci_confirms ci user grp"
    and c: "get_config (va_configs v) grp = Some c"
    and "gc_reason_required c \<Longrightarrow> \<exists>end \<le> om_creation (sa_meta sa) + gc_max_duration c.
      expr = ''request.time < timestamp('' @ [CHR 0x27] @ rfc3339_utc end @ [CHR 0x27] @ '')''"
    by blast
  moreover have ns: "nn_namespace nn = userNamespacePrefix @ user"
    using sa assms(3) user(1) by (metis api_laws_def)
  ultimately show ?thesis
    using ci sa imp ref bound by blast
qed

section \<open>Witnesses\<close>

definition example_operator :: operator where
  "example_operator = \<lparr>op_tls = [disable_http2], op_router = new_router [CloudLogging []],
     op_webhooks = Some (mutator_of example_operator_config, validator_of example_operator_config example_member_ci),
     op_reconciler = \<lparr>r_group_sa_project = ''groups'', r_cluster_project = ''cluster''\<rparr>\<rparr>"

lemma example_operator_started: "start_operator example_boot = Inr example_operator"
  by (simp add: example_started example_operator_def)

lemma example_operator_fields [simp]:
  "op_webhooks example_operator =
     Some (mutator_of example_operator_config, validator_of example_operator_config example_member_ci)"
  "op_reconciler example_operator = example_reconciler"
  "op_router example_operator = new_router [CloudLogging []]"
  by (simp_all add: example_operator_def example_reconciler_def)

abbreviation example_live_sa :: service_account where
  "example_live_sa \<equiv> example_sa example_group [] None"


lemma example_operator_config_of:
  "get_config (oc_configs example_operator_config) ''dapla-data-admins'' = Some example_admin_config"
  "get_config (oc_configs example_operator_config) ''dapla-developers'' = Some (example_team_config False)"
  by (simp_all add: example_operator_config_def get_config_find config_applies_def has_suffix_def
      example_admin_config_def example_team_config_def)

lemma example_membership: "user_is_member_of example_member_ci user grp = Inr True"
  by (simp add: user_is_member_of_def example_member_ci_def)

lemma example_operator_admits:
  "\<exists>rt' es. validate (validator_of example_operator_config example_member_ci) env (SAObject example_admin_sa)
     (new_router [CloudLogging []]) = Returns (None, rt') \<and> rt_sinks rt' = [CloudLogging es]"
proof -
  let ?v = "validator_of example_operator_config example_member_ci" and ?rt = "new_router [CloudLogging []]"
  have may: "may_impersonate ?v example_admin_sa ''dapla-data-admins''"
    using example_may(3)
    by (auto simp: may_impersonate_def validator_of_def example_operator_config_of example_validator_def example_config)
  from example_impersonates show ?thesis
  proof (cases rule: validate_cases [of example_admin_sa "''dapla-data-admins''" ?v env ?rt])
    case (refused e)
    with may show ?thesis by simp
  next
    case (unlimited c user)
    then show ?thesis by (simp add: validator_of_def example_operator_config_of)
  next
    case (limited c user d reason)
    let ?p = "audit_entry ?v example_admin_sa c user (to_team c ''dapla-data-admins'') ''dapla-data-admins'' reason d"
    have "payload_hash env ?p \<notin> set (rt_recent ?rt)" by (simp add: new_router_def)
    from record_all_fresh [OF router_ok_new this] limited(1) show ?thesis
      by (auto simp: new_router_def)
  qed
qed

theorem every_privileged_admission_is_logged_witness:
  "\<exists>s es entry. (operator_step example_operator (example_json (example_sfs ''dapla-developers'')) example_audit_env
      quiet_world)\<^sup>*\<^sup>* (started_state example_operator) s \<and>
    CloudLogging es \<in> set (rt_sinks (os_router s)) \<and> entry \<in> set es"
proof -
  let ?v = "validator_of example_operator_config example_member_ci"
  let ?start = "started_state example_operator" and ?js = "example_json (example_sfs ''dapla-developers'')"
  obtain rt' es where adm: "validate ?v example_audit_env (SAObject example_admin_sa)
      (new_router [CloudLogging []]) = Returns (None, rt')" and sinks: "rt_sinks rt' = [CloudLogging es]"
    using example_operator_admits by blast
  let ?s = "?start\<lparr>os_router := rt', os_admitted := os_admitted ?start @ [example_admin_sa]\<rparr>"
  have "operator_step example_operator ?js example_audit_env quiet_world ?start ?s"
    by (rule operator_step.admitting [OF example_operator_fields(1)]) (simp add: started_state_def adm)
  then have run: "(operator_step example_operator ?js example_audit_env quiet_world)\<^sup>*\<^sup>* ?start ?s"
    by (rule r_into_rtranclp)
  have es: "CloudLogging es \<in> set (rt_sinks (os_router ?s))" by (simp add: sinks)
  have "gc_reason_required example_admin_config" "get_config (va_configs ?v) ''dapla-data-admins'' = Some example_admin_config"
    "example_admin_sa \<in> set (os_admitted ?s)"
    by (simp_all add: validator_of_def example_operator_config_of)
  with every_privileged_admission_is_logged [OF example_operator_started example_operator_fields(1) run _
      example_impersonates _ _ es]
  obtain entry where "entry \<in> set es" by blast
  with run es show ?thesis by blast
qed

text \<open>A cluster that refuses every update of a StatefulSet, and a second config map of one name.\<close>

fun creates_cm :: "namespaced_name \<Rightarrow> event \<Rightarrow> bool" where
  "creates_cm nn (CreateConfigMap c) \<longleftrightarrow> cm_key c = nn"
| "creates_cm nn e \<longleftrightarrow> False"

definition example_conflict_world :: world where
  "example_conflict_world = (example_job_world (Inr (example_probed example_running)))
     \<lparr>w_update_sfs := (\<lambda>_ _. Inl Conflict),
      w_create_cm := (\<lambda>t cm. if list_ex (creates_cm (cm_key cm)) t then Some AlreadyExists else None)\<rparr>"

lemma example_conflict_fields [simp]:
  "w_get_job example_conflict_world t nn = Inr example_job"
  "w_get_sfs example_conflict_world t nn = Inr (example_probed example_running)"
  "w_update_sfs example_conflict_world t x = Inl Conflict"
  "w_create_cm example_conflict_world t cm = (if list_ex (creates_cm (cm_key cm)) t then Some AlreadyExists else None)"
  "probe_finished example_conflict_world example_job ''app''"
  using example_probe_finished [of "Inr (example_probed example_running)"]
  by (simp_all add: example_conflict_world_def probe_finished_def)

lemma example_conflict_laws:
  "config_maps_stay example_conflict_world"
  "scaled_only_by_operator example_conflict_world nn (\<lambda>_. Some 0)"
  by (simp_all add: config_maps_stay_def scaled_only_by_operator_def example_probed_def)

lemma example_conflict_run:
  "\<exists>x. job_reconcile example_conflict_world example_job_nn [] =
    (Returns (True, None),
     [GetJob example_job_nn, GetSfs \<lparr>nn_namespace = nn_namespace example_job_nn, nn_name = ''app''\<rparr>,
      CreateConfigMap (refresh_config_map (example_probed example_running)), UpdateSfs x]) \<and>
    sfs_key x = sfs_key (example_probed example_running)"
proof -
  let ?w = example_conflict_world and ?s = "example_probed example_running"
  let ?h = "[GetJob example_job_nn, GetSfs \<lparr>nn_namespace = nn_namespace example_job_nn, nn_name = ''app''\<rparr>]"
  have run: "job_reconcile ?w example_job_nn [] = revive_sfs ?w example_job ?s ?h"
    using job_reconcile_run [of ?w "[]" example_job_nn example_job "''app''"] by simp
  show ?thesis
  proof (cases rule: revive_sfs_cases [of ?s ?w example_job ?h])
    case (update anns i h2)
    let ?x = "revived (Some (AList.update iamProbeStatus iamProbeDone anns)) i ?s"
    have "revival_of ?s ?x" unfolding revival_of_def using update(1,2) by blast
    then have "sfs_key ?x = sfs_key ?s" by (rule revival_key)
    with run update(4,5) show ?thesis by (intro exI [of _ ?x]) simp
  qed (use run in auto)
qed

theorem conflict_blocks_revival_witness:
  "\<exists>s e. (operator_step example_operator (example_json (example_sfs ''dapla-developers'')) example_audit_env
      example_conflict_world)\<^sup>*\<^sup>* (started_state example_operator) s \<and>
    fst (job_reconcile example_conflict_world example_job_nn (os_history s)) = Returns (False, Some e) \<and>
    sfs_replicas (example_probed example_running) = Some 0"
proof -
  let ?w = example_conflict_world and ?js = "example_json (example_sfs ''dapla-developers'')"
  let ?probed = "example_probed example_running"
  let ?s = "(started_state example_operator)\<lparr>os_history := snd (job_reconcile ?w example_job_nn [])\<rparr>"
  have "operator_step example_operator ?js example_audit_env ?w (started_state example_operator) ?s"
    using operator_step.reconciling_job [of example_operator ?js example_audit_env ?w
        "started_state example_operator" example_job_nn]
    by (simp add: started_state_def)
  then have run: "(operator_step example_operator ?js example_audit_env ?w)\<^sup>*\<^sup>* (started_state example_operator) ?s"
    by (rule r_into_rtranclp)
  obtain x where x: "os_history ?s =
      [GetJob example_job_nn, GetSfs \<lparr>nn_namespace = nn_namespace example_job_nn, nn_name = ''app''\<rparr>,
       CreateConfigMap (refresh_config_map ?probed)] @ UpdateSfs x # []" and key: "sfs_key x = sfs_key ?probed"
    using example_conflict_run by auto
  note blocked = conflict_blocks_revival [OF example_operator_started run x example_conflict_fields(3)
      example_conflict_laws(1)]
  have "\<exists>e. fst (job_reconcile ?w example_job_nn (os_history ?s)) = Returns (False, Some e)"
    using conjunct1 [OF conjunct2 [OF blocked], rule_format, of example_job_nn example_job "''app''" ?probed] key
    by simp
  moreover have "sfs_replicas ?probed = Some 0"
    using conjunct2 [OF conjunct2 [OF blocked], rule_format, OF example_conflict_laws(2)] by simp
  ultimately show ?thesis using run by blast
qed

text \<open>A cluster that stores one service account, under its own name.\<close>

definition example_named_world :: world where
  "example_named_world = (example_world example_live_sa None)
     \<lparr>w_get_sa := (\<lambda>_ nn. if nn = example_nn then Inr example_live_sa else Inl NotFound)\<rparr>"

lemma handle_gcp_sa_reads_no_sa: "handle_gcp_sa r (w\<lparr>w_get_sa := f\<rparr>) sa grp nn h = handle_gcp_sa r w sa grp nn h"
proof -
  have same: "call_get_iam (w\<lparr>w_get_sa := f\<rparr>) = call_get_iam w"
    "update_iam_policy (w\<lparr>w_get_sa := f\<rparr>) = update_iam_policy w"
    "wanted_binding r (w\<lparr>w_get_sa := f\<rparr>) = wanted_binding r w"
    "iam_condition_string (w\<lparr>w_get_sa := f\<rparr>) = iam_condition_string w"
    by (intro ext, simp add: call_get_iam_def update_iam_policy_def call_set_iam_def wanted_binding_def
        iam_condition_string_def)+
  show ?thesis unfolding handle_gcp_sa_def same ..
qed

lemma live_reconcile_reads_no_sa:
  "ensure_sa_finalizer (w\<lparr>w_get_sa := f\<rparr>) sa h = ensure_sa_finalizer w sa h"
  "annotate_sa r (w\<lparr>w_get_sa := f\<rparr>) sa grp h = annotate_sa r w sa grp h"
proof -
  have same: "call_update_sa (w\<lparr>w_get_sa := f\<rparr>) = call_update_sa w"
    "w_contains_finalizer (w\<lparr>w_get_sa := f\<rparr>) = w_contains_finalizer w"
    "w_add_finalizer (w\<lparr>w_get_sa := f\<rparr>) = w_add_finalizer w"
    by (intro ext, simp add: call_update_sa_def)+
  show "ensure_sa_finalizer (w\<lparr>w_get_sa := f\<rparr>) sa h = ensure_sa_finalizer w sa h"
    unfolding ensure_sa_finalizer_def same ..
  show "annotate_sa r (w\<lparr>w_get_sa := f\<rparr>) sa grp h = annotate_sa r w sa grp h"
    unfolding annotate_sa_def same ..
qed

lemma example_named_run:
  "snd (sa_reconcile example_reconciler example_named_world example_nn []) =
   snd (sa_reconcile example_reconciler (example_world example_live_sa None) example_nn [])"
proof -
  have "call_get_sa example_named_world example_nn [] = (Inr example_live_sa, [GetSA example_nn])"
    "call_get_sa (example_world example_live_sa None) example_nn [] = (Inr example_live_sa, [GetSA example_nn])"
    by (simp_all add: call_get_sa_def example_named_world_def)
  moreover have "map_get (sa_annotations example_live_sa) impersonateGroupAnnotation = Some ''dapla-developers''"
    "time_ptr_is_zero (om_deletion (sa_meta example_live_sa))"
    by (simp_all add: time_ptr_is_zero_def)
  ultimately show ?thesis
    unfolding sa_reconcile_def
    by (simp only: prod.case sum.case option.case not_not if_True if_False simp_thms)
      (simp only: example_named_world_def handle_gcp_sa_reads_no_sa live_reconcile_reads_no_sa)
qed

lemma example_named_laws:
  "api_laws example_named_world"
  "admission_law (validator_of example_operator_config example_member_ci) example_named_world"
proof -
  show "api_laws example_named_world"
    by (auto simp: api_laws_def example_named_world_def example_world_def quiet_world_def example_nn_def
        example_sa_def split: if_splits)
  let ?v = "validator_of example_operator_config example_member_ci"
  have "impersonates example_live_sa grp \<Longrightarrow> grp = ''dapla-developers''" for grp
    by (simp add: impersonates_def)
  moreover have "\<exists>rt'. validate ?v example_audit_env (SAObject example_live_sa) (new_router []) = Returns (None, rt')"
  proof -
    have imp: "impersonates example_live_sa ''dapla-developers''"
      by (simp add: impersonates_def time_ptr_is_zero_def)
    have "owner_of example_live_sa = Some ''abc''"
      by (simp add: owner_of_Some_iff example_sa_def userNamespacePrefix_def)
    then have "may_impersonate ?v example_live_sa ''dapla-developers''"
      by (auto simp: may_impersonate_def validator_of_def example_operator_config_of example_membership)
    then show ?thesis by (simp add: validate_admits_iff [OF router_ok_new imp])
  qed
  ultimately show "admission_law ?v example_named_world"
    unfolding admission_law_def example_named_world_def by (auto split: if_splits)
qed

theorem grants_only_to_confirmed_members_witness:
  "SetIamPolicy example_ref example_policy
     \<in> set (new_events [] (snd (sa_reconcile example_reconciler example_named_world example_nn []))) \<and>
   (\<exists>user. nn_namespace example_nn = userNamespacePrefix @ user \<and>
      ci_confirms example_member_ci user ''dapla-developers'')"
proof -
  have ev: "SetIamPolicy example_ref example_policy
     \<in> set (new_events [] (snd (sa_reconcile (op_reconciler example_operator) example_named_world example_nn [])))"
    by (simp add: example_named_run example_first_run)
  have b: "example_binding \<in> set (p_bindings example_policy)"
    by (simp add: example_policy_def)
  have t: "has_title (iam_condition_string example_named_world example_nn) example_binding"
  proof -
    have "iam_condition_string example_named_world example_nn
        = iam_condition_string (example_world example_live_sa None) example_nn"
      by (simp add: iam_condition_string_def example_named_world_def)
    then show ?thesis by (simp add: has_title_def)
  qed
  have ci: "bt_cloud_identity example_boot = Inr example_member_ci" by (simp add: example_boot_def)
  have sa: "w_get_sa example_named_world [] example_nn = Inr example_live_sa"
    by (simp add: example_named_world_def)
  have "impersonates example_live_sa grp \<Longrightarrow> grp = ''dapla-developers''" for grp
    by (simp add: impersonates_def)
  with grants_only_to_confirmed_members [OF example_operator_started example_operator_fields(1) example_named_laws
      ev b t] ci sa ev
  show ?thesis by fastforce
qed

end
