(* ===== verification/Deployment.thy ===== *)
theory Deployment
  imports Operator_Runs
begin

text \<open>
  How the handlers are wired to the cluster: what the four \<^verbatim>\<open>SetupWithManager\<close> methods
  register with the manager, in the order of \<^verbatim>\<open>main\<close>, and the webhook configurations of
  \<^verbatim>\<open>config/webhook/manifests.yaml\<close>, by which the API server decides whom to ask. Together
  they put the validating webhook in front of every stored service account.
\<close>

section \<open>The manager\<close>

record gvk =
  gvk_group :: string
  gvk_version :: string
  gvk_kind :: string

datatype hook = Mutating sfs_mutator | Validating sa_validator

datatype reconciler = ServiceAccountReconciler sa_reconciler | JobReconciler

text \<open>What the manager dispatches: objects to reconcilers, paths of its server to webhooks.\<close>

record manager =
  mg_watches :: "(gvk \<times> reconciler) list"
  mg_hooks :: "(string \<times> hook) list"

definition new_manager :: manager where
  "new_manager = \<lparr>mg_watches = [], mg_hooks = []\<rparr>"

text \<open>
  The builders of the library: the error \<^verbatim>\<open>Complete\<close> ends with, under the name \<^verbatim>\<open>main\<close> logs
  it with, and the path it serves a validator for a type at.
\<close>

record builder =
  bu_complete :: "string \<Rightarrow> string option"
  bu_validate_path :: "gvk \<Rightarrow> string"

definition service_account_gvk :: gvk where
  "service_account_gvk = \<lparr>gvk_group = '''', gvk_version = ''v1'', gvk_kind = ''ServiceAccount''\<rparr>"

definition job_gvk :: gvk where
  "job_gvk = \<lparr>gvk_group = ''batch'', gvk_version = ''v1'', gvk_kind = ''Job''\<rparr>"

definition setup_mutator :: "sfs_mutator \<Rightarrow> manager \<Rightarrow> manager" where
  "setup_mutator m mgr =
     mgr\<lparr>mg_hooks := mg_hooks mgr @ [(''/mutate-apps-v1-statefulset'', Mutating m)]\<rparr>"

definition setup_validator :: "builder \<Rightarrow> sa_validator \<Rightarrow> manager \<Rightarrow> string + manager" where
  "setup_validator bu v mgr =
     (case bu_complete bu ''ServiceAccount webhook'' of
        Some e \<Rightarrow> Inl e
      | None \<Rightarrow> Inr (mgr\<lparr>mg_hooks :=
          mg_hooks mgr @ [(bu_validate_path bu service_account_gvk, Validating v)]\<rparr>))"

definition setup_sa_reconciler :: "builder \<Rightarrow> sa_reconciler \<Rightarrow> manager \<Rightarrow> string + manager" where
  "setup_sa_reconciler bu r mgr =
     (case bu_complete bu ''ServiceAccount'' of
        Some e \<Rightarrow> Inl e
      | None \<Rightarrow> Inr (mgr\<lparr>mg_watches :=
          mg_watches mgr @ [(service_account_gvk, ServiceAccountReconciler r)]\<rparr>))"

definition setup_job_reconciler :: "builder \<Rightarrow> manager \<Rightarrow> string + manager" where
  "setup_job_reconciler bu mgr =
     (case bu_complete bu ''Job'' of
        Some e \<Rightarrow> Inl e
      | None \<Rightarrow> Inr (mgr\<lparr>mg_watches := mg_watches mgr @ [(job_gvk, JobReconciler)]\<rparr>))"

text \<open>The stretch of \<^verbatim>\<open>main\<close> that registers the handlers; the first failure ends the program.\<close>

definition setup_handlers ::
  "builder \<Rightarrow> (sfs_mutator \<times> sa_validator) option \<Rightarrow> sa_reconciler \<Rightarrow> manager \<Rightarrow> exit_reason + manager" where
  "setup_handlers bu webhooks r mgr =
     (case (case webhooks of
              None \<Rightarrow> Inr mgr
            | Some (m, v) \<Rightarrow> setup_validator bu v (setup_mutator m mgr)) of
        Inl e \<Rightarrow> Inl (RegistrationFailed ''ServiceAccount webhook'' e)
      | Inr mgr1 \<Rightarrow>
     (case setup_sa_reconciler bu r mgr1 of
        Inl e \<Rightarrow> Inl (RegistrationFailed ''ServiceAccount'' e)
      | Inr mgr2 \<Rightarrow>
     (case setup_job_reconciler bu mgr2 of
        Inl e \<Rightarrow> Inl (RegistrationFailed ''Job'' e)
      | Inr mgr3 \<Rightarrow> Inr mgr3)))"

text \<open>The documentation of the library gives the path of a validator for a type.\<close>

definition to_lower :: "string \<Rightarrow> string" where
  "to_lower = map (\<lambda>c. if c \<in> set ''ABCDEFGHIJKLMNOPQRSTUVWXYZ''
                      then char_of (of_char c + 32 :: nat) else c)"

definition documented_path :: "gvk \<Rightarrow> string" where
  "documented_path g =
     ''/validate-'' @ map (\<lambda>c. if c = CHR ''.'' then CHR ''-'' else c) (gvk_group g) @ ''-'' @
     gvk_version g @ ''-'' @ to_lower (gvk_kind g)"

section \<open>The webhook configurations\<close>

record webhook_config =
  wc_path :: string
  wc_fails_closed :: bool
  wc_groups :: "string list"
  wc_versions :: "string list"
  wc_operations :: "string list"
  wc_resources :: "string list"

definition mutating_config :: webhook_config where
  "mutating_config = \<lparr>wc_path = ''/mutate-apps-v1-statefulset'', wc_fails_closed = True,
     wc_groups = [''apps''], wc_versions = [''v1''], wc_operations = [''CREATE'', ''UPDATE''],
     wc_resources = [''statefulsets'']\<rparr>"

definition validating_config :: webhook_config where
  "validating_config = \<lparr>wc_path = ''/validate--v1-serviceaccount'', wc_fails_closed = True,
     wc_groups = [''''], wc_versions = [''v1''], wc_operations = [''CREATE'', ''UPDATE''],
     wc_resources = [''serviceaccounts'']\<rparr>"

text \<open>Whether a configuration is about a request: its group, version, resource and operation.\<close>

definition concerns :: "webhook_config \<Rightarrow> string \<Rightarrow> string \<Rightarrow> string \<Rightarrow> string \<Rightarrow> bool" where
  "concerns c grp version resource operation \<longleftrightarrow>
     grp \<in> set (wc_groups c) \<and> version \<in> set (wc_versions c) \<and>
     resource \<in> set (wc_resources c) \<and> operation \<in> set (wc_operations c)"

text \<open>The webhooks a request is sent to: of each configuration it concerns, what is served at its path.\<close>

definition asked ::
  "webhook_config list \<Rightarrow> manager \<Rightarrow> string \<Rightarrow> string \<Rightarrow> string \<Rightarrow> string \<Rightarrow> hook option list" where
  "asked configs mgr grp version resource operation =
     map (\<lambda>c. map_of (mg_hooks mgr) (wc_path c))
       (filter (\<lambda>c. concerns c grp version resource operation) configs)"

text \<open>
  Whether a webhook lets a service account through: the library calls the entry point of the
  operation. A path nobody serves, or the webhook of another type, does not answer that the
  request is allowed.
\<close>

definition validated :: "sa_validator \<Rightarrow> string \<Rightarrow> service_account \<Rightarrow> bool" where
  "validated v operation sa \<longleftrightarrow>
     (\<exists>env old rt rt'.
        (if operation = ''CREATE'' then validate_create v env (SAObject sa) rt
         else if operation = ''UPDATE'' then validate_update v env old (SAObject sa) rt
         else validate_delete v env (SAObject sa) rt) = Returns (None, rt'))"

definition lets_through :: "hook option \<Rightarrow> string \<Rightarrow> service_account \<Rightarrow> bool" where
  "lets_through hook operation sa =
     (case hook of Some (Validating v) \<Rightarrow> validated v operation sa | _ \<Rightarrow> False)"

text \<open>
  What Kubernetes documents of admission: an object is stored by a creation or an update, and
  only when every webhook that a configuration which fails closed sends the request to let
  it through in the state it is stored in; and an update is accepted only if they all let
  through what was sent.
\<close>

definition admission_control :: "webhook_config list \<Rightarrow> manager \<Rightarrow> world \<Rightarrow> bool" where
  "admission_control configs mgr w \<longleftrightarrow>
     (\<forall>h nn sa. w_get_sa w h nn = Inr sa \<longrightarrow>
        (\<exists>operation \<in> {''CREATE'', ''UPDATE''}.
           \<forall>hook \<in> set (asked (filter wc_fails_closed configs) mgr '''' ''v1'' ''serviceaccounts'' operation).
             lets_through hook operation sa)) \<and>
     (\<forall>h sa sa'. w_update_sa w h sa = Inr sa' \<longrightarrow>
        (\<forall>hook \<in> set (asked (filter wc_fails_closed configs) mgr '''' ''v1'' ''serviceaccounts'' ''UPDATE'').
           lets_through hook ''UPDATE'' sa))"

text \<open>The part of it the mutating webhook relies on: the updates it gets accepted were validated.\<close>

definition update_law :: "sa_validator \<Rightarrow> world \<Rightarrow> bool" where
  "update_law v w \<longleftrightarrow>
     (\<forall>h sa sa'. w_update_sa w h sa = Inr sa' \<longrightarrow>
        (\<exists>env rt rt'. validate v env (SAObject sa) rt = Returns (None, rt')))"

section \<open>Lemmas\<close>

lemma documented_service_account_path: "documented_path service_account_gvk = ''/validate--v1-serviceaccount''"
  by code_simp

text \<open>Registration succeeds exactly when every builder does, and then leaves these tables.\<close>

lemma setup_handlers_hooked:
  "setup_handlers bu (Some (m, v)) r new_manager = Inr mgr \<Longrightarrow>
     mg_hooks mgr = [(''/mutate-apps-v1-statefulset'', Mutating m),
       (bu_validate_path bu service_account_gvk, Validating v)] \<and>
     mg_watches mgr = [(service_account_gvk, ServiceAccountReconciler r), (job_gvk, JobReconciler)]"
  by (auto simp: setup_handlers_def setup_validator_def setup_mutator_def setup_sa_reconciler_def
      setup_job_reconciler_def new_manager_def split: option.splits sum.splits)

lemma setup_handlers_Inr:
  "(\<forall>name. bu_complete bu name = None) \<Longrightarrow> \<exists>mgr'. setup_handlers bu webhooks r mgr = Inr mgr'"
  by (auto simp: setup_handlers_def setup_validator_def setup_sa_reconciler_def setup_job_reconciler_def
      split: option.split)

text \<open>An operator that starts has registered its handlers.\<close>

lemma started_operator_registered:
  assumes "start_operator b = Inr op" and "bu_complete bu = bt_register b"
  shows "\<exists>mgr. setup_handlers bu (op_webhooks op) (op_reconciler op) new_manager = Inr mgr"
proof -
  let ?enabled = "bt_getenv b ''ENABLE_WEBHOOKS'' \<noteq> ''false''"
  have steps: "first_failure
      ((if ?enabled then [(''ServiceAccount webhook'', bt_register b ''ServiceAccount webhook'')] else []) @
       [(''ServiceAccount'', bt_register b ''ServiceAccount''), (''Job'', bt_register b ''Job''),
        (''healthz'', bt_register b ''healthz''), (''readyz'', bt_register b ''readyz'')]) = None"
    using assms(1) by (auto simp: start_operator_def Let_def simp del: first_failure.simps
        split: option.splits sum.splits)
  have hooks: "op_webhooks op = None" if "\<not> ?enabled"
    using assms(1) by (rule start_operator_Inr) (use that in simp)
  from steps have "bt_register b ''ServiceAccount'' = None" "bt_register b ''Job'' = None"
    and "?enabled \<Longrightarrow> bt_register b ''ServiceAccount webhook'' = None"
    unfolding first_failure_None_iff by auto
  with hooks assms(2) show ?thesis
    by (cases ?enabled) (auto simp: setup_handlers_def setup_validator_def setup_sa_reconciler_def setup_job_reconciler_def
        split: option.split)
qed

lemma asked_service_accounts:
  assumes "mg_hooks mgr = [(''/mutate-apps-v1-statefulset'', Mutating m),
      (''/validate--v1-serviceaccount'', Validating v)]"
    and "operation \<in> {''CREATE'', ''UPDATE''}"
  shows "asked (filter wc_fails_closed [mutating_config, validating_config]) mgr '''' ''v1''
      ''serviceaccounts'' operation = [Some (Validating v)]"
  using assms(2) by (auto simp: asked_def concerns_def mutating_config_def validating_config_def assms(1))

lemma asked_statefulsets:
  assumes "mg_hooks mgr = [(''/mutate-apps-v1-statefulset'', Mutating m),
      (''/validate--v1-serviceaccount'', Validating v)]"
    and "operation \<in> {''CREATE'', ''UPDATE''}"
  shows "asked (filter wc_fails_closed [mutating_config, validating_config]) mgr ''apps'' ''v1''
      ''statefulsets'' operation = [Some (Mutating m)]"
  using assms(2) by (auto simp: asked_def concerns_def mutating_config_def validating_config_def assms(1))

lemma validated_validate:
  assumes "operation \<in> {''CREATE'', ''UPDATE''}"
  shows "validated v operation sa \<longleftrightarrow> (\<exists>env rt rt'. validate v env (SAObject sa) rt = Returns (None, rt'))"
  using assms by (auto simp: validated_def validate_create_def validate_update_def)

section \<open>Property\<close>

text \<open>
  C11: The manifests and the registration fit together: a started operator has registered its
  handlers, every creation and update of a StatefulSet is sent to its mutating webhook and
  none is stored without it, and under the admission control of the cluster every service
  account that can be read, and every update of one that is accepted, was let through by the
  validator, which is what the grants of the reconciler and the mounts of the mutating
  webhook rest on.
\<close>

theorem manifests_route_admissions:
  assumes "start_operator b = Inr op" and "op_webhooks op = Some (m, v)"
    and "bu_complete bu = bt_register b" and "bu_validate_path bu = documented_path"
  shows "\<exists>mgr. setup_handlers bu (op_webhooks op) (op_reconciler op) new_manager = Inr mgr \<and>
    (\<forall>operation \<in> {''CREATE'', ''UPDATE''}.
       asked (filter wc_fails_closed [mutating_config, validating_config]) mgr ''apps'' ''v1'' ''statefulsets'' operation
         = [Some (Mutating m)]) \<and>
    (\<forall>w. admission_control [mutating_config, validating_config] mgr w \<longrightarrow>
       admission_law v w \<and> update_law v w)"
proof -
  obtain mgr where mgr: "setup_handlers bu (op_webhooks op) (op_reconciler op) new_manager = Inr mgr"
    using started_operator_registered [OF assms(1,3)] by blast
  have hooks: "mg_hooks mgr = [(''/mutate-apps-v1-statefulset'', Mutating m),
      (''/validate--v1-serviceaccount'', Validating v)]"
    using setup_handlers_hooked [OF mgr [unfolded assms(2)]] assms(4)
    by (simp add: documented_service_account_path)
  have through: "\<exists>env rt rt'. validate v env (SAObject sa) rt = Returns (None, rt')"
    if "\<forall>hook \<in> set (asked (filter wc_fails_closed [mutating_config, validating_config]) mgr '''' ''v1''
        ''serviceaccounts'' operation). lets_through hook operation sa"
      and "operation \<in> {''CREATE'', ''UPDATE''}" for operation sa
  proof -
    from that(1) have "validated v operation sa"
      by (simp only: asked_service_accounts [OF hooks that(2)]) (simp add: lets_through_def)
    then show ?thesis using validated_validate [OF that(2)] by blast
  qed
  have "admission_law v w \<and> update_law v w" if "admission_control [mutating_config, validating_config] mgr w" for w
    using that through unfolding admission_control_def admission_law_def update_law_def
    by (metis insertI1 insertI2)
  with mgr asked_statefulsets [OF hooks] show ?thesis by blast
qed

section \<open>Witness\<close>

text \<open>
  A cluster with one service account, that of a member, which the validator let through. No
  update is accepted.
\<close>

definition example_gated_world :: world where
  "example_gated_world = example_named_world\<lparr>w_update_sa := (\<lambda>_ _. Inl NotFound)\<rparr>"

lemma example_gated_fields [simp]:
  "w_get_sa example_gated_world h nn = (if nn = example_nn then Inr example_live_sa else Inl NotFound)"
  "w_update_sa example_gated_world h sa = Inl NotFound"
  by (simp_all add: example_gated_world_def example_named_world_def)

lemma example_live_admitted:
  "\<exists>env rt rt'. validate (validator_of example_operator_config example_member_ci) env (SAObject example_live_sa) rt
     = Returns (None, rt')"
proof -
  have "w_get_sa example_named_world [] example_nn = Inr example_live_sa" by (simp add: example_named_world_def)
  moreover have "impersonates example_live_sa ''dapla-developers''"
    by (simp add: impersonates_def time_ptr_is_zero_def)
  ultimately show ?thesis using example_named_laws(2) unfolding admission_law_def by blast
qed

theorem manifests_route_admissions_witness:
  "\<exists>mgr. setup_handlers \<lparr>bu_complete = (\<lambda>_. None), bu_validate_path = documented_path\<rparr>
      (op_webhooks example_operator) (op_reconciler example_operator) new_manager = Inr mgr \<and>
    admission_control [mutating_config, validating_config] mgr example_gated_world \<and>
    admission_law (validator_of example_operator_config example_member_ci) example_gated_world"
proof -
  let ?bu = "\<lparr>bu_complete = (\<lambda>_. None), bu_validate_path = documented_path\<rparr>"
  let ?v = "validator_of example_operator_config example_member_ci"
  have "bu_complete ?bu = bt_register example_boot" by (simp add: example_boot_def)
  then obtain mgr where mgr: "setup_handlers ?bu (op_webhooks example_operator) (op_reconciler example_operator)
        new_manager = Inr mgr"
      and law: "admission_control [mutating_config, validating_config] mgr w \<Longrightarrow> admission_law ?v w" for w
    using manifests_route_admissions [OF example_operator_started example_operator_fields(1), of ?bu] by auto
  have hooks: "mg_hooks mgr = [(''/mutate-apps-v1-statefulset'', Mutating (mutator_of example_operator_config)),
      (''/validate--v1-serviceaccount'', Validating ?v)]"
    using setup_handlers_hooked [of ?bu "mutator_of example_operator_config" ?v "op_reconciler example_operator" mgr]
      mgr example_operator_fields(1) by (simp add: documented_service_account_path)
  have "lets_through hook ''CREATE'' example_live_sa"
    if "hook \<in> set (asked (filter wc_fails_closed [mutating_config, validating_config]) mgr '''' ''v1''
      ''serviceaccounts'' ''CREATE'')" for hook
    using that example_live_admitted asked_service_accounts [OF hooks, of "''CREATE''"]
    by (auto simp: lets_through_def validated_validate)
  then have "admission_control [mutating_config, validating_config] mgr example_gated_world"
    unfolding admission_control_def by (auto split: if_splits)
  with mgr law show ?thesis by blast
qed

end
