(* ===== verification/Membership.thy ===== *)
theory Membership
  imports Deployment
begin

text \<open>
  The two webhooks together: \<^verbatim>\<open>Handle\<close> of the mutating webhook hands the request of a
  StatefulSet to its service account, whose update the API server sends to the validating
  webhook before it answers. So a StatefulSet is served for a group only if the owner of its
  namespace may use that group.
\<close>

section \<open>Lemmas\<close>

text \<open>The service account a patched StatefulSet runs as, in the state the validator let through.\<close>

lemma patched_validated:
  assumes "range_law w" and "admission_law v w" and "update_law v w"
    and "handle m js w req h = (Returns (Patched s'), h')"
  obtains sfs grp c sa anns where "js_decode js (rq_raw req) = Inr sfs"
    and "map_get (sfs_annotations sfs) impersonateGroupAnnotation = Some grp"
    and "get_config (mu_configs m) grp = Some c"
    and "w_get_sa w h \<lparr>nn_namespace = rq_namespace req, nn_name = ps_service_account (sfs_pod sfs)\<rparr> = Inr sa"
    and "in_sync (wanted_sa_annotations c sfs grp) (set_sa_annotations anns sa)"
    and "impersonates (set_sa_annotations anns sa) grp \<Longrightarrow>
      \<exists>env rt rt'. validate v env (SAObject (set_sa_annotations anns sa)) rt = Returns (None, rt')"
  using assms(4)
proof (rule handle_patched)
  fix sfs grp i c h1 sfs0
  let ?nn = "\<lparr>nn_namespace = rq_namespace req, nn_name = ps_service_account (sfs_pod sfs)\<rparr>"
  assume *: "js_decode js (rq_raw req) = Inr sfs"
    "map_get (sfs_annotations sfs) impersonateGroupAnnotation = Some grp"
    "get_config (mu_configs m) grp = Some c"
    and run: "handle_service_account w (w_range w h 0) (rq_namespace req) (ps_service_account (sfs_pod sfs))
       (wanted_sa_annotations c sfs grp) h = (None, h1)"
  have ord: "range_ok (w_range w h 0)" using assms(1) by (simp add: range_law_def)
  from ord map_ok_wanted [of c sfs grp] show thesis
  proof (cases rule: handle_service_account_cases [where w = w and h = h and namespace = "rq_namespace req"
        and name = "ps_service_account (sfs_pod sfs)"])
    case (unread e)
    with run show thesis by simp
  next
    case (synced sa)
    have same: "set_sa_annotations (sa_annotations sa) sa = sa" by (simp add: set_sa_annotations_def)
    show thesis
      using synced(1,2) assms(2) unfolding admission_law_def
      by (intro that [of sfs grp c sa "sa_annotations sa"] *; simp only: same; blast)
  next
    case (updated sa anns)
    then obtain stored where "w_update_sa w (h @ [GetSA ?nn]) (set_sa_annotations anns sa) = Inr stored"
      using run by (auto split: sum.splits)
    with assms(3) have "\<exists>env rt rt'. validate v env (SAObject (set_sa_annotations anns sa)) rt = Returns (None, rt')"
      unfolding update_law_def by blast
    with updated(1,2) show thesis by (intro that [of sfs grp c sa anns] *)
  qed
qed

lemma config_group_not_empty: "get_config cs grp = Some c \<Longrightarrow> grp \<noteq> []"
  by (auto dest!: get_config_SomeD simp: config_applies_def has_suffix_iff)

lemma in_sync_wanted:
  assumes "in_sync (wanted_sa_annotations c sfs grp) sa" and "grp \<noteq> []"
  shows "map_get (sa_annotations sa) impersonateGroupAnnotation = Some grp"
    and "map_index (sa_annotations sa) accessReasonAnnotation = map_index (sfs_annotations sfs) accessReasonAnnotation"
    and "gc_reason_required c \<Longrightarrow> map_index (sa_annotations sa) requestedServiceDurationAnnotation
      = map_index (sfs_annotations sfs) requestedServiceDurationAnnotation"
  using assms by (auto simp: in_sync_def wanted_sa_annotations_def map_index_def split: option.splits)

section \<open>Property\<close>

text \<open>
  C3: Buckets only for members: when the mutating webhook of a started operator sends back a
  StatefulSet for a group, and its service account is not being deleted, Cloud Identity
  confirmed that the user of the request's namespace is a member of that group; and for a
  group that requires a reason the StatefulSet gives one, and a duration within the limit.
\<close>

theorem statefulsets_served_only_for_members:
  assumes "start_operator b = Inr op" and "op_webhooks op = Some (m, v)"
    and "range_law w" and "api_laws w" and "admission_law v w" and "update_law v w"
    and "handle m js w req h = (Returns (Patched s'), h')"
  shows "\<exists>sfs grp c sa. js_decode js (rq_raw req) = Inr sfs \<and>
    map_get (sfs_annotations sfs) impersonateGroupAnnotation = Some grp \<and>
    get_config (mu_configs m) grp = Some c \<and>
    w_get_sa w h \<lparr>nn_namespace = rq_namespace req, nn_name = ps_service_account (sfs_pod sfs)\<rparr> = Inr sa \<and>
    (time_ptr_is_zero (om_deletion (sa_meta sa)) \<longrightarrow>
       (\<exists>ci user. bt_cloud_identity b = Inr ci \<and> rq_namespace req = userNamespacePrefix @ user \<and>
          ci_confirms ci user grp) \<and>
       (gc_reason_required c \<longrightarrow>
          map_index (sfs_annotations sfs) accessReasonAnnotation \<noteq> [] \<and>
          (\<exists>d \<le> gc_max_duration c.
             parse_duration (map_index (sfs_annotations sfs) requestedServiceDurationAnnotation) = Some d)))"
proof -
  obtain cfg ci where ci: "bt_cloud_identity b = Inr ci" and m: "m = mutator_of cfg" and v: "v = validator_of cfg ci"
    using assms(1) by (rule start_operator_Inr) (use assms(2) in \<open>auto split: if_splits\<close>)
  obtain sfs grp c sa anns where *: "js_decode js (rq_raw req) = Inr sfs"
      "map_get (sfs_annotations sfs) impersonateGroupAnnotation = Some grp"
      "get_config (mu_configs m) grp = Some c"
      "w_get_sa w h \<lparr>nn_namespace = rq_namespace req, nn_name = ps_service_account (sfs_pod sfs)\<rparr> = Inr sa"
    and sync: "in_sync (wanted_sa_annotations c sfs grp) (set_sa_annotations anns sa)"
    and adm: "impersonates (set_sa_annotations anns sa) grp \<Longrightarrow>
      \<exists>env rt rt'. validate v env (SAObject (set_sa_annotations anns sa)) rt = Returns (None, rt')"
    using assms(3,5-7) by (rule patched_validated) blast
  let ?sa = "set_sa_annotations anns sa"
  note carried = in_sync_wanted [OF sync config_group_not_empty [OF *(3)]]
  have "(\<exists>user. rq_namespace req = userNamespacePrefix @ user \<and> ci_confirms ci user grp) \<and>
      (gc_reason_required c \<longrightarrow>
         map_index (sfs_annotations sfs) accessReasonAnnotation \<noteq> [] \<and>
         (\<exists>d \<le> gc_max_duration c.
            parse_duration (map_index (sfs_annotations sfs) requestedServiceDurationAnnotation) = Some d))"
    if live: "time_ptr_is_zero (om_deletion (sa_meta sa))"
  proof -
    have imp: "impersonates ?sa grp"
      using carried(1) live by (simp add: impersonates_def set_sa_annotations_def)
    with adm obtain env rt rt' where ok: "validate v env (SAObject ?sa) rt = Returns (None, rt')" by blast
    have "va_auth v = user_is_member_of ci" by (simp add: v validator_of_def)
    from google.admitted_confirmed [OF this imp ok] obtain user where
      user: "om_namespace (sa_meta ?sa) = userNamespacePrefix @ user" "ci_confirms ci user grp"
      by (auto simp: owner_of_Some_iff)
    moreover have "om_namespace (sa_meta ?sa) = rq_namespace req"
      using assms(4) *(4) by (auto simp: api_laws_def set_sa_annotations_def)
    moreover have "\<exists>d reason. privileged_ok c ?sa d reason" if "gc_reason_required c"
      using imp
    proof (cases rule: validate_cases [of ?sa grp v env rt])
      case (refused e)
      with ok show ?thesis by simp
    next
      case (unlimited c' user)
      with *(3) that m v show ?thesis by (simp add: mutator_of_def validator_of_def)
    next
      case (limited c' user d reason)
      with *(3) m v show ?thesis by (auto simp: mutator_of_def validator_of_def)
    qed
    ultimately show ?thesis
      using carried(2,3) by (auto simp: privileged_ok_def map_index_get)
  qed
  with * ci show ?thesis by blast
qed

section \<open>Witness\<close>

lemma example_operator_mutate:
  assumes "sfs_replicas s = Some r" and "sfs_annotations s = Some anns"
    and "access_expired c s (w_now example_gated_world (h @ [ListFolders ''folders/1''])) = Some False"
  shows "\<exists>s' h'. mutate (mutator_of example_operator_config) (example_json s0) example_gated_world ord c grp i s h
    = (Returns (Patched s'), h')"
proof -
  let ?m = "mutator_of example_operator_config" and ?w = example_gated_world
  have "get_standard_project ?m ?w team c h
      = (Returns (Inl (NoFolder team IterDone)), h @ [ListFolders ''folders/1''])" for team
    by (simp add: get_standard_project_def call_list_folders_def mutator_of_def example_operator_config_def
        example_gated_world_def example_named_world_def example_world_def quiet_world_def)
  moreover have "access_expired c (prepared ?m c grp i prj s) (w_now ?w (h @ [ListFolders ''folders/1''])) = Some False"
    for prj
    using assms(3) access_expired_cong [of "prepared ?m c grp i prj s" s c] by simp
  moreover have "\<exists>s' h'. finish ?m (example_json s0) ?w (mount_buckets ?m ord bm i (prepared ?m c grp i prj s)) h3
      = (Returns (Patched s'), h')" for bm prj h3
  proof -
    let ?s = "mount_buckets ?m ord bm i (prepared ?m c grp i prj s)"
    have "sfs_replicas ?s = Some r" "sfs_annotations ?s = Some anns"
      using assms(1,2)
      by (simp_all add: mount_buckets_def prepared_def on_container_def set_sfs_pod_def Let_def split: prod.split)
    then show ?thesis
      by (simp add: finish_def launch_iam_probe_def map_put_def call_create_job_def Let_def)
  qed
  ultimately show ?thesis
    by (simp add: mutate_def Let_def prepared_def split: prod.split)
qed

lemma example_operator_handle:
  "\<exists>s' h'. handle (mutator_of example_operator_config) (example_json (example_sfs ''dapla-developers''))
      example_gated_world example_request [] = (Returns (Patched s'), h')"
proof -
  let ?sfs = "example_sfs ''dapla-developers''" and ?m = "mutator_of example_operator_config"
  let ?s = "?sfs\<lparr>sfs_template := ensure_pod_annotations (sfs_template ?sfs)\<rparr>"
  let ?c = "example_team_config False"
  have "get_service_container (sfs_template ?s) ''jupyter'' = Some 0"
    by (simp add: get_service_container_def example_pod_def example_container_def)
  moreover have "get_config (mu_configs ?m) ''dapla-developers'' = Some ?c"
    by (simp add: mutator_of_def example_operator_config_of)
  moreover have "handle_service_account example_gated_world ord ''user-ssb-abc'' ''app''
      (wanted_sa_annotations ?c ?s ''dapla-developers'') [] = (None, [GetSA example_nn])"
    if "\<And>ks. ord ks = ks" for ord
    using that by (simp add: handle_service_account_def call_get_sa_def example_nn_def example_group_def
        example_sa_def wanted_sa_annotations_def range_over_def map_index_def example_sfs_def annotation_keys)
  moreover have "\<exists>s' h'. mutate ?m (example_json ?sfs) example_gated_world ord ?c ''dapla-developers'' i ?s h
      = (Returns (Patched s'), h')" for ord i h
    by (rule example_operator_mutate) (simp_all add: example_sfs_def empty_meta_def access_expired_def)
  moreover have "w_range example_gated_world [] 0 ks = ks" for ks
    by (simp add: example_gated_world_def example_named_world_def example_world_def quiet_world_def)
  moreover have "ps_service_account example_pod = ''app''" by (simp add: example_pod_def)
  ultimately show ?thesis
    by (simp add: handle_def example_request_def time_ptr_is_zero_def Let_def)
qed

theorem statefulsets_served_only_for_members_witness:
  "\<exists>s' h'. handle (mutator_of example_operator_config) (example_json (example_sfs ''dapla-developers''))
      example_gated_world example_request [] = (Returns (Patched s'), h') \<and>
    (\<exists>user. rq_namespace example_request = userNamespacePrefix @ user \<and>
       ci_confirms example_member_ci user ''dapla-developers'')"
proof -
  let ?v = "validator_of example_operator_config example_member_ci" and ?w = example_gated_world
  obtain s' h' where run: "handle (mutator_of example_operator_config)
      (example_json (example_sfs ''dapla-developers'')) ?w example_request [] = (Returns (Patched s'), h')"
    using example_operator_handle by blast
  have laws: "range_law ?w" "api_laws ?w" "admission_law ?v ?w" "update_law ?v ?w"
    using example_named_laws
    by (auto simp: range_law_def api_laws_def admission_law_def update_law_def example_gated_world_def
        example_named_world_def example_world_def quiet_world_def split: if_splits)
  have "bt_cloud_identity example_boot = Inr example_member_ci" by (simp add: example_boot_def)
  with statefulsets_served_only_for_members [OF example_operator_started example_operator_fields(1) laws run] run
  show ?thesis
    by (auto simp: time_ptr_is_zero_def example_sa_def empty_meta_def split: if_splits)
qed

end
