(* ===== verification/Bindings_In_Force.thy ===== *)
theory Bindings_In_Force
  imports Operator_Runs
begin

text \<open>
  What the policies hold over time. The bindings in force are a function of the calls made so
  far: those of the last policy the IAM service accepted. Under the documented behaviour that
  a read returns them, this theory follows them through a reconcile and through the runs of
  the operator.
\<close>

section \<open>The bindings in force\<close>

text \<open>
  \<open>accepts h ref p\<close> tells whether the policy was accepted after the history \<open>h\<close>, and \<open>init\<close>
  has the bindings before the first call. The recursion runs over the reversed history.
\<close>

fun bindings_after ::
  "(history \<Rightarrow> string \<Rightarrow> iam_policy \<Rightarrow> bool) \<Rightarrow> (string \<Rightarrow> iam_binding list) \<Rightarrow> event list \<Rightarrow> string
     \<Rightarrow> iam_binding list" where
  "bindings_after accepts init [] ref = init ref"
| "bindings_after accepts init (SetIamPolicy ref' p # past) ref =
     (if ref' = ref \<and> accepts (rev past) ref p then p_bindings p else bindings_after accepts init past ref)"
| "bindings_after accepts init (_ # past) ref = bindings_after accepts init past ref"

definition accepted_by :: "world \<Rightarrow> history \<Rightarrow> string \<Rightarrow> iam_policy \<Rightarrow> bool" where
  "accepted_by w h ref p \<longleftrightarrow> snd (w_set_iam w h ref p) = None"

definition in_force :: "world \<Rightarrow> (string \<Rightarrow> iam_binding list) \<Rightarrow> history \<Rightarrow> string \<Rightarrow> iam_binding list" where
  "in_force w init h ref = bindings_after (accepted_by w) init (rev h) ref"

text \<open>
  The IAM service: a read that succeeds returns the bindings of the policy that was accepted
  last. Reads and writes may fail at any time. The operator is the only writer.
\<close>

definition iam_store :: "world \<Rightarrow> (string \<Rightarrow> iam_binding list) \<Rightarrow> bool" where
  "iam_store w init \<longleftrightarrow>
     (\<forall>h ref read. w_get_iam w h ref = Inr read \<longrightarrow>
        p_bindings (policy_or_empty read) = in_force w init h ref)"

lemma iam_storeD:
  "iam_store w init \<Longrightarrow> w_get_iam w h ref = Inr read \<Longrightarrow>
     p_bindings (policy_or_empty read) = in_force w init h ref"
  by (simp add: iam_store_def)

lemma in_force_Nil [simp]: "in_force w init [] ref = init ref"
  by (simp add: in_force_def)

lemma in_force_set [simp]:
  "in_force w init (h @ [SetIamPolicy ref' p]) ref =
     (if ref' = ref \<and> accepted_by w h ref p then p_bindings p else in_force w init h ref)"
  by (simp add: in_force_def)

definition writes_policy :: "event \<Rightarrow> bool" where
  "writes_policy e \<longleftrightarrow> (\<exists>ref p. e = SetIamPolicy ref p)"

lemma in_force_other [simp]: "\<not> writes_policy e \<Longrightarrow> in_force w init (h @ [e]) ref = in_force w init h ref"
  by (cases e) (simp_all add: in_force_def writes_policy_def)

lemma in_force_silent:
  "list_all (\<lambda>e. \<not> writes_policy e) evs \<Longrightarrow> in_force w init (h @ evs) ref = in_force w init h ref"
proof (induction evs rule: rev_induct)
  case (snoc e evs)
  then show ?case using in_force_other [of e w init "h @ evs" ref] by simp
qed simp

lemma iam_free_silent: "iam_free evs \<Longrightarrow> list_all (\<lambda>e. \<not> writes_policy e) evs"
  by (auto simp: list_all_iff writes_policy_def)

text \<open>The two calls of a write.\<close>

lemma in_force_write:
  "in_force w init (h @ [GetIamPolicy ref', SetIamPolicy ref' p]) ref =
     (if ref' = ref \<and> accepted_by w (h @ [GetIamPolicy ref]) ref p then p_bindings p
      else in_force w init h ref)"
  using in_force_set [of w init "h @ [GetIamPolicy ref']" ref' p ref]
    in_force_other [of "GetIamPolicy ref'" w init h ref]
  by (auto simp: writes_policy_def)

section \<open>Handlers that write no policy\<close>

locale silent_handler = recorded_handler run
  for run :: "'r \<Rightarrow> history \<Rightarrow> 'a \<times> history" +
  assumes silent: "list_all (\<lambda>e. \<not> writes_policy e) (new_events h (snd (run x h)))"
begin

lemma leaves_policies: "in_force w init (snd (run x h)) ref = in_force w init h ref"
  by (subst history_grows) (rule in_force_silent [OF silent])

end

lemma release_job_silent: "emits (\<lambda>e. \<not> writes_policy e) h (snd (release_job w j h))"
  by (auto simp: release_job_def call_update_job_def writes_policy_def Let_def split: prod.split sum.split)

lemma revive_sfs_silent: "emits (\<lambda>e. \<not> writes_policy e) h (snd (revive_sfs w j sfs h))"
proof (cases rule: revive_sfs_cases [of sfs w j h])
  case (update anns i h2)
  have "emits (\<lambda>e. \<not> writes_policy e) h h2" using update(4) by (simp add: writes_policy_def)
  from this emits_trans [OF this release_job_silent [of h2 w j]] show ?thesis
    using update(5) by (auto split: sum.split)
qed (simp_all add: writes_policy_def)

lemma job_reconcile_silent: "emits (\<lambda>e. \<not> writes_policy e) h (snd (job_reconcile w nn h))"
proof (cases "w_get_job w h nn")
  case (Inl e)
  then show ?thesis by (simp add: job_reconcile_def call_get_job_def writes_policy_def)
next
  case job: (Inr j)
  show ?thesis
  proof (cases "\<exists>sfsName. probe_finished w j sfsName")
    case False
    with job_reconcile_unconcerned [OF job] show ?thesis by (simp add: writes_policy_def)
  next
    case True
    then obtain sfsName where fin: "probe_finished w j sfsName" by blast
    let ?h = "h @ [GetJob nn, GetSfs \<lparr>nn_namespace = nn_namespace nn, nn_name = sfsName\<rparr>]"
    have "emits (\<lambda>e. \<not> writes_policy e) h ?h" by (simp add: writes_policy_def)
    from emits_trans [OF this release_job_silent] emits_trans [OF this revive_sfs_silent] this show ?thesis
      unfolding job_reconcile_run [OF job fin] by (auto simp: writes_policy_def split: sum.split)
  qed
qed

interpretation silent_jobs: silent_handler "job_reconcile w" for w
proof
  show "list_all (\<lambda>e. \<not> writes_policy e) (new_events h (snd (job_reconcile w nn h)))" for nn h
    using job_reconcile_silent [of h w nn] by (auto simp: emits_def)
qed

interpretation silent_webhook: silent_handler "handle m js w" for m js w
proof
  have "webhook_call w e \<Longrightarrow> \<not> writes_policy e" for e
    by (auto simp: webhook_call_def writes_policy_def)
  then show "list_all (\<lambda>e. \<not> writes_policy e) (new_events h (snd (handle m js w req h)))" for req h
    using handle_calls [of w h m js req] by (auto simp: emits_def list_all_iff)
qed

section \<open>What one reconcile does to the policies\<close>

text \<open>
  Either nothing, or the bindings of the group's service account are replaced by others that
  differ only in the bindings titled with the account.
\<close>

lemma reconcile_in_force:
  fixes r :: sa_reconciler and w :: world and nn :: namespaced_name
  defines "t \<equiv> iam_condition_string w nn"
  assumes "iam_store w init"
  obtains (same) "\<And>ref. in_force w init (snd (sa_reconcile r w nn h)) ref = in_force w init h ref"
  | (wrote) sa grp bs where "w_get_sa w h nn = Inr sa"
      "map_get (sa_annotations sa) impersonateGroupAnnotation = Some grp"
      "\<And>ref. in_force w init (snd (sa_reconcile r w nn h)) ref =
         (if ref = to_gcp_sa_ref (r_group_sa_project r) grp then bs else in_force w init h ref)"
      "filter (\<lambda>b. \<not> has_title t b) bs =
         filter (\<lambda>b. \<not> has_title t b) (in_force w init h (to_gcp_sa_ref (r_group_sa_project r) grp))"
      "\<exists>p. SetIamPolicy (to_gcp_sa_ref (r_group_sa_project r) grp) p \<in> set (new_events h (snd (sa_reconcile r w nn h))) \<and>
         bs = p_bindings p"
proof -
  have one: thesis if sa: "w_get_sa w h nn = Inr sa"
      "map_get (sa_annotations sa) impersonateGroupAnnotation = Some grp"
    and ref0: "ref0 = to_gcp_sa_ref (r_group_sa_project r) grp"
    and hist: "snd (sa_reconcile r w nn h) = ((h @ pre) @ [GetIamPolicy ref0, SetIamPolicy ref0 p]) @ post"
    and free: "iam_free pre" "iam_free post"
    and read: "w_get_iam w (h @ pre) ref0 = Inr read" and frame: "policy_frame t read p"
    for sa grp ref0 pre post read and p :: iam_policy
  proof -
    have run: "in_force w init (snd (sa_reconcile r w nn h)) ref =
        (if ref0 = ref \<and> accepted_by w ((h @ pre) @ [GetIamPolicy ref]) ref p then p_bindings p
         else in_force w init h ref)" for ref
      unfolding hist in_force_silent [OF iam_free_silent [OF free(2)]] in_force_write
        in_force_silent [OF iam_free_silent [OF free(1)]] ..
    show thesis
    proof (cases "accepted_by w ((h @ pre) @ [GetIamPolicy ref0]) ref0 p")
      case False
      then show ?thesis using run by (intro same) auto
    next
      case True
      have "p_bindings (policy_or_empty read) = in_force w init h ref0"
        using iam_storeD [OF assms(2) read] in_force_silent [OF iam_free_silent [OF free(1)]] by simp
      then have "filter (\<lambda>b. \<not> has_title t b) (p_bindings p)
          = filter (\<lambda>b. \<not> has_title t b) (in_force w init h ref0)"
        using frame by (simp add: policy_frame_def)
      moreover have "SetIamPolicy ref0 p \<in> set (new_events h (snd (sa_reconcile r w nn h)))"
        using hist by simp
      ultimately show ?thesis using True run sa by (intro wrote [of sa grp "p_bindings p"]) (auto simp: ref0)
    qed
  qed
  have quiet: thesis if "snd (sa_reconcile r w nn h) = h @ evs" "list_all (\<lambda>e. \<not> writes_policy e) evs" for evs
    using that in_force_silent [of evs w init h] by (intro same) simp
  show thesis
  proof (cases rule: sa_reconcile_cases [of r w nn h])
    case (no_iam evs)
    then show thesis using quiet iam_free_silent by (auto simp: writes_policy_def)
  next
    case (live sa grp sa' pre post)
    show ?thesis
    proof (cases rule: handle_gcp_sa_trace [of r w sa' grp nn "h @ GetSA nn # pre"])
      case read
      show ?thesis
        by (rule quiet [of "GetSA nn # pre @ GetIamPolicy (to_gcp_sa_ref (r_group_sa_project r) grp) # post"])
          (use read live iam_free_silent in \<open>auto simp: writes_policy_def\<close>)
    next
      case (wrote read p)
      show ?thesis
        by (rule one [OF live(1,2) refl, where pre = "GetSA nn # pre" and p = p and post = post and read = read])
          (use wrote live in \<open>simp_all add: t_def\<close>)
    qed
  next
    case (dying sa grp post)
    show ?thesis
    proof (cases rule: remove_iam_binding_trace [of r w grp nn "h @ [GetSA nn]"])
      case read
      show ?thesis
        by (rule quiet [of "[GetSA nn, GetIamPolicy (to_gcp_sa_ref (r_group_sa_project r) grp)] @ post"])
          (use read dying iam_free_silent in \<open>auto simp: writes_policy_def\<close>)
    next
      case (wrote read p)
      show ?thesis
        by (rule one [OF dying(1,2) refl, where pre = "[GetSA nn]" and p = p and post = post and read = read])
          (use wrote dying in \<open>simp_all add: t_def\<close>)
    qed
  qed
qed

text \<open>A binding that one reconcile brings into force is the one the account may have.\<close>

lemma ensure_correct_binding_subset:
  assumes "ensure_correct_binding bs i (Some wb) = Returns (m, bs')" and "x \<in> set bs'"
  shows "x = wb \<or> x \<in> set bs"
proof (cases i)
  case None
  with assms show ?thesis by (auto simp: ensure_correct_binding_def)
next
  case (Some k)
  with assms(1) have "bs' = bs[k := wb] \<or> bs' = bs"
    by (cases "binding_incorrect (bs ! k) wb") (auto simp: ensure_correct_binding_def split: if_splits)
  with assms(2) show ?thesis using set_update_subset_insert [of bs k wb] by auto
qed

lemma handle_gcp_sa_new:
  assumes "SetIamPolicy ref p \<in> set (new_events h (snd (handle_gcp_sa r w sa grp nn h)))"
    and "w_get_iam w h (to_gcp_sa_ref (r_group_sa_project r) grp) = Inr read"
    and "x \<in> set (p_bindings p)" and "x \<notin> set (p_bindings (policy_or_empty read))"
  shows "\<exists>expr. expiration_expr sa = Inr expr \<and> x = wanted_binding r w nn expr"
proof (cases "expiration_expr sa")
  case (Inl e)
  with assms(1) handle_gcp_sa_early(2) [OF assms(2)] show ?thesis by simp
next
  case (Inr expr)
  note run = handle_gcp_sa_run [OF assms(2) Inr, of nn]
  show ?thesis
  proof (cases "ensured r w nn expr read")
    case (Panics k)
    with assms(1) run show ?thesis by simp
  next
    case (Returns mb)
    then obtain m bs where ens: "ensured r w nn expr read = Returns (m, bs)" by (cases mb) auto
    have "p_bindings p = bs"
      using assms(1) run ens
      by (auto simp: update_iam_policy_def call_set_iam_def Let_def split: prod.splits if_splits)
    with assms(3) have "x \<in> set bs" by simp
    moreover obtain i where "ensure_correct_binding (p_bindings (policy_or_empty read)) i
        (Some (wanted_binding r w nn expr)) = Returns (m, bs)"
      using ens unfolding ensured_def by (cases "index_title (iam_condition_string w nn)
        (p_bindings (policy_or_empty read))") simp_all
    ultimately have "x = wanted_binding r w nn expr"
      using ensure_correct_binding_subset assms(4) by blast
    with Inr show ?thesis by blast
  qed
qed

lemma reconcile_new_binding:
  assumes "iam_store w init" and "api_laws w"
    and "x \<in> set (in_force w init (snd (sa_reconcile r w nn h)) ref)" and "x \<notin> set (in_force w init h ref)"
  obtains sa grp expr where "w_get_sa w h nn = Inr sa" and "impersonates sa grp"
    and "ref = to_gcp_sa_ref (r_group_sa_project r) grp"
    and "expiration_expr sa = Inr expr" and "x = wanted_binding r w nn expr"
proof (rule reconcile_in_force [OF assms(1), of r nn h])
  assume "\<And>ref. in_force w init (snd (sa_reconcile r w nn h)) ref = in_force w init h ref"
  with assms(3,4) show thesis by simp
next
  fix sa0 grp0 bs
  let ?t = "iam_condition_string w nn"
  assume run: "\<And>ref. in_force w init (snd (sa_reconcile r w nn h)) ref =
      (if ref = to_gcp_sa_ref (r_group_sa_project r) grp0 then bs else in_force w init h ref)"
    and frame: "filter (\<lambda>b. \<not> has_title ?t b) bs =
      filter (\<lambda>b. \<not> has_title ?t b) (in_force w init h (to_gcp_sa_ref (r_group_sa_project r) grp0))"
    and "\<exists>p. SetIamPolicy (to_gcp_sa_ref (r_group_sa_project r) grp0) p
        \<in> set (new_events h (snd (sa_reconcile r w nn h))) \<and> bs = p_bindings p"
  then obtain p where ev: "SetIamPolicy ref p \<in> set (new_events h (snd (sa_reconcile r w nn h)))"
    and bs: "bs = p_bindings p" and ref0: "ref = to_gcp_sa_ref (r_group_sa_project r) grp0"
    using assms(3,4) by (auto split: if_splits)
  with run assms(3) have x: "x \<in> set (p_bindings p)" by simp
  have title: "has_title ?t x"
  proof (rule ccontr)
    assume "\<not> has_title ?t x"
    with x have "x \<in> set (filter (\<lambda>b. \<not> has_title ?t b) bs)" by (simp add: bs)
    with frame assms(4) show False by (simp add: ref0)
  qed
  obtain sa grp sa' h' where sa: "w_get_sa w h nn = Inr sa" "impersonates sa grp"
    and fin: "ensure_sa_finalizer w sa (h @ [GetSA nn]) = (Inr sa', h')"
    and gcp: "SetIamPolicy ref p \<in> set (new_events h' (snd (handle_gcp_sa r w sa' grp nn h')))"
    using ev x title by (rule grant_is_live)
  have ref: "ref = to_gcp_sa_ref (r_group_sa_project r) grp"
    using gcp by (rule handle_gcp_sa_writes)
  obtain read where read: "w_get_iam w h' ref = Inr read"
    using gcp handle_gcp_sa_early(1) [of w h' r grp] ref by (cases "w_get_iam w h' ref") auto
  obtain evs where "h' = (h @ [GetSA nn]) @ evs" "iam_free evs"
    using fin by (cases rule: ensure_sa_finalizer_cases [of w sa "h @ [GetSA nn]"]) auto
  then have "in_force w init h' ref = in_force w init h ref"
    using in_force_silent [OF iam_free_silent, of evs w init "h @ [GetSA nn]" ref] by (simp add: writes_policy_def)
  with iam_storeD [OF assms(1) read] assms(4) have "x \<notin> set (p_bindings (policy_or_empty read))" by simp
  from handle_gcp_sa_new [OF gcp read [unfolded ref] x this] obtain expr where
    expr: "expiration_expr sa' = Inr expr" "x = wanted_binding r w nn expr" by blast
  have "expiration_expr sa = Inr expr"
    using expr(1) expiration_expr_cong [OF ensured_finalizer_keeps [OF assms(2) fin]] by simp
  with sa ref expr(2) that show thesis by blast
qed

section \<open>Runs of the operator\<close>

text \<open>
  A binding that no account asks for: from the history \<open>h\<close> on, no service account whose
  bindings have its title is ever read with a group whose Google service account is \<open>ref\<close>.
\<close>

definition unasked :: "world \<Rightarrow> sa_reconciler \<Rightarrow> history \<Rightarrow> string \<Rightarrow> iam_binding \<Rightarrow> bool" where
  "unasked w r h ref b \<longleftrightarrow>
     (\<forall>nn evs sa grp. has_title (iam_condition_string w nn) b \<longrightarrow> w_get_sa w (h @ evs) nn = Inr sa \<longrightarrow>
        map_get (sa_annotations sa) impersonateGroupAnnotation = Some grp \<longrightarrow>
        ref \<noteq> to_gcp_sa_ref (r_group_sa_project r) grp)"

lemma filter_frame:
  assumes "filter (\<lambda>b. \<not> Q b) xs = filter (\<lambda>b. \<not> Q b) ys" and "\<And>b. Q b \<Longrightarrow> \<not> P b"
  shows "filter P xs = filter P ys"
proof -
  have "filter P zs = filter P (filter (\<lambda>b. \<not> Q b) zs)" for zs
    using assms(2) by (induction zs) auto
  with assms(1) show ?thesis by metis
qed

lemma reconcile_keeps_unasked:
  assumes "iam_store w init"
  shows "filter (unasked w r h0 ref) (in_force w init (snd (sa_reconcile r w nn (h0 @ evs))) ref)
    = filter (unasked w r h0 ref) (in_force w init (h0 @ evs) ref)"
proof (rule reconcile_in_force [OF assms, of r nn "h0 @ evs"])
  fix sa grp bs
  assume read: "w_get_sa w (h0 @ evs) nn = Inr sa" "map_get (sa_annotations sa) impersonateGroupAnnotation = Some grp"
    and run: "\<And>ref. in_force w init (snd (sa_reconcile r w nn (h0 @ evs))) ref =
      (if ref = to_gcp_sa_ref (r_group_sa_project r) grp then bs else in_force w init (h0 @ evs) ref)"
    and frame: "filter (\<lambda>b. \<not> has_title (iam_condition_string w nn) b) bs =
      filter (\<lambda>b. \<not> has_title (iam_condition_string w nn) b)
        (in_force w init (h0 @ evs) (to_gcp_sa_ref (r_group_sa_project r) grp))"
  show ?thesis
  proof (cases "ref = to_gcp_sa_ref (r_group_sa_project r) grp")
    case True
    then have "has_title (iam_condition_string w nn) b \<Longrightarrow> \<not> unasked w r h0 ref b" for b
      using read unfolding unasked_def by blast
    from filter_frame [OF frame this] True run show ?thesis by simp
  next
    case False
    with run show ?thesis by simp
  qed
qed simp

lemma step_extends: "operator_step op js env w s s' \<Longrightarrow> \<exists>evs. os_history s' = os_history s @ evs"
  by (erule operator_stepE)
    (auto intro: mutating_handler.extends sa_handler.extends job_handler.extends)

lemma step_keeps_unasked:
  assumes "operator_step op js env w s s'" and "iam_store w init" and "os_history s = h0 @ evs"
  shows "filter (unasked w (op_reconciler op) h0 ref) (in_force w init (os_history s') ref)
    = filter (unasked w (op_reconciler op) h0 ref) (in_force w init (os_history s) ref)"
  using assms(1)
  by cases (simp_all add: silent_webhook.leaves_policies silent_jobs.leaves_policies
      reconcile_keeps_unasked [OF assms(2)] assms(3))

lemma run_keeps_unasked:
  assumes "(operator_step op js env w)\<^sup>*\<^sup>* s s'" and "iam_store w init"
  shows "filter (unasked w (op_reconciler op) (os_history s) ref) (in_force w init (os_history s') ref)
      = filter (unasked w (op_reconciler op) (os_history s) ref) (in_force w init (os_history s) ref) \<and>
    (\<exists>evs. os_history s' = os_history s @ evs)"
  using assms(1)
proof induction
  case (step s1 s2)
  then obtain evs where "os_history s1 = os_history s @ evs" by blast
  with step step_keeps_unasked [OF step.hyps(2) assms(2)] step_extends [OF step.hyps(2)] show ?case by auto
qed simp

text \<open>Every binding that came into force in a run was asked for by a live account.\<close>

definition asked_for :: "sa_reconciler \<Rightarrow> world \<Rightarrow> history \<Rightarrow> string \<Rightarrow> iam_binding \<Rightarrow> bool" where
  "asked_for r w h ref x \<longleftrightarrow>
     (\<exists>nn sa grp expr. w_get_sa w h nn = Inr sa \<and> impersonates sa grp \<and>
        ref = to_gcp_sa_ref (r_group_sa_project r) grp \<and> expiration_expr sa = Inr expr \<and>
        x = wanted_binding r w nn expr)"

lemma step_new_binding:
  assumes "operator_step op js env w s s'" and "iam_store w init" and "api_laws w"
    and "x \<in> set (in_force w init (os_history s') ref)" and "x \<notin> set (in_force w init (os_history s) ref)"
  shows "asked_for (op_reconciler op) w (os_history s) ref x"
  using assms(1)
proof cases
  case (reconciling_sa nn)
  with assms(4) have "x \<in> set (in_force w init (snd (sa_reconcile (op_reconciler op) w nn (os_history s))) ref)"
    by simp
  from reconcile_new_binding [OF assms(2,3) this assms(5)] show ?thesis
    unfolding asked_for_def by metis
qed (use assms(4,5) in \<open>simp_all add: silent_webhook.leaves_policies silent_jobs.leaves_policies\<close>)

lemma run_new_binding:
  assumes "(operator_step op js env w)\<^sup>*\<^sup>* s s'" and "iam_store w init" and "api_laws w"
    and "x \<in> set (in_force w init (os_history s') ref)" and "x \<notin> set (in_force w init (os_history s) ref)"
  shows "\<exists>h rest. os_history s' = h @ rest \<and> asked_for (op_reconciler op) w h ref x"
  using assms(1,4)
proof (induction rule: rtranclp_induct)
  case base
  with assms(5) show ?case by simp
next
  case (step s1 s2)
  obtain evs where ext: "os_history s2 = os_history s1 @ evs" using step_extends [OF step.hyps(2)] by blast
  show ?case
  proof (cases "x \<in> set (in_force w init (os_history s1) ref)")
    case True
    then obtain h rest where "os_history s1 = h @ rest" "asked_for (op_reconciler op) w h ref x"
      using step.IH by blast
    with ext show ?thesis by (intro exI [of _ h] exI [of _ "rest @ evs"]) simp
  next
    case False
    with step_new_binding [OF step.hyps(2) assms(2,3) step.prems] ext show ?thesis by blast
  qed
qed

text \<open>Repeated reconciles of one account.\<close>

primrec reconciles :: "sa_reconciler \<Rightarrow> world \<Rightarrow> namespaced_name \<Rightarrow> nat \<Rightarrow> history \<Rightarrow> history" where
  "reconciles r w nn 0 h = h"
| "reconciles r w nn (Suc n) h = snd (sa_reconcile r w nn (reconciles r w nn n h))"

lemma reconcile_frame:
  assumes "iam_store w init"
  shows "filter (\<lambda>b. \<not> has_title (iam_condition_string w nn) b) (in_force w init (snd (sa_reconcile r w nn h)) ref)
    = filter (\<lambda>b. \<not> has_title (iam_condition_string w nn) b) (in_force w init h ref)"
  by (rule reconcile_in_force [OF assms, of r nn h]) simp_all

lemma reconciles_frame:
  assumes "iam_store w init"
  shows "filter (\<lambda>b. \<not> has_title (iam_condition_string w nn) b) (in_force w init (reconciles r w nn n h) ref)
    = filter (\<lambda>b. \<not> has_title (iam_condition_string w nn) b) (in_force w init h ref)"
  by (induction n) (simp_all add: reconcile_frame [OF assms])

text \<open>Once the finalizer is given up, no binding of the account is in force.\<close>

lemma released_unbound:
  fixes r :: sa_reconciler and grp :: string and ref
  defines "ref \<equiv> to_gcp_sa_ref (r_group_sa_project r) grp"
  assumes "finalizer_laws w" and "iam_store w init"
    and "w_get_sa w h nn = Inr sa" and "\<not> time_ptr_is_zero (om_deletion (sa_meta sa))"
    and "map_get (sa_annotations sa) impersonateGroupAnnotation = Some grp"
    and "UpdateSA sa' \<in> set (new_events h (snd (sa_reconcile r w nn h)))"
    and "w_get_iam w (h @ [GetSA nn]) ref \<noteq> Inl (GoogleApi 404)"
  shows "finalizerName \<notin> set (om_finalizers (sa_meta sa'))"
    and "\<forall>b \<in> set (in_force w init (snd (sa_reconcile r w nn h)) ref). \<not> has_title (iam_condition_string w nn) b"
proof -
  let ?t = "iam_condition_string w nn" and ?h = "h @ [GetSA nn]"
  note released = sa_finalizer_released_last [OF assms(2,4-7), folded ref_def]
  then show "finalizerName \<notin> set (om_finalizers (sa_meta sa'))" by blast
  have get: "in_force w init ?h ref = in_force w init h ref" by (simp add: writes_policy_def)
  obtain iam where hist: "snd (sa_reconcile r w nn h) = ?h @ iam @ [UpdateSA sa']"
    and why: "(\<exists>read. w_get_iam w ?h ref = Inr read \<and>
        (\<forall>b \<in> set (p_bindings (policy_or_empty read)). \<not> has_title ?t b)) \<or>
      (\<exists>p. iam = [GetIamPolicy ref, SetIamPolicy ref p] \<and>
        snd (w_set_iam w (h @ [GetSA nn, GetIamPolicy ref]) ref p) = None \<and>
        (\<forall>b \<in> set (p_bindings p). \<not> has_title ?t b))"
    using released assms(8) sa_handler.history_grows [of r w nn h] by auto
  from why show "\<forall>b \<in> set (in_force w init (snd (sa_reconcile r w nn h)) ref). \<not> has_title ?t b"
  proof
    assume "\<exists>p. iam = [GetIamPolicy ref, SetIamPolicy ref p] \<and>
        snd (w_set_iam w (h @ [GetSA nn, GetIamPolicy ref]) ref p) = None \<and>
        (\<forall>b \<in> set (p_bindings p). \<not> has_title ?t b)"
    then obtain p where p: "iam = [GetIamPolicy ref, SetIamPolicy ref p]" "accepted_by w (?h @ [GetIamPolicy ref]) ref p"
      "\<forall>b \<in> set (p_bindings p). \<not> has_title ?t b"
      by (auto simp: accepted_by_def)
    have "in_force w init (snd (sa_reconcile r w nn h)) ref
        = in_force w init (?h @ [GetIamPolicy ref, SetIamPolicy ref p]) ref"
      using in_force_silent [of "[UpdateSA sa']" w init "?h @ [GetIamPolicy ref, SetIamPolicy ref p]" ref]
      by (simp add: hist p(1) writes_policy_def)
    with p(2,3) show ?thesis by (simp add: in_force_write del: append_assoc)
  next
    assume "\<exists>read. w_get_iam w ?h ref = Inr read \<and> (\<forall>b \<in> set (p_bindings (policy_or_empty read)). \<not> has_title ?t b)"
    then have clean: "\<forall>b \<in> set (in_force w init h ref). \<not> has_title ?t b"
      using iam_storeD [OF assms(3)] get by metis
    show ?thesis
    proof (cases rule: sa_reconcile_cases [of r w nn h])
      case (no_iam evs)
      then have "in_force w init (snd (sa_reconcile r w nn h)) ref = in_force w init h ref"
        using in_force_silent [of "GetSA nn # evs" w init h ref] iam_free_silent by (simp add: writes_policy_def)
      with clean show ?thesis by simp
    next
      case (live sa2 grp2 sa2' pre post)
      with assms(4,5) show ?thesis by simp
    next
      case (dying sa2 grp2 post)
      with assms(4,6) have grp2: "grp2 = grp" by simp
      note rest = in_force_silent [OF iam_free_silent [OF dying(5)]]
      show ?thesis
      proof (cases rule: remove_iam_binding_trace [of r w grp nn ?h])
        case read
        have "in_force w init (snd (sa_reconcile r w nn h)) ref = in_force w init h ref"
          unfolding dying(4) grp2 rest read using get by (simp add: writes_policy_def del: append_assoc)
        with clean show ?thesis by simp
      next
        case (wrote read p)
        have "in_force w init (snd (sa_reconcile r w nn h)) ref
            = (if accepted_by w (?h @ [GetIamPolicy ref]) ref p then p_bindings p else in_force w init h ref)"
          unfolding dying(4) grp2 rest wrote(1) in_force_write get by (simp add: ref_def)
        with clean wrote(4) show ?thesis by simp
      qed
    qed
  qed
qed

end
