(* ===== verification/Access_Lifecycle.thy ===== *)
theory Access_Lifecycle
  imports Bindings_In_Force
begin

text \<open>
  The life of an access as seen in the policies in force: only confirmed members come to have
  one, an undisturbed reconcile gives it, the bindings of others stay, the removal undoes it,
  and a change of group leaves the old one behind.
\<close>

section \<open>When nothing fails\<close>

definition healthy :: "world \<Rightarrow> string \<Rightarrow> bool" where
  "healthy w ref \<longleftrightarrow>
     (\<forall>h sa. \<exists>sa'. w_update_sa w h sa = Inr sa') \<and>
     (\<forall>h. \<exists>read. w_get_iam w h ref = Inr read) \<and>
     (\<forall>h p. snd (w_set_iam w h ref p) = None)"

lemma handle_gcp_sa_grants:
  fixes r :: sa_reconciler and grp :: string and ref
  defines "ref \<equiv> to_gcp_sa_ref (r_group_sa_project r) grp"
  assumes "healthy w ref" and "google_status_law w" and "iam_store w init"
    and "all_conditions (in_force w init h ref)" and "expiration_expr sa = Inr expr"
  shows "fst (handle_gcp_sa r w sa grp nn h) = Returns (False, None) \<and>
    (\<exists>i. index_func (has_title (iam_condition_string w nn)) (in_force w init (snd (handle_gcp_sa r w sa grp nn h)) ref)
       = Some i \<and>
     grants_as (wanted_binding r w nn expr) (in_force w init (snd (handle_gcp_sa r w sa grp nn h)) ref ! i))"
proof -
  obtain read where read: "w_get_iam w h ref = Inr read" using assms(2) unfolding healthy_def by blast
  have held: "p_bindings (policy_or_empty read) = in_force w init h ref" using iam_storeD [OF assms(4) read] .
  note run = handle_gcp_sa_run [OF read [unfolded ref_def] assms(6), folded ref_def]
  show ?thesis
  proof (cases "ensured r w nn expr read")
    case (Panics k)
    then have "fst (handle_gcp_sa r w sa grp nn h) = Panics k" by (simp add: run)
    then obtain i where "i < length (in_force w init h ref)" "b_condition (in_force w init h ref ! i) = None"
      using read held by (auto simp: handle_gcp_sa_panics_iff ref_def)
    with assms(5) have False unfolding all_conditions_def by (meson nth_mem)
    then show ?thesis ..
  next
    case (Returns mb)
    then obtain m bs where ens: "ensured r w nn expr read = Returns (m, bs)" by (cases mb) auto
    note spec = ensured_spec [OF ens]
    show ?thesis
    proof (cases m)
      case False
      with spec(3) held have "bs = in_force w init h ref" by simp
      with False spec(2) show ?thesis by (simp add: run ens writes_policy_def)
    next
      case True
      let ?p = "(policy_or_empty read)\<lparr>p_bindings := bs, p_version := 3\<rparr>"
      have ok: "accepted_by w t ref p" for t p using assms(2) by (simp add: healthy_def accepted_by_def)
      obtain status where status: "w_set_iam w (h @ [GetIamPolicy ref]) ref ?p = (status, None)"
        using assms(2) by (metis healthy_def prod.collapse)
      moreover from assms(3) have "case fst (w_set_iam w (h @ [GetIamPolicy ref]) ref ?p) of None \<Rightarrow> True
          | Some code \<Rightarrow> 200 \<le> code \<and> code < 300"
        unfolding google_status_law_def by blast
      ultimately have "status \<noteq> Some 409" by auto
      with True status have "handle_gcp_sa r w sa grp nn h
          = (Returns (False, None), h @ [GetIamPolicy ref, SetIamPolicy ref ?p])"
        by (simp add: run ens update_iam_policy_def call_set_iam_def)
      with spec(2) ok show ?thesis by (simp add: in_force_write)
    qed
  qed
qed

text \<open>The stretch up to the binding, and the annotation after it.\<close>

lemma healthy_finalizer:
  assumes "healthy w ref" and "api_laws w"
  obtains sa' evs where "ensure_sa_finalizer w sa h = (Inr sa', h @ evs)" "iam_free evs"
    "sa_annotations sa' = sa_annotations sa" "om_creation (sa_meta sa') = om_creation (sa_meta sa)"
proof (cases rule: ensure_sa_finalizer_cases [of w sa h])
  case (failed e sa')
  have "\<exists>x. w_update_sa w h y = Inr x" for y using assms(1) unfolding healthy_def by blast
  with failed have False
    by (auto simp: ensure_sa_finalizer_def call_update_sa_def Let_def split: if_splits prod.splits sum.splits)
      (metis sum.distinct(1))+
  then show ?thesis ..
next
  case (unchanged sa')
  with ensured_finalizer_keeps [OF assms(2) unchanged(1)] show ?thesis by (intro that [of sa' "[]"]) simp_all
next
  case (added sa' sa'')
  with ensured_finalizer_keeps [OF assms(2) added(1)] show ?thesis
    by (intro that [of sa'' "[UpdateSA sa']"]) simp_all
qed (use that [of sa "[]"] in simp)

lemma healthy_annotation:
  assumes "healthy w ref" and "sa_annotations sa = Some kvs"
  shows "fst (annotate_sa r w sa grp h) = Returns (False, None)"
  using assms(1) unfolding healthy_def
  by (auto simp: annotate_sa_def call_update_sa_def assms(2) Let_def split: sum.split) (metis sum.distinct(1))+

text \<open>A policy that is not found: the finalizer is given up, and nothing is written.\<close>

lemma missing_policy_untouched:
  fixes r :: sa_reconciler and grp :: string
  assumes "w_get_sa w h nn = Inr sa" and "\<not> time_ptr_is_zero (om_deletion (sa_meta sa))"
    and "map_get (sa_annotations sa) impersonateGroupAnnotation = Some grp"
    and "w_get_iam w (h @ [GetSA nn]) (to_gcp_sa_ref (r_group_sa_project r) grp) = Inl (GoogleApi 404)"
  shows "in_force w init (snd (sa_reconcile r w nn h)) ref = in_force w init h ref"
proof -
  let ?ref = "to_gcp_sa_ref (r_group_sa_project r) grp" and ?h = "h @ [GetSA nn]"
  have "snd (remove_iam_binding r w grp nn ?h) = ?h @ [GetIamPolicy ?ref]"
    using assms(4) by (simp add: remove_iam_binding_def call_get_iam_def Let_def)
  then have "emits (\<lambda>e. \<not> writes_policy e) h (snd (finalize_sa r w sa grp nn ?h))"
    by (cases rule: finalize_sa_trace [of r w sa grp nn ?h]) (auto simp: writes_policy_def dest!: iam_free_silent)
  moreover have "sa_reconcile r w nn h = finalize_sa r w sa grp nn ?h"
    using assms(1-3) by (simp add: sa_reconcile_def call_get_sa_def)
  ultimately obtain evs where "snd (sa_reconcile r w nn h) = h @ evs" "list_all (\<lambda>e. \<not> writes_policy e) evs"
    by (auto simp: emits_def)
  then show ?thesis by (simp add: in_force_silent)
qed

section \<open>Properties\<close>

text \<open>
  C1: Nobody gets access but members: every binding that is in force in a run of a started
  operator, and was not there at the beginning, gives the workload-identity role to one
  Kubernetes service account, in the namespace of a user whom Cloud Identity confirmed as a
  member of the group whose Google service account it is; for a group that requires a reason
  it ends within the longest duration after the creation of the account.
\<close>

theorem access_in_force_was_confirmed:
  assumes "start_operator b = Inr op" and "op_webhooks op = Some (m, v)"
    and "api_laws w" and "admission_law v w" and "iam_store w init"
    and "(operator_step op js env w)\<^sup>*\<^sup>* (started_state op) s"
    and "x \<in> set (in_force w init (os_history s) ref)" and "x \<notin> set (init ref)"
  shows "\<exists>h rest nn sa grp user ci c expr. os_history s = h @ rest \<and> w_get_sa w h nn = Inr sa \<and> impersonates sa grp \<and>
    ref = to_gcp_sa_ref (r_group_sa_project (op_reconciler op)) grp \<and>
    bt_cloud_identity b = Inr ci \<and> nn_namespace nn = userNamespacePrefix @ user \<and> ci_confirms ci user grp \<and>
    x = wanted_binding (op_reconciler op) w nn expr \<and> get_config (va_configs v) grp = Some c \<and>
    (gc_reason_required c \<longrightarrow>
       (\<exists>end \<le> om_creation (sa_meta sa) + gc_max_duration c.
          expr = ''request.time < timestamp('' @ [CHR 0x27] @ rfc3339_utc end @ [CHR 0x27] @ '')''))"
proof -
  obtain ci where ci: "bt_cloud_identity b = Inr ci" and auth: "va_auth v = user_is_member_of ci"
    using assms(1,2) by (rule started_auth)
  have "x \<notin> set (in_force w init (os_history (started_state op)) ref)"
    using assms(8) by (simp add: started_state_def)
  from run_new_binding [OF assms(6,5,3,7) this] obtain h rest nn sa grp expr where hist: "os_history s = h @ rest"
    and sa: "w_get_sa w h nn = Inr sa" and imp: "impersonates sa grp"
    and x: "ref = to_gcp_sa_ref (r_group_sa_project (op_reconciler op)) grp" "expiration_expr sa = Inr expr"
      "x = wanted_binding (op_reconciler op) w nn expr"
    unfolding asked_for_def by blast
  obtain env' rt rt' where adm: "validate v env' (SAObject sa) rt = Returns (None, rt')"
    using assms(4) sa imp unfolding admission_law_def by blast
  obtain user c where user: "om_namespace (sa_meta sa) = userNamespacePrefix @ user" "ci_confirms ci user grp"
    and c: "get_config (va_configs v) grp = Some c"
    and bound: "gc_reason_required c \<Longrightarrow> \<exists>end \<le> om_creation (sa_meta sa) + gc_max_duration c.
      expr = ''request.time < timestamp('' @ [CHR 0x27] @ rfc3339_utc end @ [CHR 0x27] @ '')''"
    using auth imp adm x(2) by (rule admitted_grant) blast
  have "nn_namespace nn = userNamespacePrefix @ user"
    using sa assms(3) user(1) by (metis api_laws_def)
  with hist sa imp x ci user(2) c bound show ?thesis by blast
qed

text \<open>
  C7: Other people's bindings: in every run of the operator, whatever fails, the bindings that no
  service account asks for are in force at the end as they were at the beginning, in content
  and in order: bindings under any title that is not one of the operator's, and those of
  accounts that are never read with this group.
\<close>

theorem unasked_bindings_stay:
  assumes "iam_store w init" and "(operator_step op js env w)\<^sup>*\<^sup>* (started_state op) s"
  shows "filter (unasked w (op_reconciler op) [] ref) (in_force w init (os_history s) ref)
    = filter (unasked w (op_reconciler op) [] ref) (init ref)"
  using run_keeps_unasked [OF assms(2,1), of ref] by (simp add: started_state_def)

text \<open>
  C37: A grant outlives a change of group: once the account asks for another group, or for none,
  the binding it had at the old group's service account stays in force in every further run,
  also when the account is deleted and its finalizer is given up, since only the policy of
  the group it asks for now is ever looked at.
\<close>

theorem group_change_leaves_grant:
  assumes "iam_store w init" and "(operator_step op js env w)\<^sup>*\<^sup>* s s'"
    and "b \<in> set (in_force w init (os_history s) (to_gcp_sa_ref (r_group_sa_project (op_reconciler op)) old))"
    and "\<And>nn evs sa grp. has_title (iam_condition_string w nn) b \<Longrightarrow>
      w_get_sa w (os_history s @ evs) nn = Inr sa \<Longrightarrow>
      map_get (sa_annotations sa) impersonateGroupAnnotation = Some grp \<Longrightarrow> grp \<noteq> old"
  shows "b \<in> set (in_force w init (os_history s') (to_gcp_sa_ref (r_group_sa_project (op_reconciler op)) old))"
proof -
  let ?ref = "to_gcp_sa_ref (r_group_sa_project (op_reconciler op)) old"
  have "to_gcp_sa_ref prj grp = to_gcp_sa_ref prj old \<Longrightarrow> grp = old" for prj grp
    by (simp add: to_gcp_sa_ref_def)
  then have "unasked w (op_reconciler op) (os_history s) ?ref b"
    using assms(4) unfolding unasked_def by metis
  with assms(3) have "b \<in> set (filter (unasked w (op_reconciler op) (os_history s) ?ref)
      (in_force w init (os_history s) ?ref))"
    by simp
  also have "filter (unasked w (op_reconciler op) (os_history s) ?ref) (in_force w init (os_history s) ?ref)
      = filter (unasked w (op_reconciler op) (os_history s) ?ref) (in_force w init (os_history s') ?ref)"
    using run_keeps_unasked [OF assms(2,1), of ?ref] by simp
  finally show ?thesis by simp
qed

text \<open>
  C6: Removal undoes every grant: after any number of reconciles of an account, the reconcile
  that gives up its finalizer leaves in force, at the service account of its group, exactly
  the bindings from before the first reconcile, without those of this account. The exception
  is a policy that is not found (HTTP 404, the service account of the group is gone): then
  the finalizer is given up as well, nothing is written, and what is in force, if anything,
  is what was in force before this reconcile. Assumed of Google: a policy that is read is the
  one last accepted, from the operator, its only writer (\<open>iam_store\<close>), so a stale read is
  left out; and controllerutil does as documented.
\<close>

theorem removal_undoes_every_grant:
  fixes r :: sa_reconciler and grp :: string and ref
  defines "ref \<equiv> to_gcp_sa_ref (r_group_sa_project r) grp"
  assumes "finalizer_laws w" and "iam_store w init" and "h = reconciles r w nn n h0"
    and "w_get_sa w h nn = Inr sa" and "\<not> time_ptr_is_zero (om_deletion (sa_meta sa))"
    and "map_get (sa_annotations sa) impersonateGroupAnnotation = Some grp"
    and "UpdateSA sa' \<in> set (new_events h (snd (sa_reconcile r w nn h)))"
  shows "finalizerName \<notin> set (om_finalizers (sa_meta sa')) \<and>
    in_force w init (snd (sa_reconcile r w nn h)) ref =
      (if w_get_iam w (h @ [GetSA nn]) ref = Inl (GoogleApi 404) then in_force w init h ref
       else filter (\<lambda>b. \<not> has_title (iam_condition_string w nn) b) (in_force w init h0 ref))"
proof (cases "w_get_iam w (h @ [GetSA nn]) ref = Inl (GoogleApi 404)")
  case True
  have "finalizerName \<notin> set (om_finalizers (sa_meta sa'))"
    using sa_finalizer_released_last [OF assms(2,5-8)] by blast
  with True missing_policy_untouched [OF assms(5-7) True [unfolded ref_def]] show ?thesis by simp
next
  case False
  note unbound = released_unbound [OF assms(2,3,5-8) False [unfolded ref_def], folded ref_def]
  have "in_force w init (snd (sa_reconcile r w nn h)) ref
      = filter (\<lambda>b. \<not> has_title (iam_condition_string w nn) b) (in_force w init (snd (sa_reconcile r w nn h)) ref)"
    using unbound(2) by (simp add: filter_id_conv)
  also have "\<dots> = filter (\<lambda>b. \<not> has_title (iam_condition_string w nn) b) (in_force w init h0 ref)"
    unfolding reconcile_frame [OF assms(3)] unfolding assms(4) by (rule reconciles_frame [OF assms(3)])
  finally show ?thesis using unbound(1) False by simp
qed

text \<open>
  C5: A grant goes through: when nothing fails and every binding in force has a condition, one
  reconcile of an account that asks for a group returns without an error and without another
  attempt, and afterwards the first binding in force under the account's name is the one it
  may have.
\<close>

theorem undisturbed_reconcile_grants:
  fixes r :: sa_reconciler and grp :: string and ref
  defines "ref \<equiv> to_gcp_sa_ref (r_group_sa_project r) grp"
  assumes "healthy w ref" and "google_status_law w" and "api_laws w" and "iam_store w init"
    and "w_get_sa w h nn = Inr sa" and "impersonates sa grp" and "expiration_expr sa = Inr expr"
    and "all_conditions (in_force w init h ref)"
  shows "fst (sa_reconcile r w nn h) = Returns (False, None) \<and>
    (\<exists>i. index_func (has_title (iam_condition_string w nn)) (in_force w init (snd (sa_reconcile r w nn h)) ref) = Some i \<and>
     grants_as (wanted_binding r w nn expr) (in_force w init (snd (sa_reconcile r w nn h)) ref ! i))"
proof -
  obtain kvs where kvs: "sa_annotations sa = Some kvs"
    and live: "time_ptr_is_zero (om_deletion (sa_meta sa))" "map_get (sa_annotations sa) impersonateGroupAnnotation = Some grp"
    using assms(7) by (cases "sa_annotations sa") (auto simp: impersonates_def map_get_def)
  obtain sa' evs where fin: "ensure_sa_finalizer w sa (h @ [GetSA nn]) = (Inr sa', (h @ [GetSA nn]) @ evs)"
    and free: "iam_free evs" and kept: "sa_annotations sa' = sa_annotations sa" "om_creation (sa_meta sa') = om_creation (sa_meta sa)"
    using assms(2,4) by (rule healthy_finalizer)
  let ?h = "(h @ [GetSA nn]) @ evs"
  have same: "in_force w init ?h ref = in_force w init h ref"
    unfolding in_force_silent [OF iam_free_silent [OF free]] by (simp add: writes_policy_def)
  have "expiration_expr sa' = Inr expr" using expiration_expr_cong [OF kept] assms(8) by simp
  note granted = handle_gcp_sa_grants [OF assms(2) [unfolded ref_def] assms(3,5) _ this, folded ref_def, of ?h nn, unfolded same, OF assms(9)]
  obtain h3 where gcp: "handle_gcp_sa r w sa' grp nn ?h = (Returns (False, None), h3)"
    using granted by (metis prod.collapse)
  have run: "sa_reconcile r w nn h = annotate_sa r w sa' grp h3"
    using assms(6) live fin gcp by (simp add: sa_reconcile_def call_get_sa_def del: append_assoc)
  obtain post where "snd (annotate_sa r w sa' grp h3) = h3 @ post" "iam_free post"
    using annotate_sa_trace by blast
  then have "in_force w init (snd (sa_reconcile r w nn h)) ref = in_force w init h3 ref"
    by (simp add: run in_force_silent iam_free_silent)
  with granted gcp run healthy_annotation [OF assms(2), of sa' kvs r grp h3] kept(1) kvs show ?thesis by simp
qed

section \<open>Witnesses\<close>

text \<open>
  A cluster whose IAM service accepts every policy and returns the last one. There is one
  account, in the states \<open>account\<close> gives it.
\<close>

definition store_world :: "(string \<Rightarrow> iam_binding list) \<Rightarrow> (history \<Rightarrow> service_account) \<Rightarrow> world" where
  "store_world init account = quiet_world\<lparr>
     w_get_sa := (\<lambda>h nn. if nn = example_nn then Inr (account h) else Inl NotFound),
     w_get_iam := (\<lambda>h ref. Inr (Some \<lparr>p_bindings = bindings_after (\<lambda>_ _ _. True) init (rev h) ref,
       p_version = 3, p_etag = ''e''\<rparr>))\<rparr>"

lemma store_world_fields [simp]:
  "finalizer_laws (store_world init account)"
  "w_get_sa (store_world init account) h nn = (if nn = example_nn then Inr (account h) else Inl NotFound)"
  "w_get_iam (store_world init account) h ref = Inr (Some \<lparr>p_bindings = bindings_after (\<lambda>_ _ _. True) init (rev h) ref,
     p_version = 3, p_etag = ''e''\<rparr>)"
  "w_set_iam (store_world init account) h ref p = (Some 200, None)"
  "w_update_sa (store_world init account) h sa = Inr sa"
  "w_contains_finalizer (store_world init account) [f] f"
  "w_remove_finalizer (store_world init account) [f] f = ([], True)"
  "iam_condition_string (store_world init account) nn = iam_condition_string quiet_world nn"
  "wanted_binding r (store_world init account) nn expr = wanted_binding r quiet_world nn expr"
  by (auto simp: store_world_def quiet_world_def finalizer_laws_def iam_condition_string_def wanted_binding_def)

lemma store_world_store: "iam_store (store_world init account) init"
proof -
  have "accepted_by (store_world init account) = (\<lambda>_ _ _. True)"
    by (intro ext) (simp add: accepted_by_def)
  then show ?thesis by (simp add: iam_store_def in_force_def policy_or_empty_def)
qed

lemma example_sa_finalizers [simp]:
  "set_sa_finalizers fs (example_sa anns fins d) = example_sa anns fs d"
  by (simp add: example_sa_def set_sa_finalizers_def)

lemma example_group_ref: "to_gcp_sa_ref (r_group_sa_project example_reconciler) ''dapla-developers'' = example_ref"
  by (simp add: example_ref_def example_reconciler_def)

lemma example_condition: "iam_condition_string quiet_world example_nn = ''ssbucketeer.namespacedName=user-ssb-abc/app''"
  by (simp add: iam_condition_string_def example_defs iamConditionKey_def)

text \<open>An account that had a grant as a developer asks for another group and is deleted.\<close>

abbreviation moved_account :: "string list \<Rightarrow> service_account" where
  "moved_account fins \<equiv> example_sa [(impersonateGroupAnnotation, ''dapla-data-admins'')] fins (Some 5)"

definition granted_before :: "string \<Rightarrow> iam_binding list" where
  "granted_before ref = (if ref = example_ref then [example_binding] else [])"

lemma moved_account_released:
  "snd (sa_reconcile example_reconciler (store_world granted_before (\<lambda>_. moved_account [finalizerName])) example_nn [])
    = [GetSA example_nn, GetIamPolicy (to_gcp_sa_ref ''groups'' ''dapla-data-admins''), UpdateSA (moved_account [])]"
proof -
  have "to_gcp_sa_ref ''groups'' ''dapla-data-admins'' \<noteq> example_ref"
    by (simp add: to_gcp_sa_ref_def example_ref_def)
  then show ?thesis
    by (simp add: sa_reconcile_def call_get_sa_def time_ptr_is_zero_def zero_time_def second_def finalize_sa_def
        remove_iam_binding_def call_get_iam_def call_update_sa_def granted_before_def example_reconciler_def Let_def)
qed

lemma one_reconcile:
  "(operator_step example_operator js env w)\<^sup>*\<^sup>* (started_state example_operator)
     ((started_state example_operator)\<lparr>os_history := snd (sa_reconcile example_reconciler w example_nn [])\<rparr>)"
  using operator_step.reconciling_sa [of example_operator js env w "started_state example_operator" example_nn]
  by (intro r_into_rtranclp) (simp add: started_state_def)

theorem unasked_bindings_stay_witness:
  "\<exists>s. (operator_step example_operator (example_json (example_sfs ''dapla-developers'')) example_audit_env
      (store_world granted_before (\<lambda>_. moved_account [finalizerName])))\<^sup>*\<^sup>* (started_state example_operator) s \<and>
    UpdateSA (moved_account []) \<in> set (os_history s) \<and>
    filter (unasked (store_world granted_before (\<lambda>_. moved_account [finalizerName])) example_reconciler [] example_ref)
      (in_force (store_world granted_before (\<lambda>_. moved_account [finalizerName])) granted_before (os_history s) example_ref)
      = [example_binding]"
proof -
  let ?w = "store_world granted_before (\<lambda>_. moved_account [finalizerName])"
  let ?s = "(started_state example_operator)\<lparr>os_history := snd (sa_reconcile example_reconciler ?w example_nn [])\<rparr>"
  have "unasked ?w example_reconciler [] example_ref example_binding"
    by (auto simp: unasked_def to_gcp_sa_ref_def example_ref_def example_reconciler_def split: if_splits)
  moreover have "filter (unasked ?w (op_reconciler example_operator) [] example_ref)
      (in_force ?w granted_before (os_history ?s) example_ref)
    = filter (unasked ?w (op_reconciler example_operator) [] example_ref) (granted_before example_ref)"
    by (rule unasked_bindings_stay [OF store_world_store one_reconcile])
  ultimately have "filter (unasked ?w example_reconciler [] example_ref)
      (in_force ?w granted_before (os_history ?s) example_ref) = [example_binding]"
    by (simp add: granted_before_def)
  moreover have "UpdateSA (moved_account []) \<in> set (os_history ?s)"
    by (simp add: moved_account_released)
  ultimately show ?thesis using one_reconcile by blast
qed

theorem group_change_leaves_grant_witness:
  "\<exists>s. (operator_step example_operator (example_json (example_sfs ''dapla-developers'')) example_audit_env
      (store_world granted_before (\<lambda>_. moved_account [finalizerName])))\<^sup>*\<^sup>* (started_state example_operator) s \<and>
    UpdateSA (moved_account []) \<in> set (os_history s) \<and>
    example_binding \<in> set (in_force (store_world granted_before (\<lambda>_. moved_account [finalizerName])) granted_before
      (os_history s) example_ref)"
proof -
  let ?w = "store_world granted_before (\<lambda>_. moved_account [finalizerName])"
  let ?s = "(started_state example_operator)\<lparr>os_history := snd (sa_reconcile example_reconciler ?w example_nn [])\<rparr>"
  have ref: "to_gcp_sa_ref (r_group_sa_project (op_reconciler example_operator)) ''dapla-developers'' = example_ref"
    by (simp add: example_ref_def example_reconciler_def)
  have "example_binding \<in> set (in_force ?w granted_before (os_history ?s)
      (to_gcp_sa_ref (r_group_sa_project (op_reconciler example_operator)) ''dapla-developers''))"
  proof (rule group_change_leaves_grant [OF store_world_store one_reconcile])
    show "example_binding \<in> set (in_force ?w granted_before (os_history (started_state example_operator))
      (to_gcp_sa_ref (r_group_sa_project (op_reconciler example_operator)) ''dapla-developers''))"
      by (simp only: ref) (simp add: started_state_def granted_before_def)
  qed (auto split: if_splits)
  then have "example_binding \<in> set (in_force ?w granted_before (os_history ?s) example_ref)"
    by (simp only: ref)
  moreover have "UpdateSA (moved_account []) \<in> set (os_history ?s)"
    by (simp add: moved_account_released)
  ultimately show ?thesis using one_reconcile by blast
qed

text \<open>An account that is granted access by one reconcile, and is being deleted at the next.\<close>

definition short_lived :: "history \<Rightarrow> service_account" where
  "short_lived h = example_sa example_group [finalizerName] (if h = [] then None else Some 5)"

definition other_binding :: iam_binding where
  "other_binding = \<lparr>b_role = ''roles/viewer'', b_members = [''user:x''],
     b_condition = Some \<lparr>ex_title = ''other'', ex_expression = ''true'', ex_other = []\<rparr>\<rparr>"

definition short_lived_policy :: iam_policy where
  "short_lived_policy = \<lparr>p_bindings = [other_binding, example_binding], p_version = 3, p_etag = ''e''\<rparr>"

abbreviation short_lived_world :: world where
  "short_lived_world \<equiv> store_world (\<lambda>_. [other_binding]) short_lived"

abbreviation short_lived_history :: history where
  "short_lived_history \<equiv> [GetSA example_nn, GetIamPolicy example_ref, SetIamPolicy example_ref short_lived_policy,
     UpdateSA (example_sa (AList.update gkeWIAnnotation
        (gcp_sa_email example_reconciler ''dapla-developers'') example_group) [finalizerName] None)]"

lemma short_lived_grant:
  "reconciles example_reconciler short_lived_world example_nn 1 [] = short_lived_history"
proof -
  note ref = example_group_ref
  note t = example_condition
  have ens: "ensured example_reconciler short_lived_world example_nn ''true''
      (Some \<lparr>p_bindings = [other_binding], p_version = 3, p_etag = ''e''\<rparr>)
      = Returns (True, [other_binding, example_binding])"
    by (simp add: ensured_def policy_or_empty_def other_binding_def t ensure_correct_binding_def example_binding_def)
  have no_wi: "map_index (Some example_group) gkeWIAnnotation \<noteq> gcp_sa_email example_reconciler grp" for grp
    by (simp add: map_index_def example_group_def annotation_keys gcp_sa_email_def)
  have sa: "set_sa_annotations (Some kvs) (example_sa anns fins None) = example_sa kvs fins None" for anns kvs fins
    by (simp add: example_sa_def set_sa_annotations_def)
  show ?thesis
    using no_wi
    by (simp add: sa_reconcile_def call_get_sa_def short_lived_def time_ptr_is_zero_def ensure_sa_finalizer_def
        handle_gcp_sa_run [where expr = "''true''"] ens ref update_iam_policy_def call_set_iam_def
        call_update_sa_def annotate_sa_def sa policy_or_empty_def short_lived_policy_def Let_def)
qed

lemma short_lived_removal:
  "UpdateSA (example_sa example_group [] (Some 5))
     \<in> set (new_events short_lived_history (snd (sa_reconcile example_reconciler short_lived_world example_nn short_lived_history)))"
proof -
  note ref = example_group_ref
  note t = example_condition
  show ?thesis
    by (simp add: sa_reconcile_def call_get_sa_def short_lived_def time_ptr_is_zero_def zero_time_def second_def
        finalize_sa_def remove_iam_binding_def call_get_iam_def short_lived_policy_def other_binding_def t ref
        update_iam_policy_def call_set_iam_def call_update_sa_def Let_def)
qed

theorem removal_undoes_every_grant_witness:
  "SetIamPolicy example_ref short_lived_policy \<in> set (reconciles example_reconciler short_lived_world example_nn 1 []) \<and>
   in_force short_lived_world (\<lambda>_. [other_binding])
     (snd (sa_reconcile example_reconciler short_lived_world example_nn
        (reconciles example_reconciler short_lived_world example_nn 1 []))) example_ref = [other_binding]"
proof -
  let ?h = short_lived_history
  note ref = example_group_ref
  have sa: "w_get_sa short_lived_world ?h example_nn = Inr (example_sa example_group [finalizerName] (Some 5))"
    and dying: "\<not> time_ptr_is_zero (om_deletion (sa_meta (example_sa example_group [finalizerName] (Some 5))))"
    and grp: "map_get (sa_annotations (example_sa example_group [finalizerName] (Some 5))) impersonateGroupAnnotation
      = Some ''dapla-developers''"
    and iam: "w_get_iam short_lived_world (?h @ [GetSA example_nn])
      (to_gcp_sa_ref (r_group_sa_project example_reconciler) ''dapla-developers'') \<noteq> Inl (GoogleApi 404)"
    by (simp_all add: short_lived_def time_ptr_is_zero_def zero_time_def second_def)
  from removal_undoes_every_grant [OF store_world_fields(1) store_world_store short_lived_grant [symmetric] sa dying grp
      short_lived_removal] iam
  have "in_force short_lived_world (\<lambda>_. [other_binding]) (snd (sa_reconcile example_reconciler short_lived_world example_nn ?h))
      example_ref = [other_binding]"
    by (simp add: ref other_binding_def has_title_def iam_condition_string_def iamConditionKey_def
        del: reconciles.simps)
  then show ?thesis unfolding short_lived_grant by simp
qed

lemma short_lived_laws:
  "api_laws short_lived_world"
  "admission_law (validator_of example_operator_config example_member_ci) short_lived_world"
proof -
  show "api_laws short_lived_world"
    by (auto simp: api_laws_def short_lived_def example_sa_def example_nn_def split: if_splits)
  let ?v = "validator_of example_operator_config example_member_ci" and ?sa = "example_sa example_group [finalizerName] None"
  have imp: "impersonates ?sa ''dapla-developers''"
    by (simp add: impersonates_def time_ptr_is_zero_def)
  have "owner_of ?sa = Some ''abc''"
    by (simp add: owner_of_Some_iff example_sa_def userNamespacePrefix_def)
  then have "may_impersonate ?v ?sa ''dapla-developers''"
    by (auto simp: may_impersonate_def validator_of_def example_operator_config_of example_membership)
  then have "\<exists>rt'. validate ?v example_audit_env (SAObject ?sa) (new_router []) = Returns (None, rt')"
    by (simp add: validate_admits_iff [OF router_ok_new imp])
  moreover have "impersonates (short_lived h) grp \<Longrightarrow> short_lived h = ?sa" for h grp
    by (auto simp: short_lived_def impersonates_def time_ptr_is_zero_def zero_time_def second_def split: if_splits)
  ultimately show "admission_law ?v short_lived_world"
    unfolding admission_law_def by (simp split: if_splits) metis
qed

theorem access_in_force_was_confirmed_witness:
  "\<exists>s user. (operator_step example_operator (example_json (example_sfs ''dapla-developers'')) example_audit_env
      short_lived_world)\<^sup>*\<^sup>* (started_state example_operator) s \<and>
    example_binding \<in> set (in_force short_lived_world (\<lambda>_. [other_binding]) (os_history s) example_ref) \<and>
    nn_namespace example_nn = userNamespacePrefix @ user \<and> ci_confirms example_member_ci user ''dapla-developers''"
proof -
  let ?s = "(started_state example_operator)\<lparr>os_history := snd (sa_reconcile example_reconciler short_lived_world example_nn [])\<rparr>"
  have hist: "os_history ?s = short_lived_history" using short_lived_grant by simp
  have here: "example_binding \<in> set (in_force short_lived_world (\<lambda>_. [other_binding]) (os_history ?s) example_ref)"
    unfolding hist by (simp add: in_force_def accepted_by_def short_lived_policy_def)
  have new: "example_binding \<notin> set [other_binding]"
    by (simp add: example_binding_def other_binding_def wanted_binding_def wiRole_def)
  from access_in_force_was_confirmed [OF example_operator_started example_operator_fields(1) short_lived_laws
      store_world_store one_reconcile here new]
  obtain h nn sa grp user where "w_get_sa short_lived_world h nn = Inr sa" "impersonates sa grp"
    "nn_namespace nn = userNamespacePrefix @ user" "ci_confirms example_member_ci user grp"
    by (auto simp: example_boot_def)
  then have "nn_namespace example_nn = userNamespacePrefix @ user" "ci_confirms example_member_ci user ''dapla-developers''"
    by (auto simp: short_lived_def impersonates_def split: if_splits)
  with one_reconcile here show ?thesis by blast
qed

theorem undisturbed_reconcile_grants_witness:
  "fst (sa_reconcile example_reconciler short_lived_world example_nn []) = Returns (False, None) \<and>
   (\<exists>b \<in> set (in_force short_lived_world (\<lambda>_. [other_binding])
      (snd (sa_reconcile example_reconciler short_lived_world example_nn [])) example_ref).
      grants_as example_binding b)"
proof -
  let ?w = short_lived_world and ?sa = "example_sa example_group [finalizerName] None"
  note ref = example_group_ref
  have "healthy ?w example_ref" by (simp add: healthy_def)
  moreover have "google_status_law ?w" by (simp add: google_status_law_def)
  moreover have "api_laws ?w" by (rule short_lived_laws(1))
  moreover have "w_get_sa ?w [] example_nn = Inr ?sa" by (simp add: short_lived_def)
  moreover have "impersonates ?sa ''dapla-developers''" by (simp add: impersonates_def time_ptr_is_zero_def)
  moreover have "all_conditions (in_force ?w (\<lambda>_. [other_binding]) [] example_ref)"
    by (simp add: all_conditions_def other_binding_def)
  ultimately have run: "fst (sa_reconcile example_reconciler ?w example_nn []) = Returns (False, None) \<and>
    (\<exists>i. index_func (has_title (iam_condition_string ?w example_nn))
        (in_force ?w (\<lambda>_. [other_binding]) (snd (sa_reconcile example_reconciler ?w example_nn [])) example_ref) = Some i \<and>
      grants_as (wanted_binding example_reconciler ?w example_nn ''true'')
        (in_force ?w (\<lambda>_. [other_binding]) (snd (sa_reconcile example_reconciler ?w example_nn [])) example_ref ! i))"
    using undisturbed_reconcile_grants [of ?w example_reconciler "''dapla-developers''" "\<lambda>_. [other_binding]" "[]" example_nn
        ?sa "''true''"] store_world_store unfolding ref by simp
  then show ?thesis
    using index_func_SomeD(1) by (metis example_binding_def nth_mem store_world_fields(9))
qed

end
