(* ===== verification/Folder_Precreator.thy ===== *)
theory Folder_Precreator
  imports World
begin

text \<open>
  \<^verbatim>\<open>cmd/folder-precreator/main.go\<close>: the program in the precreator container. It lists the
  objects of every bucket and creates their folders under the bucket's mount point, once at
  the start and whenever the refresh endpoint is called; only one call at a time gets
  through. The file system and the storage service are the parameters \<open>pc_world\<close>.
\<close>

section \<open>The path package\<close>

text \<open>
  \<^verbatim>\<open>path.Clean\<close> on the elements between slashes, with the elements kept so far in reverse:
  empty elements and dots vanish, two dots remove the element before them, or vanish at
  the root, or stay at the start of a relative path.
\<close>

definition clean_step :: "bool \<Rightarrow> string \<Rightarrow> string list \<Rightarrow> string list" where
  "clean_step rooted seg kept =
     (if seg = [] \<or> seg = ''.'' then kept
      else if seg = ''..'' then
        (case kept of
           [] \<Rightarrow> if rooted then [] else [''..'']
         | s # rest \<Rightarrow> if s = ''..'' then ''..'' # kept else rest)
      else seg # kept)"

definition clean_segments :: "bool \<Rightarrow> string list \<Rightarrow> string list" where
  "clean_segments rooted segs = rev (fold (clean_step rooted) segs [])"

definition path_clean :: "string \<Rightarrow> string" where
  "path_clean p =
     (let rooted = has_prefix p ''/''; segs = clean_segments rooted (split_on CHR ''/'' p)
      in if rooted then ''/'' @ join ''/'' segs
         else if segs = [] then ''.'' else join ''/'' segs)"

definition path_join :: "string \<Rightarrow> string \<Rightarrow> string" where
  "path_join a b =
     (if a = [] \<and> b = [] then []
      else if a = [] then path_clean b
      else if b = [] then path_clean a
      else path_clean (a @ ''/'' @ b))"

text \<open>\<^verbatim>\<open>path.Dir\<close>: everything up to the last slash, cleaned.\<close>

definition path_dir :: "string \<Rightarrow> string" where
  "path_dir p = path_clean (rev (dropWhile (\<lambda>c. c \<noteq> CHR ''/'') (rev p)))"

section \<open>The program\<close>

datatype pc_event = ReadDir string | ListObjects string | MkdirAll string

type_synonym pc_history = "pc_event list"

record pc_world =
  pw_read_dir :: "pc_history \<Rightarrow> string \<Rightarrow> string + (string \<times> bool) list"
  pw_objects :: "pc_history \<Rightarrow> string \<Rightarrow> string listing"
  pw_mkdir_all :: "pc_history \<Rightarrow> string \<Rightarrow> string option"
  pw_keys :: "pc_history \<Rightarrow> string list \<Rightarrow> string list"

record bucket_mount_dir =
  bm_bucket_name :: string
  bm_mount_point :: string

fun object_dirs :: "string listing \<Rightarrow> string list \<Rightarrow> string + string list" where
  "object_dirs ([], e) names = (case e of IterDone \<Rightarrow> Inr names | IterError msg \<Rightarrow> Inl msg)"
| "object_dirs (name # it, e) names = object_dirs (it, e) (List.insert (path_dir name) names)"

definition list_bucket_folders :: "pc_world \<Rightarrow> string \<Rightarrow> pc_history \<Rightarrow> (string + string list) \<times> pc_history" where
  "list_bucket_folders w bucket h0 =
     (let h1 = h0 @ [ListObjects bucket]
      in case object_dirs (pw_objects w h0 bucket) [] of
           Inl e \<Rightarrow> (Inl e, h1)
         | Inr names \<Rightarrow> (Inr (pw_keys w h1 names), h1))"

text \<open>The errors collected by \<^verbatim>\<open>errors.Join\<close>; an empty list is nil.\<close>

fun create_folders :: "pc_world \<Rightarrow> string \<Rightarrow> string list \<Rightarrow> pc_history \<Rightarrow> string list \<times> pc_history" where
  "create_folders w prefixPath [] h0 = ([], h0)"
| "create_folders w prefixPath (folder # folders) h0 =
     (let path = path_join prefixPath folder;
          err = pw_mkdir_all w h0 path;
          (errs, h2) = create_folders w prefixPath folders (h0 @ [MkdirAll path])
      in ((case err of None \<Rightarrow> errs | Some e \<Rightarrow> e # errs), h2))"

definition populate_bucket_folders ::
  "pc_world \<Rightarrow> bucket_mount_dir \<Rightarrow> pc_history \<Rightarrow> string list \<times> pc_history" where
  "populate_bucket_folders w bm h0 =
     (case list_bucket_folders w (bm_bucket_name bm) h0 of
        (Inl e, h1) \<Rightarrow> ([e], h1)
      | (Inr folders, h1) \<Rightarrow> create_folders w (bm_mount_point bm) folders h1)"

fun populate_entries ::
  "pc_world \<Rightarrow> string \<Rightarrow> (string \<times> bool) list \<Rightarrow> pc_history \<Rightarrow> string list \<times> pc_history" where
  "populate_entries w base [] h0 = ([], h0)"
| "populate_entries w base ((name, isDir) # entries) h0 =
     (let (errs, h1) =
            (if isDir then
               populate_bucket_folders w
                 \<lparr>bm_bucket_name = name, bm_mount_point = path_join base name\<rparr> h0
             else ([], h0));
          (errs', h2) = populate_entries w base entries h1
      in (errs @ errs', h2))"

definition populate_all_bucket_folders :: "pc_world \<Rightarrow> string \<Rightarrow> pc_history \<Rightarrow> string list \<times> pc_history" where
  "populate_all_bucket_folders w baseMountPoint h0 =
     (let h1 = h0 @ [ReadDir baseMountPoint]
      in case pw_read_dir w h0 baseMountPoint of
           Inl e \<Rightarrow> ([e], h1)
         | Inr entries \<Rightarrow> populate_entries w baseMountPoint entries h1)"

section \<open>The refresh endpoint\<close>

text \<open>
  A request waits for its turn at \<^verbatim>\<open>TryLock\<close>, populates while it holds the lock, writes its
  status and unlocks on return. The steps of different requests interleave. Populating is
  one step that can end with any errors: how long it takes, and that the file system or the
  storage service may never answer, is left out here.
\<close>

datatype phase = Waiting | Populating | Unlocking nat | Answered nat

record server =
  sv_locked :: bool
  sv_phase :: "nat \<Rightarrow> phase"

definition status_of :: "string list \<Rightarrow> nat" where
  "status_of errs = (if errs = [] then 200 else 500)"

inductive refresh_step :: "server \<Rightarrow> server \<Rightarrow> bool" where
  turned_away:
    "sv_phase s r = Waiting \<Longrightarrow> sv_locked s \<Longrightarrow>
       refresh_step s (s\<lparr>sv_phase := (sv_phase s)(r := Answered 429)\<rparr>)"
| locked:
    "sv_phase s r = Waiting \<Longrightarrow> \<not> sv_locked s \<Longrightarrow>
       refresh_step s (s\<lparr>sv_locked := True, sv_phase := (sv_phase s)(r := Populating)\<rparr>)"
| populated:
    "sv_phase s r = Populating \<Longrightarrow>
       refresh_step s (s\<lparr>sv_phase := (sv_phase s)(r := Unlocking (status_of errs))\<rparr>)"
| unlocked:
    "sv_phase s r = Unlocking code \<Longrightarrow>
       refresh_step s (s\<lparr>sv_locked := False, sv_phase := (sv_phase s)(r := Answered code)\<rparr>)"

inductive_cases refresh_stepE: "refresh_step s s'"

definition idle_server :: server where
  "idle_server = \<lparr>sv_locked = False, sv_phase = (\<lambda>_. Waiting)\<rparr>"

definition inside :: "server \<Rightarrow> nat \<Rightarrow> bool" where
  "inside s r \<longleftrightarrow> (case sv_phase s r of Populating \<Rightarrow> True | Unlocking _ \<Rightarrow> True | _ \<Rightarrow> False)"

definition refresh_inv :: "server \<Rightarrow> bool" where
  "refresh_inv s \<longleftrightarrow>
     (sv_locked s \<longleftrightarrow> (\<exists>r. inside s r)) \<and> (\<forall>r r'. inside s r \<longrightarrow> inside s r' \<longrightarrow> r = r')"

lemma inside_update [simp]:
  "inside (s\<lparr>sv_phase := (sv_phase s)(r := p)\<rparr>) r' \<longleftrightarrow>
     (if r' = r then (case p of Populating \<Rightarrow> True | Unlocking _ \<Rightarrow> True | _ \<Rightarrow> False) else inside s r')"
  "inside (s\<lparr>sv_locked := b, sv_phase := (sv_phase s)(r := p)\<rparr>) r' \<longleftrightarrow>
     (if r' = r then (case p of Populating \<Rightarrow> True | Unlocking _ \<Rightarrow> True | _ \<Rightarrow> False) else inside s r')"
  by (auto simp: inside_def)

lemma refresh_inv_step:
  assumes "refresh_step s s'" and "refresh_inv s"
  shows "refresh_inv s'"
  using assms(1)
proof cases
  case (turned_away r)
  then have "\<not> inside s r" by (simp add: inside_def)
  with turned_away assms(2) show ?thesis by (auto simp: refresh_inv_def)
next
  case (locked r)
  with assms(2) show ?thesis by (auto simp: refresh_inv_def)
next
  case (populated r errs)
  then have "inside s r" by (simp add: inside_def)
  with populated assms(2) show ?thesis by (auto simp: refresh_inv_def)
next
  case (unlocked r code)
  then have "inside s r" by (simp add: inside_def)
  with unlocked assms(2) show ?thesis by (auto simp: refresh_inv_def)
qed

lemma refresh_inv_reachable:
  assumes "refresh_step\<^sup>*\<^sup>* idle_server s"
  shows "refresh_inv s"
  using assms
proof induction
  case base
  show ?case by (simp add: refresh_inv_def idle_server_def inside_def)
next
  case (step s s')
  then show ?case by (blast intro: refresh_inv_step)
qed

section \<open>Which folders are created\<close>

lemma object_dirs_spec:
  "object_dirs it names =
     (case snd it of IterDone \<Rightarrow> Inr (fold (\<lambda>n. List.insert (path_dir n)) (fst it) names)
      | IterError msg \<Rightarrow> Inl msg)"
  by (induction it names rule: object_dirs.induct) (auto split: iter_error.split)

lemma set_fold_insert: "set (fold (\<lambda>n. List.insert (f n)) ns names) = set names \<union> f ` set ns"
  by (induction ns arbitrary: names) auto

lemma create_folders_events:
  "snd (create_folders w pre fs h) = h @ map (\<lambda>f. MkdirAll (path_join pre f)) fs"
  by (induction w pre fs h rule: create_folders.induct) (auto simp: Let_def split: prod.split)

text \<open>
  The calls that one entry of the directory takes, after the calls \<open>before\<close>: none for a file;
  for a bucket its listing, and, when the listing is complete, one creation of each folder
  that holds an object.
\<close>

definition entry_calls_ok :: "pc_world \<Rightarrow> string \<Rightarrow> pc_history \<Rightarrow> string \<times> bool \<Rightarrow> pc_event list \<Rightarrow> bool" where
  "entry_calls_ok w base before entry calls \<longleftrightarrow>
     (if \<not> snd entry then calls = []
      else
        let (names, end) = pw_objects w before (fst entry)
        in if end = IterDone then
             \<exists>folders. distinct folders \<and> set folders = path_dir ` set names \<and>
               calls = ListObjects (fst entry) #
                 map (\<lambda>f. MkdirAll (path_join (path_join base (fst entry)) f)) folders
           else calls = [ListObjects (fst entry)])"

lemma distinct_fold_insert: "distinct names \<Longrightarrow> distinct (fold (\<lambda>n. List.insert (f n)) ns names)"
  by (induction ns arbitrary: names) auto

lemma populate_bucket_calls:
  assumes "\<And>t ks. mset (pw_keys w t ks) = mset ks"
  shows "\<exists>calls. snd (populate_bucket_folders w \<lparr>bm_bucket_name = name, bm_mount_point = path_join base name\<rparr> h)
      = h @ calls \<and> entry_calls_ok w base h (name, True) calls"
proof (cases "snd (pw_objects w h name)")
  case IterDone
  let ?names = "fold (\<lambda>n. List.insert (path_dir n)) (fst (pw_objects w h name)) []"
  define folders where "folders = pw_keys w (h @ [ListObjects name]) ?names"
  let ?calls = "ListObjects name # map (\<lambda>f. MkdirAll (path_join (path_join base name) f)) folders"
  have keys: "mset folders = mset ?names" unfolding folders_def by (rule assms)
  have "distinct ?names" by (rule distinct_fold_insert) simp
  then have "distinct folders" by (rule mset_eq_imp_distinct_iff [OF keys, THEN iffD2])
  moreover have "set folders = path_dir ` set (fst (pw_objects w h name))"
    using mset_eq_setD [OF keys] by (simp add: set_fold_insert)
  ultimately have "entry_calls_ok w base h (name, True) ?calls"
    using IterDone unfolding entry_calls_ok_def split_beta Let_def
    by (simp only: fst_conv snd_conv not_True_eq_False if_False if_True simp_thms) blast
  moreover have "snd (populate_bucket_folders w \<lparr>bm_bucket_name = name, bm_mount_point = path_join base name\<rparr> h)
      = h @ ?calls"
    using IterDone
    by (simp add: populate_bucket_folders_def list_bucket_folders_def object_dirs_spec create_folders_events
        folders_def Let_def)
  ultimately show ?thesis by blast
next
  case (IterError msg)
  then show ?thesis
    by (intro exI [of _ "[ListObjects name]"])
      (simp add: populate_bucket_folders_def list_bucket_folders_def object_dirs_spec entry_calls_ok_def
        Let_def split_beta)
qed

text \<open>The calls of the whole loop are those of its entries, one after the other.\<close>

fun walk_ok :: "pc_world \<Rightarrow> string \<Rightarrow> pc_history \<Rightarrow> (string \<times> bool) list \<Rightarrow> pc_event list list \<Rightarrow> bool" where
  "walk_ok w base h [] [] = True"
| "walk_ok w base h (entry # entries) (calls # walk) =
     (entry_calls_ok w base h entry calls \<and> walk_ok w base (h @ calls) entries walk)"
| "walk_ok w base h _ _ = False"

lemma walk_ok_nth:
  "walk_ok w base h entries walk \<longleftrightarrow>
     length walk = length entries \<and>
     (\<forall>i < length entries. entry_calls_ok w base (h @ concat (take i walk)) (entries ! i) (walk ! i))"
  by (induction w base h entries walk rule: walk_ok.induct) (auto simp: less_Suc_eq_0_disj)

lemma populate_entries_walk:
  assumes "\<And>t ks. mset (pw_keys w t ks) = mset ks"
  shows "\<exists>walk. snd (populate_entries w base entries h) = h @ concat walk \<and> walk_ok w base h entries walk"
proof (induction entries arbitrary: h)
  case Nil
  show ?case by (intro exI [of _ "[]"]) simp
next
  case (Cons e es)
  obtain n d where e: "e = (n, d)" by (cases e)
  let ?one = "if d then populate_bucket_folders w
             \<lparr>bm_bucket_name = n, bm_mount_point = path_join base n\<rparr> h else ([], h)"
  have "\<exists>calls. snd ?one = h @ calls \<and> entry_calls_ok w base h e calls"
    using populate_bucket_calls [OF assms, of n base h] by (cases d) (auto simp: e entry_calls_ok_def)
  then obtain calls where calls: "snd ?one = h @ calls" "entry_calls_ok w base h e calls" by blast
  obtain walk where "snd (populate_entries w base es (h @ calls)) = (h @ calls) @ concat walk"
      "walk_ok w base (h @ calls) es walk"
    using Cons.IH by blast
  moreover have "snd (populate_entries w base (e # es) h) = snd (populate_entries w base es (snd ?one))"
    by (simp add: e Let_def split: prod.split)
  ultimately show ?case
    using calls by (intro exI [of _ "calls # walk"]) simp
qed

section \<open>Where the folders are created\<close>

text \<open>An element of a path that names something: a file, a folder or a bucket.\<close>

definition plain :: "string \<Rightarrow> bool" where
  "plain s \<longleftrightarrow> s \<noteq> [] \<and> s \<noteq> ''.'' \<and> s \<noteq> ''..'' \<and> CHR ''/'' \<notin> set s"

definition kept_segments :: "string list \<Rightarrow> string list" where
  "kept_segments segs = filter (\<lambda>s. s \<noteq> [] \<and> s \<noteq> ''.'') segs"

lemma fold_clean_step:
  "''..'' \<notin> set segs \<Longrightarrow> fold (clean_step rooted) segs kept = rev (kept_segments segs) @ kept"
  by (induction segs arbitrary: kept) (auto simp: clean_step_def kept_segments_def)

lemma clean_segments_up_free:
  "''..'' \<notin> set segs \<Longrightarrow> clean_segments rooted segs = kept_segments segs"
  by (simp add: clean_segments_def fold_clean_step)

lemma kept_segments_simps [simp]:
  "kept_segments [] = []" "kept_segments ([] # segs) = kept_segments segs"
  "kept_segments (a @ b) = kept_segments a @ kept_segments b"
  "plain s \<Longrightarrow> kept_segments (s # segs) = s # kept_segments segs"
  by (auto simp: kept_segments_def plain_def)

lemma kept_segments_idem [simp]: "kept_segments (kept_segments segs) = kept_segments segs"
  by (simp add: kept_segments_def)

lemma set_kept_segments: "set (kept_segments segs) \<subseteq> set segs"
  by (auto simp: kept_segments_def)

lemma has_prefix_single [simp]: "has_prefix p [c] \<longleftrightarrow> p \<noteq> [] \<and> hd p = c"
  by (cases p) (auto simp: has_prefix_def)

text \<open>What a path without two dots is cleaned to, element by element.\<close>

lemma split_path_clean:
  assumes "''..'' \<notin> set (split_on CHR ''/'' p)"
  shows "kept_segments (split_on CHR ''/'' (path_clean p)) = kept_segments (split_on CHR ''/'' p)"
    and "''..'' \<notin> set (split_on CHR ''/'' (path_clean p))"
proof -
  let ?segs = "split_on CHR ''/'' p" and ?kept = "kept_segments (split_on CHR ''/'' p)"
  have no_slash: "\<forall>s \<in> set ?kept. CHR ''/'' \<notin> set s"
    using set_kept_segments split_on_sep_free by blast
  have up: "''..'' \<notin> set ?kept" using assms set_kept_segments by blast
  have split: "split_on CHR ''/'' (join ''/'' ?kept) = ?kept" if "?kept \<noteq> []"
    using that no_slash by (rule split_on_join)
  consider (root) "has_prefix p ''/''" | (dot) "\<not> has_prefix p ''/''" "?kept = []"
    | (rel) "\<not> has_prefix p ''/''" "?kept \<noteq> []" by blast
  then have "kept_segments (split_on CHR ''/'' (path_clean p)) = ?kept \<and>
      ''..'' \<notin> set (split_on CHR ''/'' (path_clean p))"
  proof cases
    case root
    then show ?thesis
      using split up by (cases "?kept = []") (auto simp: path_clean_def clean_segments_up_free [OF assms])
  next
    case dot
    then show ?thesis by (simp add: path_clean_def clean_segments_up_free [OF assms] kept_segments_def)
  next
    case rel
    then show ?thesis using split up by (simp add: path_clean_def clean_segments_up_free [OF assms] Let_def)
  qed
  then show "kept_segments (split_on CHR ''/'' (path_clean p)) = kept_segments (split_on CHR ''/'' p)"
    and "''..'' \<notin> set (split_on CHR ''/'' (path_clean p))" by auto
qed

lemma dir_part:
  "kept_segments (split_on CHR ''/'' (rev (dropWhile (\<lambda>c. c \<noteq> CHR ''/'') (rev name))))
     = kept_segments (butlast (split_on CHR ''/'' name)) \<and>
   set (split_on CHR ''/'' (rev (dropWhile (\<lambda>c. c \<noteq> CHR ''/'') (rev name))))
     \<subseteq> insert [] (set (split_on CHR ''/'' name))"
proof (cases "CHR ''/'' \<in> set name")
  case False
  then have nil: "rev (dropWhile (\<lambda>c. c \<noteq> CHR ''/'') (rev name)) = []" by (auto simp: dropWhile_eq_Nil_conv)
  show ?thesis unfolding nil using False by (simp add: split_on_no_sep)
next
  case True
  then obtain d b where name: "name = d @ CHR ''/'' # b" "CHR ''/'' \<notin> set b"
    by (metis split_list_last)
  have "dropWhile (\<lambda>c. c \<noteq> CHR ''/'') (rev b @ CHR ''/'' # rev d) = CHR ''/'' # rev d"
    using name(2) by (subst dropWhile_append2) auto
  then have "rev (dropWhile (\<lambda>c. c \<noteq> CHR ''/'') (rev name)) = d @ CHR ''/'' # []"
    by (simp add: name(1))
  then show ?thesis
    using name by (auto simp: split_on_append split_on_no_sep butlast_append)
qed

lemma path_dir_segments:
  assumes "''..'' \<notin> set (split_on CHR ''/'' name)"
  shows "kept_segments (split_on CHR ''/'' (path_dir name)) = kept_segments (butlast (split_on CHR ''/'' name))"
    and "''..'' \<notin> set (split_on CHR ''/'' (path_dir name))"
proof -
  let ?d = "rev (dropWhile (\<lambda>c. c \<noteq> CHR ''/'') (rev name))"
  have "''..'' \<notin> set (split_on CHR ''/'' ?d)" using assms dir_part [of name] by auto
  from split_path_clean [OF this] dir_part [of name] show
    "kept_segments (split_on CHR ''/'' (path_dir name)) = kept_segments (butlast (split_on CHR ''/'' name))"
    and "''..'' \<notin> set (split_on CHR ''/'' (path_dir name))"
    by (simp_all add: path_dir_def)
qed

lemma path_clean_not_Nil [simp]: "path_clean p \<noteq> []"
proof -
  have "join sep segs \<noteq> []" if "segs \<noteq> []" "[] \<notin> set segs" for sep segs
    using that by (induction sep segs rule: join.induct) auto
  moreover have "[] \<notin> set (clean_segments b segs)" for b segs
  proof -
    have "[] \<notin> set (fold (clean_step b) segs kept)" if "[] \<notin> set kept" for kept
      using that
    proof (induction segs arbitrary: kept)
      case (Cons seg segs)
      have "[] \<notin> set (clean_step b seg kept)"
        using Cons.prems by (cases kept) (auto simp: clean_step_def)
      with Cons.IH show ?case by simp
    qed simp
    then show ?thesis by (simp add: clean_segments_def)
  qed
  ultimately show ?thesis by (auto simp: path_clean_def Let_def)
qed

lemma path_dir_not_Nil [simp]: "path_dir p \<noteq> []"
  by (simp add: path_dir_def)

lemma mount_point: "plain b \<Longrightarrow> path_join ''/buckets'' b = ''/buckets/'' @ b"
  by (simp add: path_join_def path_clean_def plain_def split_on_no_sep clean_segments_def clean_step_def Let_def)

section \<open>Properties\<close>

text \<open>
  C32: What the precreator does, call by call: it reads the directory once, and then takes
  its entries in order. A file takes no call. A bucket is listed; when its listing ends
  without an error, every folder that holds one of its objects is created under its mount
  point, each once, and nothing else; when the listing fails, nothing is created. The
  calls of an entry do not depend on what goes wrong with another bucket or folder, and
  there is no other call. (\<^verbatim>\<open>maps.Keys\<close> gives the keys in any order, each once.)
\<close>

theorem all_bucket_folders_populated:
  assumes "\<And>t ks. mset (pw_keys w t ks) = mset ks" and "pw_read_dir w h base = Inr entries"
  shows "\<exists>walk. snd (populate_all_bucket_folders w base h) = h @ ReadDir base # concat walk \<and>
    length walk = length entries \<and>
    (\<forall>i < length entries.
       let before = h @ ReadDir base # concat (take i walk); (name, isDir) = entries ! i;
           (objects, end) = pw_objects w before name
       in if \<not> isDir then walk ! i = []
          else if end = IterDone then
            \<exists>folders. distinct folders \<and> set folders = path_dir ` set objects \<and>
              walk ! i = ListObjects name # map (\<lambda>f. MkdirAll (path_join (path_join base name) f)) folders
          else walk ! i = [ListObjects name])"
proof -
  obtain walk where "snd (populate_entries w base entries (h @ [ReadDir base])) = (h @ [ReadDir base]) @ concat walk"
    and ok: "walk_ok w base (h @ [ReadDir base]) entries walk"
    using populate_entries_walk [OF assms(1)] by blast
  then have "snd (populate_all_bucket_folders w base h) = h @ ReadDir base # concat walk"
    using assms(2) by (simp add: populate_all_bucket_folders_def)
  moreover have "length walk = length entries" using ok by (simp add: walk_ok_nth)
  moreover have "entry_calls_ok w base (h @ ReadDir base # concat (take i walk)) (entries ! i) (walk ! i)"
    if "i < length entries" for i
    using ok that by (simp add: walk_ok_nth)
  ultimately show ?thesis
    unfolding entry_calls_ok_def Let_def split_beta by blast
qed

text \<open>
  The folder of an object whose name has no two-dot element is created inside the
  bucket's mount point: its path is the mount point followed by the elements of the
  object's name that name something, without the last.
\<close>

theorem object_folders_stay_in_mount:
  assumes "plain bucket" and "''..'' \<notin> set (split_on CHR ''/'' name)"
  shows "path_join (path_join ''/buckets'' bucket) (path_dir name) =
    join ''/'' ((''/buckets/'' @ bucket) # kept_segments (butlast (split_on CHR ''/'' name)))"
proof -
  let ?dir = "path_dir name" and ?ks = "kept_segments (butlast (split_on CHR ''/'' name))"
  have "split_on CHR ''/'' ((''/buckets/'' @ bucket) @ ''/'' @ ?dir)
      = [] # ''buckets'' # bucket # split_on CHR ''/'' ?dir"
    using assms(1) by (simp add: split_on_append split_on_no_sep plain_def)
  moreover have "''..'' \<notin> set ([] # ''buckets'' # bucket # split_on CHR ''/'' ?dir)"
    using assms(1) path_dir_segments(2) [OF assms(2)] by (auto simp: plain_def)
  moreover have "plain ''buckets''" by (simp add: plain_def)
  ultimately have "path_clean ((''/buckets/'' @ bucket) @ ''/'' @ ?dir)
      = ''/'' @ join ''/'' (''buckets'' # bucket # ?ks)"
    using assms(1) path_dir_segments(1) [OF assms(2)]
    by (simp add: path_clean_def clean_segments_up_free Let_def)
  also have "\<dots> = join ''/'' ((''/buckets/'' @ bucket) # ?ks)"
    by (cases ?ks) simp_all
  finally have "path_clean ((''/buckets/'' @ bucket) @ ''/'' @ ?dir) = join ''/'' ((''/buckets/'' @ bucket) # ?ks)" .
  then show ?thesis
    unfolding mount_point [OF assms(1)] by (simp add: path_join_def)
qed

text \<open>
  Object names with two-dot elements are not kept inside the mount point: an object
  can make the precreator create a folder anywhere from the root.
\<close>

theorem object_folders_escape_mount:
  assumes "plain bucket" and "plain folder" and "CHR ''/'' \<notin> set file"
  shows "path_join (path_join ''/buckets'' bucket) (path_dir (''../../'' @ folder @ ''/'' @ file)) = ''/'' @ folder"
proof -
  have "dropWhile (\<lambda>c. c \<noteq> CHR ''/'') (rev file @ CHR ''/'' # rev folder @ ''/../..'')
      = CHR ''/'' # rev folder @ ''/../..''"
    using assms(3) by (subst dropWhile_append2) auto
  then have "path_dir (''../../'' @ folder @ ''/'' @ file) = path_clean (''../../'' @ folder @ ''/'')"
    by (simp add: path_dir_def)
  also have "\<dots> = ''../../'' @ folder"
    using assms(2)
    by (simp add: path_clean_def clean_segments_def clean_step_def split_on_append split_on_no_sep plain_def
        Let_def hd_append)
  finally have dir: "path_dir (''../../'' @ folder @ ''/'' @ file) = ''../../'' @ folder" .
  show ?thesis
    using assms(1,2) unfolding dir mount_point [OF assms(1)]
    by (simp add: path_join_def path_clean_def clean_segments_def clean_step_def split_on_append
        split_on_no_sep plain_def Let_def hd_append)
qed

text \<open>
  C17: In every reachable state of the refresh endpoint at most one request is populating or
  about to unlock, the lock is held exactly while one is, and a request is turned away only
  in a state where another one is inside.
\<close>

theorem refresh_mutual_exclusion:
  assumes "refresh_step\<^sup>*\<^sup>* idle_server s"
  shows "(\<forall>r r'. inside s r \<longrightarrow> inside s r' \<longrightarrow> r = r') \<and>
    (sv_locked s \<longleftrightarrow> (\<exists>r. inside s r)) \<and>
    (\<forall>s' r. refresh_step s s' \<longrightarrow> sv_phase s r = Waiting \<longrightarrow> sv_phase s' r = Answered 429 \<longrightarrow>
       (\<exists>r'. r' \<noteq> r \<and> inside s r'))"
proof (intro conjI allI impI)
  have inv: "refresh_inv s" using assms by (rule refresh_inv_reachable)
  then show "sv_locked s \<longleftrightarrow> (\<exists>r. inside s r)" by (simp add: refresh_inv_def)
  from inv show "r = r'" if "inside s r" "inside s r'" for r r'
    using that by (simp add: refresh_inv_def)
  fix s' r
  assume "refresh_step s s'" and r: "sv_phase s r = Waiting" "sv_phase s' r = Answered 429"
  then have "sv_locked s"
    by (elim refresh_stepE) (auto split: if_splits)
  with inv obtain r' where "inside s r'" by (auto simp: refresh_inv_def)
  moreover from this r(1) have "r' \<noteq> r" by (auto simp: inside_def)
  ultimately show "\<exists>r'. r' \<noteq> r \<and> inside s r'" by blast
qed

section \<open>Witnesses\<close>

definition example_pc_world :: pc_world where
  "example_pc_world = \<lparr>pw_read_dir = (\<lambda>_ _. Inr [(''lost'', False), (''ssb-x-kilde'', True)]),
     pw_objects = (\<lambda>_ _. ([''a/b/file'', ''top''], IterDone)),
     pw_mkdir_all = (\<lambda>_ _. Some ''exists as a file''), pw_keys = (\<lambda>_ ks. ks)\<rparr>"

theorem all_bucket_folders_populated_witness:
  "\<exists>folders. snd (populate_all_bucket_folders example_pc_world ''/buckets'' []) =
      ReadDir ''/buckets'' # ListObjects ''ssb-x-kilde'' #
        map (\<lambda>f. MkdirAll (path_join (path_join ''/buckets'' ''ssb-x-kilde'') f)) folders \<and>
    set folders = {''a/b'', ''.''}"
proof -
  have dirs: "path_dir ''a/b/file'' = ''a/b''" "path_dir ''top'' = ''.''"
    by (simp_all add: path_dir_def path_clean_def clean_segments_def clean_step_def Let_def)
  let ?entries = "[(''lost'', False), (''ssb-x-kilde'', True)]"
  have world: "mset (pw_keys example_pc_world t ks) = mset ks" "pw_read_dir example_pc_world h b = Inr ?entries"
    "pw_objects example_pc_world h n = ([''a/b/file'', ''top''], IterDone)" for t ks h b n
    by (simp_all add: example_pc_world_def)
  obtain walk where walk: "snd (populate_all_bucket_folders example_pc_world ''/buckets'' []) =
      [] @ ReadDir ''/buckets'' # concat walk" "length walk = length ?entries"
    and calls: "\<forall>i < length ?entries.
       let before = [] @ ReadDir ''/buckets'' # concat (take i walk); (name, isDir) = ?entries ! i;
           (objects, end) = pw_objects example_pc_world before name
       in if \<not> isDir then walk ! i = []
          else if end = IterDone then
            \<exists>folders. distinct folders \<and> set folders = path_dir ` set objects \<and>
              walk ! i = ListObjects name # map (\<lambda>f. MkdirAll (path_join (path_join ''/buckets'' name) f)) folders
          else walk ! i = [ListObjects name]"
    using all_bucket_folders_populated [OF world(1,2)] by blast
  obtain c0 c1 where two: "walk = [c0, c1]"
    using walk(2) by (auto simp: length_Suc_conv)
  from calls [rule_format, of 0] have "c0 = []" by (simp add: two)
  moreover from calls [rule_format, of 1] obtain folders where "set folders = {''a/b'', ''.''}"
      "c1 = ListObjects ''ssb-x-kilde'' #
        map (\<lambda>f. MkdirAll (path_join (path_join ''/buckets'' ''ssb-x-kilde'') f)) folders"
    by (auto simp: two world dirs)
  ultimately show ?thesis using walk(1) by (intro exI [of _ folders]) (simp add: two)
qed

theorem object_folders_stay_in_mount_witness:
  "path_join (path_join ''/buckets'' ''ssb-x-kilde'') (path_dir ''/2024//a/file'') = ''/buckets/ssb-x-kilde/2024/a''"
  using object_folders_stay_in_mount [of "''ssb-x-kilde''" "''/2024//a/file''"]
  by (simp add: plain_def kept_segments_def)

theorem object_folders_escape_mount_witness:
  "path_join (path_join ''/buckets'' ''ssb-x-kilde'') (path_dir ''../../etc/x'') = ''/etc''"
  using object_folders_escape_mount [of "''ssb-x-kilde''" "''etc''" "''x''"] by (simp add: plain_def)

theorem refresh_mutual_exclusion_witness:
  "\<exists>s. refresh_step\<^sup>*\<^sup>* idle_server s \<and> inside s 1 \<and> sv_phase s 2 = Waiting \<and> sv_locked s \<and>
    (\<forall>r. inside s r \<longrightarrow> r = 1)"
proof -
  let ?s = "idle_server\<lparr>sv_locked := True, sv_phase := (sv_phase idle_server)(1 := Populating)\<rparr>"
  have "refresh_step idle_server ?s"
    by (rule refresh_step.locked) (simp_all add: idle_server_def)
  then have reach: "refresh_step\<^sup>*\<^sup>* idle_server ?s" by blast
  have "inside ?s 1" "sv_phase ?s 2 = Waiting" "sv_locked ?s"
    by (simp_all add: inside_def idle_server_def)
  with refresh_mutual_exclusion [OF reach] reach show ?thesis by blast
qed

end
