(* ===== verification/Refresh_Server.thy ===== *)
theory Refresh_Server
  imports Folder_Precreator
begin

text \<open>
  \<^verbatim>\<open>cmd/folder-precreator/main.go\<close>, the server around the precreator: what \<^verbatim>\<open>main\<close> does before
  it listens, the handler of \<^verbatim>\<open>/refresh-folders\<close> as one function, how it relates to the steps
  in which concurrent requests interleave, and that every request is answered.
\<close>

section \<open>The program\<close>

datatype start_result = ClientPanic string | Serving "string list" server

text \<open>
  The walk at the start may fail; that is logged and the server starts all the same. Only
  a storage client that cannot be created stops the program, by a panic.
\<close>

definition precreator_main :: "string option \<Rightarrow> pc_world \<Rightarrow> pc_history \<Rightarrow> start_result \<times> pc_history" where
  "precreator_main client_error w h0 =
     (case client_error of
        Some e \<Rightarrow> (ClientPanic e, h0)
      | None \<Rightarrow>
          (let (errs, h1) = populate_all_bucket_folders w ''/buckets'' h0
           in (Serving errs idle_server, h1)))"

record refresh_answer =
  ra_status :: nat
  ra_body :: string

text \<open>
  The handler, run on its own: \<open>locked\<close> is the mutex. The deferred \<^verbatim>\<open>Unlock\<close> runs on both
  returns after the lock was taken. The body of an error has one line for each error.
\<close>

definition refresh_folders ::
  "pc_world \<Rightarrow> bool \<Rightarrow> pc_history \<Rightarrow> refresh_answer \<times> bool \<times> pc_history" where
  "refresh_folders w locked h0 =
     (if locked then (\<lparr>ra_status = 429, ra_body = []\<rparr>, locked, h0)
      else
        (let (errs, h1) = populate_all_bucket_folders w ''/buckets'' h0
         in if errs \<noteq> [] then
              (\<lparr>ra_status = 500, ra_body = ''error populating folders: '' @ join [CHR 0x0A] errs\<rparr>, False, h1)
            else (\<lparr>ra_status = 200, ra_body = []\<rparr>, False, h1)))"

section \<open>How far a request has come\<close>

primrec rank :: "phase \<Rightarrow> nat" where
  "rank Waiting = 3"
| "rank Populating = 2"
| "rank (Unlocking code) = 1"
| "rank (Answered code) = 0"

lemma rank_0_iff: "rank p = 0 \<longleftrightarrow> (\<exists>code. p = Answered code)"
  by (cases p) auto

inductive_simps refresh_step_simps: "refresh_step s s'"

text \<open>A step moves one request forward and leaves the others where they are.\<close>

lemma refresh_step_moves:
  assumes "refresh_step s s'"
  obtains r where "rank (sv_phase s' r) < rank (sv_phase s r)"
    and "\<And>q. q \<noteq> r \<Longrightarrow> sv_phase s' q = sv_phase s q"
proof -
  from assms have "\<exists>r. rank (sv_phase s' r) < rank (sv_phase s r) \<and> (\<forall>q. q \<noteq> r \<longrightarrow> sv_phase s' q = sv_phase s q)"
  proof cases
    case (turned_away r)
    then show ?thesis by (intro exI [of _ r]) simp
  next
    case (locked r)
    then show ?thesis by (intro exI [of _ r]) simp
  next
    case (populated r errs)
    then show ?thesis by (intro exI [of _ r]) simp
  next
    case (unlocked r code)
    then show ?thesis by (intro exI [of _ r]) simp
  qed
  then show ?thesis using that by blast
qed

text \<open>
  Phases are ordered by how far they are; an answer is followed by nothing. The phases of all
  requests are then ordered pointwise, by the library's order of functions.
\<close>

instantiation phase :: order
begin

definition less_eq_phase :: "phase \<Rightarrow> phase \<Rightarrow> bool" where
  "less_eq_phase p q \<longleftrightarrow> p = q \<or> rank q < rank p"

definition less_phase :: "phase \<Rightarrow> phase \<Rightarrow> bool" where
  "less_phase p q \<longleftrightarrow> rank q < rank p"

instance
  by (intro_classes) (auto simp: less_eq_phase_def less_phase_def)

end

lemma answered_is_last [simp]: "Answered code \<le> p \<longleftrightarrow> p = Answered code"
  by (auto simp: less_eq_phase_def)

lemma rank_mono: "p \<le> q \<Longrightarrow> rank q \<le> rank p"
  by (auto simp: less_eq_phase_def)

lemma refresh_step_progress: "refresh_step s s' \<Longrightarrow> sv_phase s \<le> sv_phase s'"
proof (rule le_funI)
  fix q
  assume "refresh_step s s'"
  then obtain r where "rank (sv_phase s' r) < rank (sv_phase s r)" "q \<noteq> r \<Longrightarrow> sv_phase s' q = sv_phase s q"
    by (rule refresh_step_moves) blast
  then show "sv_phase s q \<le> sv_phase s' q"
    by (cases "q = r") (auto simp: less_eq_phase_def)
qed

lemma refresh_run_progress:
  assumes "refresh_step\<^sup>*\<^sup>* s s'"
  shows "sv_phase s \<le> sv_phase s'"
  using assms
proof induction
  case base
  show ?case by (rule order_refl)
next
  case (step t s')
  from step.IH refresh_step_progress [OF step.hyps(2)] show ?case by (rule order_trans)
qed

text \<open>The status a request was given is never replaced by another.\<close>

lemma answers_are_final:
  assumes "refresh_step\<^sup>*\<^sup>* s s'" and "sv_phase s r = Answered code"
  shows "sv_phase s' r = Answered code"
  using le_funD [OF refresh_run_progress [OF assms(1)], of r] assms(2) by simp

text \<open>The statuses a request can get.\<close>

definition codes_ok :: "server \<Rightarrow> bool" where
  "codes_ok s \<longleftrightarrow>
     (\<forall>r code. (sv_phase s r = Unlocking code \<longrightarrow> code \<in> {200, 500}) \<and>
        (sv_phase s r = Answered code \<longrightarrow> code \<in> {200, 429, 500}))"

lemma codes_ok_step: "refresh_step s s' \<Longrightarrow> codes_ok s \<Longrightarrow> codes_ok s'"
  by (cases rule: refresh_stepE) (fastforce simp: codes_ok_def status_of_def)+

lemma codes_ok_reachable:
  assumes "refresh_step\<^sup>*\<^sup>* idle_server s"
  shows "codes_ok s"
  using assms
proof induction
  case base
  show ?case by (simp add: codes_ok_def idle_server_def)
next
  case (step s s')
  from step.hyps(2) step.IH show ?case by (rule codes_ok_step)
qed

text \<open>Each phase has its step.\<close>

lemma step_from_unlocking:
  "sv_phase s r = Unlocking code \<Longrightarrow>
     refresh_step s (s\<lparr>sv_locked := False, sv_phase := (sv_phase s)(r := Answered code)\<rparr>)"
  by (rule refresh_step.unlocked)

lemma run_from_populating:
  assumes "sv_phase s r = Populating"
  shows "(refresh_step ^^ 2) s
    (s\<lparr>sv_locked := False, sv_phase := (sv_phase s)(r := Answered (status_of errs))\<rparr>)"
proof -
  let ?t = "s\<lparr>sv_phase := (sv_phase s)(r := Unlocking (status_of errs))\<rparr>"
  have "refresh_step s ?t" using assms by (rule refresh_step.populated)
  moreover have "refresh_step ?t (?t\<lparr>sv_locked := False, sv_phase := (sv_phase ?t)(r := Answered (status_of errs))\<rparr>)"
    by (rule step_from_unlocking) simp
  ultimately show ?thesis by (auto simp: numeral_2_eq_2)
qed

lemma run_from_waiting:
  assumes "sv_phase s r = Waiting" and "\<not> sv_locked s"
  shows "(refresh_step ^^ 3) s
    (s\<lparr>sv_phase := (sv_phase s)(r := Answered (status_of errs))\<rparr>)"
proof -
  let ?t = "s\<lparr>sv_locked := True, sv_phase := (sv_phase s)(r := Populating)\<rparr>"
  have first: "refresh_step s ?t" using assms by (rule refresh_step.locked)
  have "(refresh_step ^^ 2) ?t (?t\<lparr>sv_locked := False, sv_phase := (sv_phase ?t)(r := Answered (status_of errs))\<rparr>)"
    by (rule run_from_populating) simp
  then have "(refresh_step ^^ Suc 2) s
      (?t\<lparr>sv_locked := False, sv_phase := (sv_phase ?t)(r := Answered (status_of errs))\<rparr>)"
    using first by (blast intro: relpowp_Suc_I2)
  moreover have "?t\<lparr>sv_locked := False, sv_phase := (sv_phase ?t)(r := Answered (status_of errs))\<rparr>
      = s\<lparr>sv_phase := (sv_phase s)(r := Answered (status_of errs))\<rparr>"
    using assms(2) by simp
  ultimately show ?thesis by (simp only: numeral_3_eq_3 numeral_2_eq_2)
qed

lemma run_to_answer:
  assumes "sv_phase s r = Waiting \<Longrightarrow> \<not> sv_locked s"
  shows "\<exists>n\<le>3. \<exists>s' code. (refresh_step ^^ n) s s' \<and> sv_phase s' r = Answered code \<and>
    (\<forall>q. q \<noteq> r \<longrightarrow> sv_phase s' q = sv_phase s q)"
proof (cases "sv_phase s r")
  case Waiting
  with run_from_waiting [of s r "[]"] assms show ?thesis
    by (intro exI [of _ 3] conjI exI) auto
next
  case Populating
  with run_from_populating [of s r "[]"] show ?thesis
    by (intro exI [of _ 2] conjI exI) auto
next
  case (Unlocking code)
  have "(refresh_step ^^ 1) s (s\<lparr>sv_locked := False, sv_phase := (sv_phase s)(r := Answered code)\<rparr>)"
    using step_from_unlocking [OF Unlocking] by (simp only: relpowp_1)
  then show ?thesis
    by (intro exI [of _ 1] conjI exI) auto
next
  case (Answered code)
  then have "(refresh_step ^^ 0) s s \<and> sv_phase s r = Answered code \<and> (\<forall>q. q \<noteq> r \<longrightarrow> sv_phase s q = sv_phase s q)"
    by simp
  then show ?thesis by blast
qed

section \<open>Properties\<close>

text \<open>
  C34: No request is ever stuck: from every reachable state each request can be answered
  within three steps that leave the other requests where they are, with one of the three
  statuses of the handler. (Populating is one step here: the calls it makes are taken to
  return.)
\<close>

theorem every_refresh_is_answered:
  assumes "refresh_step\<^sup>*\<^sup>* idle_server s"
  shows "\<exists>n\<le>3. \<exists>s' code. (refresh_step ^^ n) s s' \<and> sv_phase s' r = Answered code \<and>
    code \<in> {200, 429, 500} \<and> (\<forall>q. q \<noteq> r \<longrightarrow> sv_phase s' q = sv_phase s q)"
proof -
  have "\<exists>n\<le>3. \<exists>s' code. (refresh_step ^^ n) s s' \<and> sv_phase s' r = Answered code \<and>
      (\<forall>q. q \<noteq> r \<longrightarrow> sv_phase s' q = sv_phase s q)"
  proof (cases "sv_phase s r = Waiting \<and> sv_locked s")
    case True
    then have "refresh_step s (s\<lparr>sv_phase := (sv_phase s)(r := Answered 429)\<rparr>)"
      by (auto intro: refresh_step.turned_away)
    then have "(refresh_step ^^ 1) s (s\<lparr>sv_phase := (sv_phase s)(r := Answered 429)\<rparr>)" by (simp only: relpowp_1)
    then show ?thesis by (intro exI [of _ 1] conjI exI) auto
  next
    case False
    then show ?thesis by (intro run_to_answer) auto
  qed
  then obtain n s' code where run: "n \<le> 3" "(refresh_step ^^ n) s s'" "sv_phase s' r = Answered code"
      "\<forall>q. q \<noteq> r \<longrightarrow> sv_phase s' q = sv_phase s q"
    by blast
  have "refresh_step\<^sup>*\<^sup>* idle_server s'"
    using assms relpowp_imp_rtranclp [OF run(2)] by (rule rtranclp_trans)
  from codes_ok_reachable [OF this] run(3) have "code \<in> {200, 429, 500}"
    by (simp add: codes_ok_def)
  with run show ?thesis by blast
qed

text \<open>
  C35: The handler as a function is one path through the steps: from a state where request
  \<open>r\<close> waits, its steps lead to the state with the status and the lock that the handler
  leaves, and the other requests untouched.
\<close>

theorem refresh_handler_is_a_run:
  assumes "sv_phase s r = Waiting" and "refresh_folders w (sv_locked s) h = (answer, locked, h')"
  shows "refresh_step\<^sup>*\<^sup>* s
      (s\<lparr>sv_locked := locked, sv_phase := (sv_phase s)(r := Answered (ra_status answer))\<rparr>) \<and>
    (ra_status answer = 429 \<longleftrightarrow> sv_locked s) \<and> (sv_locked s \<longrightarrow> h' = h) \<and>
    (ra_status answer = 200 \<longleftrightarrow>
       \<not> sv_locked s \<and> populate_all_bucket_folders w ''/buckets'' h = ([], h'))"
proof (cases "sv_locked s")
  case True
  with assms(2) have out: "answer = \<lparr>ra_status = 429, ra_body = []\<rparr>" "locked" "h' = h"
    by (simp_all add: refresh_folders_def)
  from assms(1) True have "refresh_step s (s\<lparr>sv_phase := (sv_phase s)(r := Answered 429)\<rparr>)"
    by (rule refresh_step.turned_away)
  moreover have "s\<lparr>sv_phase := (sv_phase s)(r := Answered 429)\<rparr>
      = s\<lparr>sv_locked := locked, sv_phase := (sv_phase s)(r := Answered 429)\<rparr>"
    using True out(2) by (cases s) simp
  ultimately have "refresh_step\<^sup>*\<^sup>* s (s\<lparr>sv_locked := locked, sv_phase := (sv_phase s)(r := Answered 429)\<rparr>)"
    by (metis r_into_rtranclp)
  with True out show ?thesis by simp
next
  case False
  obtain errs h1 where all: "populate_all_bucket_folders w ''/buckets'' h = (errs, h1)" by fastforce
  with False assms(2) have out: "ra_status answer = status_of errs" "\<not> locked" "h' = h1"
    by (auto simp: refresh_folders_def status_of_def split: if_splits)
  have "refresh_step\<^sup>*\<^sup>* s (s\<lparr>sv_phase := (sv_phase s)(r := Answered (status_of errs))\<rparr>)"
    using run_from_waiting [OF assms(1) False] by (rule relpowp_imp_rtranclp)
  moreover have "s\<lparr>sv_phase := (sv_phase s)(r := Answered (status_of errs))\<rparr>
      = s\<lparr>sv_locked := locked, sv_phase := (sv_phase s)(r := Answered (status_of errs))\<rparr>"
    using False out(2) by (cases s) simp
  ultimately have "refresh_step\<^sup>*\<^sup>* s
      (s\<lparr>sv_locked := locked, sv_phase := (sv_phase s)(r := Answered (ra_status answer))\<rparr>)"
    using out(1) by simp
  moreover have "ra_status answer = 200 \<longleftrightarrow> errs = []" "ra_status answer \<noteq> 429"
    using out(1) by (simp_all add: status_of_def)
  ultimately show ?thesis using False out(3) all by auto
qed

section \<open>Witnesses\<close>

theorem every_refresh_is_answered_witness:
  "\<exists>n\<le>3. \<exists>s' code. (refresh_step ^^ n) idle_server s' \<and> sv_phase s' 7 = Answered code \<and>
    code \<in> {200, 429, 500} \<and> (\<forall>q. q \<noteq> 7 \<longrightarrow> sv_phase s' q = sv_phase idle_server q)"
  by (rule every_refresh_is_answered) simp

theorem refresh_handler_is_a_run_witness:
  "\<exists>answer h'. refresh_folders example_pc_world False [] = (answer, False, h') \<and>
    ra_status answer = 500 \<and>
    refresh_step\<^sup>*\<^sup>* idle_server
      (idle_server\<lparr>sv_locked := False, sv_phase := (sv_phase idle_server)(7 := Answered 500)\<rparr>)"
proof -
  let ?w = example_pc_world
  have world: "pw_read_dir ?w h b = Inr [(''lost'', False), (''ssb-x-kilde'', True)]"
    "pw_objects ?w h b = ([''a/b/file'', ''top''], IterDone)" "pw_keys ?w h ks = ks" for h b ks
    by (simp_all add: example_pc_world_def)
  have fails: "fst (create_folders ?w p fs h) \<noteq> []" if "fs \<noteq> []" for p fs h
    using that by (cases fs) (simp_all add: example_pc_world_def Let_def split: prod.split)
  have "fst (populate_bucket_folders ?w bm h) \<noteq> []" for bm h
    by (simp add: populate_bucket_folders_def list_bucket_folders_def world fails List.insert_def Let_def)
  then have "fst (populate_all_bucket_folders ?w ''/buckets'' []) \<noteq> []"
    by (simp add: populate_all_bucket_folders_def world Let_def split: prod.split)
  then obtain errs h' where "populate_all_bucket_folders example_pc_world ''/buckets'' [] = (errs, h')" "errs \<noteq> []"
    by (metis prod.collapse)
  then obtain answer where run: "refresh_folders example_pc_world False [] = (answer, False, h')"
    and status: "ra_status answer = 500"
    by (simp add: refresh_folders_def)
  have "sv_phase idle_server 7 = Waiting" "sv_locked idle_server = False"
    by (simp_all add: idle_server_def)
  from refresh_handler_is_a_run [OF this(1), unfolded this(2), OF run] run status show ?thesis by auto
qed

end
