(* ===== verification/Pod_Validity.thy ===== *)
theory Pod_Validity
  imports Statefulset_Webhook
begin

text \<open>
  What the API server demands of the pod the mutating webhook sends back: its volumes have
  different names, its containers have different names, and every mount is of a volume the
  pod has. Mounting and unmounting buckets keep a pod of this kind.
\<close>

definition pod_valid :: "pod_spec \<Rightarrow> bool" where
  "pod_valid p \<longleftrightarrow>
     distinct (map v_name (ps_volumes p)) \<and> distinct (map c_name (ps_containers p)) \<and>
     (\<forall>c \<in> set (ps_containers p). vm_name ` set (c_mounts c) \<subseteq> v_name ` set (ps_volumes p))"

text \<open>The volumes and the containers can be judged apart.\<close>

definition mounts_within :: "string set \<Rightarrow> container \<Rightarrow> bool" where
  "mounts_within names c \<longleftrightarrow> vm_name ` set (c_mounts c) \<subseteq> names"

lemma mounts_within_mono: "mounts_within N c \<Longrightarrow> N \<subseteq> N' \<Longrightarrow> mounts_within N' c"
  by (auto simp: mounts_within_def)

lemma mounts_within_append:
  "mounts_within N (c\<lparr>c_mounts := ms @ ns\<rparr>) \<longleftrightarrow> vm_name ` set ms \<subseteq> N \<and> vm_name ` set ns \<subseteq> N"
  by (simp add: mounts_within_def image_Un)

lemma pod_valid_iff:
  "pod_valid p \<longleftrightarrow>
     distinct (map v_name (ps_volumes p)) \<and> distinct (map c_name (ps_containers p)) \<and>
     (\<forall>c \<in> set (ps_containers p). mounts_within (v_name ` set (ps_volumes p)) c)"
  by (simp add: pod_valid_def mounts_within_def)

section \<open>Writing containers\<close>

lemma update_container_names:
  assumes "i < length cs" and "c_name c = c_name (cs ! i)"
  shows "map c_name (cs[i := c]) = map c_name cs"
  using assms by (simp add: map_update list_update_same_conv)

lemma update_container_all:
  assumes "\<forall>c \<in> set cs. P c" and "P c'"
  shows "\<forall>c \<in> set (cs[i := c']). P c"
  using assms set_update_subset_insert [of cs i c'] by auto

lemma valid_update:
  assumes "pod_valid p" and "i < length (ps_containers p)"
    and "mounts_within (v_name ` set (ps_volumes p)) c" and "c_name c = c_name (ps_containers p ! i)"
  shows "pod_valid (p\<lparr>ps_containers := (ps_containers p)[i := c]\<rparr>)"
proof -
  note valid = assms(1) [unfolded pod_valid_iff]
  have "\<forall>c \<in> set ((ps_containers p)[i := c]). mounts_within (v_name ` set (ps_volumes p)) c"
    by (rule update_container_all) (use valid assms(3) in blast)+
  moreover have "distinct (map c_name ((ps_containers p)[i := c]))"
    using valid by (simp only: update_container_names [OF assms(2,4)])
  ultimately show ?thesis using valid by (simp add: pod_valid_iff)
qed

lemma valid_more_volumes:
  assumes "pod_valid p" and "distinct (map v_name (ps_volumes p @ vs))"
  shows "pod_valid (p\<lparr>ps_volumes := ps_volumes p @ vs\<rparr>)"
proof -
  have "v_name ` set (ps_volumes p) \<subseteq> v_name ` set (ps_volumes p @ vs)" by auto
  with assms mounts_within_mono show ?thesis unfolding pod_valid_iff by fastforce
qed

lemma distinct_names_delete: "distinct (map f xs) \<Longrightarrow> distinct (map f (delete_func P xs))"
  by (simp add: delete_func_def distinct_map_filter)

section \<open>Volumes\<close>

lemma new_volume_names:
  "map v_name (new_volumes vs kvs) = map max_length_volume_name
     (map fst (filter (\<lambda>(mp, b). \<not> contains_func (volume_name_is (max_length_volume_name mp)) vs) kvs))"
  by (simp add: new_volumes_def comp_def split_beta)

lemma new_volumes_distinct:
  assumes "distinct (map v_name vs)" and "map_ok kvs" and "inj_on max_length_volume_name (fst ` set kvs)"
  shows "distinct (map v_name (vs @ new_volumes vs kvs))"
proof -
  let ?P = "\<lambda>(mp, b). \<not> contains_func (volume_name_is (max_length_volume_name mp)) vs"
  have keys: "distinct (map fst (filter ?P kvs))"
    using assms(2) by (simp add: map_ok_def distinct_map_filter)
  have "inj_on max_length_volume_name (set (map fst (filter ?P kvs)))"
    by (rule inj_on_subset [OF assms(3)]) auto
  with keys have "distinct (map v_name (new_volumes vs kvs))"
    unfolding new_volume_names distinct_map [of max_length_volume_name] by blast
  moreover have "v_name ` set (new_volumes vs kvs) \<inter> v_name ` set vs = {}"
    by (auto simp: new_volumes_def volume_name_is_def disjoint_iff)
  ultimately show ?thesis using assms(1) by (simp add: Int_commute)
qed

lemma new_mounts_have_volumes:
  "vm_name ` set (new_mounts ms kvs) \<subseteq> v_name ` set (vs @ new_volumes vs kvs)"
proof
  fix n
  assume "n \<in> vm_name ` set (new_mounts ms kvs)"
  then obtain mp b where q: "(mp, b) \<in> set kvs" "n = max_length_volume_name mp"
    by (auto simp: new_mounts_def)
  then have "new_volumes (vs @ new_volumes vs kvs) [(mp, b)] = []"
    by (intro new_after_add) auto
  then have "\<exists>v \<in> set (vs @ new_volumes vs kvs). v_name v = n"
    by (simp only: q(2) new_volumes_def [of "vs @ _"]) (auto simp: volume_name_is_def split: if_splits)
  then show "n \<in> v_name ` set (vs @ new_volumes vs kvs)" by blast
qed

lemma plain_mounts_kept:
  assumes "mounts_within (v_name ` set vs) c" and "\<forall>vm \<in> set (c_mounts c). \<not> is_bucket_mount vm"
  shows "mounts_within (v_name ` set (delete_func is_bucket_volume vs)) c"
  unfolding mounts_within_def
proof
  fix n
  assume "n \<in> vm_name ` set (c_mounts c)"
  then obtain vm where vm: "vm \<in> set (c_mounts c)" "n = vm_name vm" by blast
  with assms(1) obtain v where v: "v \<in> set vs" "v_name v = n" by (auto simp: mounts_within_def)
  with vm assms(2) have "\<not> is_bucket_volume v" by (simp add: is_bucket_volume_def is_bucket_mount_def)
  with v show "n \<in> v_name ` set (delete_func is_bucket_volume vs)" by (intro image_eqI [of _ _ v]) auto
qed

lemma mounts_within_fewer:
  "mounts_within N c \<Longrightarrow> mounts_within N (c\<lparr>c_mounts := delete_func P (c_mounts c)\<rparr>)"
  by (auto simp: mounts_within_def)

section \<open>The precreator\<close>

lemma precreator_valid:
  assumes "pod_valid p" and "range_ok ord1" and "range_ok ord2" and "map_ok bm"
    and "max_length_volume_name ` fst ` set bm \<subseteq> v_name ` set (ps_volumes p)"
  shows "pod_valid (snd (add_or_update_precreator ord1 ord2 p bm img))"
proof -
  let ?pre = "\<lparr>c_name = precreatorContainerName, c_image = img, c_env = [],
            c_mounts = precreator_mounts ord1 ord2 bm, c_other = []\<rparr>"
  have pre: "mounts_within (v_name ` set (ps_volumes p)) ?pre"
    using precreator_mount_names(3) [OF assms(2-4)] assms(5) by (simp add: mounts_within_def)
  note valid = assms(1) [unfolded pod_valid_iff]
  show ?thesis
  proof (cases "index_func is_precreator (ps_containers p)")
    case None
    then have "precreatorContainerName \<notin> c_name ` set (ps_containers p)"
      by (auto simp: is_precreator_def)
    moreover have "snd (add_or_update_precreator ord1 ord2 p bm img)
        = p\<lparr>ps_containers := ps_containers p @ [?pre]\<rparr>"
      using None by (simp add: add_or_update_precreator_def del: index_func_None_iff)
    ultimately show ?thesis using valid pre by (auto simp: pod_valid_iff)
  next
    case (Some i)
    note found = index_func_SomeD [OF Some]
    have "snd (add_or_update_precreator ord1 ord2 p bm img) = p \<or>
        snd (add_or_update_precreator ord1 ord2 p bm img) = p\<lparr>ps_containers := (ps_containers p)[i := ?pre]\<rparr>"
      using Some by (auto simp: add_or_update_precreator_def Let_def)
    moreover have "pod_valid (p\<lparr>ps_containers := (ps_containers p)[i := ?pre]\<rparr>)"
      using assms(1) found(1) pre by (rule valid_update) (use found(2) in \<open>simp add: is_precreator_def\<close>)
    ultimately show ?thesis using assms(1) by auto
  qed
qed

lemma remove_precreator_valid: "pod_valid p \<Longrightarrow> pod_valid (snd (remove_precreator p))"
  by (simp add: pod_valid_iff remove_precreator_def distinct_names_delete)

section \<open>Property\<close>

text \<open>
  C27: The webhook keeps pods valid. Mounting buckets whose volume names differ gives, from
  a pod whose volumes and containers have different names and whose mounts all have a
  volume, a pod of the same kind, with or without the precreator; so does unmounting, as
  long as no container but the service container and the precreator mounts a bucket.
\<close>

theorem pods_stay_valid:
  assumes "pod_valid (sfs_pod s)" and "i < length (ps_containers (sfs_pod s))"
    and "\<And>k. range_ok (ord k)" and "map_ok bm" and "inj_on max_length_volume_name (fst ` set bm)"
    and "\<And>j vm. j < length (ps_containers (sfs_pod s)) \<Longrightarrow> j \<noteq> i \<Longrightarrow>
      \<not> is_precreator (ps_containers (sfs_pod s) ! j) \<Longrightarrow>
      vm \<in> set (c_mounts (ps_containers (sfs_pod s) ! j)) \<Longrightarrow> \<not> is_bucket_mount vm"
  shows "pod_valid (sfs_pod (mount_buckets m ord bm i s)) \<and> pod_valid (sfs_pod (unmount_buckets i s))"
proof
  let ?p = "sfs_pod s" and ?c = "ps_containers (sfs_pod s) ! i" and ?kvs = "range_over (ord 1) bm"
  note valid = assms(1) [unfolded pod_valid_iff]
  let ?vs = "ps_volumes ?p @ new_volumes (ps_volumes ?p) ?kvs"
  let ?c' = "?c\<lparr>c_mounts := c_mounts ?c @ new_mounts (c_mounts ?c) ?kvs\<rparr>"
  let ?q = "modify_container i (\<lambda>_. ?c') (?p\<lparr>ps_volumes := ?vs\<rparr>)"
  have kvs: "set ?kvs = set bm" "map_ok ?kvs" using assms(3,4) by auto
  have names: "v_name ` set (ps_volumes ?p) \<subseteq> v_name ` set ?vs" by auto
  have "mounts_within (v_name ` set ?vs) ?c'"
  proof -
    have "mounts_within (v_name ` set ?vs) ?c"
      using valid assms(2) by (intro mounts_within_mono [OF _ names]) simp
    with new_mounts_have_volumes [of "c_mounts ?c" ?kvs "ps_volumes ?p"] show ?thesis
      unfolding mounts_within_append by (simp only: mounts_within_def simp_thms)
  qed
  moreover have "pod_valid (?p\<lparr>ps_volumes := ?vs\<rparr>)"
    using valid kvs assms(5) by (intro valid_more_volumes [OF assms(1)] new_volumes_distinct) auto
  ultimately have q: "pod_valid ?q"
    using valid_update [of "?p\<lparr>ps_volumes := ?vs\<rparr>" i ?c'] assms(2) by (simp add: modify_container_def)
  have covers: "max_length_volume_name ` fst ` set bm \<subseteq> v_name ` set (ps_volumes ?q)"
    using new_mounts_have_volumes [of "[]" ?kvs "ps_volumes ?p"] kvs(1)
    by (auto simp: new_mounts_def image_image split_beta)
  have "sfs_pod (mount_buckets m ord bm i s) =
      (case mu_precreator_image m of
         Some img \<Rightarrow> snd (add_or_update_precreator (ord 2) (ord 3) ?q bm img)
       | None \<Rightarrow> snd (remove_precreator ?q))"
    by (simp add: mount_buckets_def add_buckets_eq Let_def del: One_nat_def)
  then show "pod_valid (sfs_pod (mount_buckets m ord bm i s))"
    using precreator_valid [OF q assms(3,3,4) covers] remove_precreator_valid [OF q]
    by (auto split: option.split)
next
  let ?p = "sfs_pod s" and ?c = "ps_containers (sfs_pod s) ! i"
  note valid = assms(1) [unfolded pod_valid_iff]
  let ?vs = "delete_func is_bucket_volume (ps_volumes ?p)"
  let ?c' = "?c\<lparr>c_mounts := delete_func is_bucket_mount (c_mounts ?c)\<rparr>"
  let ?q = "modify_container i (\<lambda>_. ?c') (?p\<lparr>ps_volumes := ?vs\<rparr>)"
  have pod: "sfs_pod (unmount_buckets i s) = snd (remove_precreator ?q)"
    by (simp add: unmount_buckets_def remove_buckets_fields)
  have "mounts_within (v_name ` set (ps_volumes ?p)) ?c'"
    using valid assms(2) nth_mem mounts_within_fewer by blast
  then have c': "mounts_within (v_name ` set ?vs) ?c'" by (rule plain_mounts_kept) simp
  have "mounts_within (v_name ` set ?vs) c"
    if c: "c \<in> set (ps_containers ?q)" "\<not> is_precreator c" for c
  proof -
    obtain j where j: "j < length (ps_containers ?p)" "c = ps_containers ?q ! j"
      using c(1) by (auto simp: in_set_conv_nth)
    show ?thesis
    proof (cases "j = i")
      case True
      with j c' show ?thesis by (simp add: modify_container_def)
    next
      case False
      with j assms(2) have "c = ps_containers ?p ! j" by (simp add: modify_container_def)
      with assms(6) [OF j(1) False] c(2) valid j(1) show ?thesis by (intro plain_mounts_kept) auto
    qed
  qed
  moreover have "distinct (map v_name ?vs)" "distinct (map c_name (ps_containers ?q))"
    using valid assms(2) by (simp_all add: distinct_names_delete modify_container_def update_container_names)
  ultimately show "pod_valid (sfs_pod (unmount_buckets i s))"
    unfolding pod by (simp add: pod_valid_iff remove_precreator_def distinct_names_delete)
qed

section \<open>Witness\<close>

theorem pods_stay_valid_witness:
  "pod_valid (sfs_pod (mount_buckets example_mutator (\<lambda>_ ks. ks) [(''kilde'', ''ssb-x-kilde'')] 0
     (example_sfs ''dapla-developers'')))"
  by (rule conjunct1 [OF pods_stay_valid])
    (auto simp: pod_valid_def example_pod_def example_container_def map_ok_def)

end
