(* ===== verification/Reinvocation.thy ===== *)
theory Reinvocation
  imports Pod_Validity
begin

text \<open>
  Kubernetes may call a mutating webhook again on the object it sent back. What the webhook
  does to the pod of a StatefulSet, apart from the probe, is then done already.
\<close>

section \<open>The webhook's work on the pod\<close>

definition set_env :: "sfs_mutator \<Rightarrow> string \<Rightarrow> project option \<Rightarrow> container \<Rightarrow> container" where
  "set_env m grp prj c = set_project_env m prj (set_adc_env m grp c)"

definition mounted ::
  "sfs_mutator \<Rightarrow> (nat \<Rightarrow> string list \<Rightarrow> string list) \<Rightarrow> entries \<Rightarrow> nat \<Rightarrow> pod_spec \<Rightarrow> pod_spec" where
  "mounted m ord bm i p =
     (let c = ps_containers p ! i; kvs = range_over (ord 1) bm;
          q = modify_container i (\<lambda>_. c\<lparr>c_mounts := c_mounts c @ new_mounts (c_mounts c) kvs\<rparr>)
                (p\<lparr>ps_volumes := ps_volumes p @ new_volumes (ps_volumes p) kvs\<rparr>)
      in case mu_precreator_image m of
           Some img \<Rightarrow> snd (add_or_update_precreator (ord 2) (ord 3) q bm img)
         | None \<Rightarrow> snd (remove_precreator q))"

lemma mount_buckets_mounted: "mount_buckets m ord bm i s = set_sfs_pod (mounted m ord bm i (sfs_pod s)) s"
  unfolding mount_buckets_def add_buckets_eq mounted_def Let_def prod.case ..

section \<open>Environment\<close>

lemma set_env_mounts:
  "set_env m grp prj (c\<lparr>c_mounts := ms\<rparr>) = (set_env m grp prj c)\<lparr>c_mounts := ms\<rparr>"
proof -
  have adc: "set_adc_env m grp (c\<lparr>c_mounts := ms\<rparr>) = (set_adc_env m grp c)\<lparr>c_mounts := ms\<rparr>"
    by (cases c) (simp add: set_adc_env_def)
  have prj: "set_project_env m prj (c\<lparr>c_mounts := ms\<rparr>) = (set_project_env m prj c)\<lparr>c_mounts := ms\<rparr>" for c
    by (cases c) (simp add: set_project_env_def Let_def del: index_func_None_iff split: option.split)
  show ?thesis unfolding set_env_def adc prj ..
qed

lemma set_env_keeps_mounts [simp]: "c_mounts (set_env m grp prj c) = c_mounts c"
  "c_name (set_env m grp prj c) = c_name c"
  by (simp_all add: set_env_def)

lemma set_project_env_idem: "set_project_env m prj (set_project_env m prj c) = set_project_env m prj c"
proof (cases "index_func (\<lambda>e. ev_name e = mu_project_env m) (c_env c)")
  case None
  then show ?thesis
    by (auto simp: set_project_env_def index_func_append Let_def simp del: index_func_None_iff)
next
  case (Some k)
  note found = index_func_SomeD [OF Some]
  let ?e = "(c_env c ! k)\<lparr>ev_value := case prj of None \<Rightarrow> ''-1'' | Some p \<Rightarrow> prj_id p\<rparr>"
  have "index_func (\<lambda>e. ev_name e = mu_project_env m) ((c_env c)[k := ?e]) = Some k"
    using Some by (rule index_func_update) (use found(2) in simp)
  with Some found(1) show ?thesis by (simp add: set_project_env_def Let_def)
qed

lemma adc_env_present:
  "mu_adc_env m \<noteq> [] \<Longrightarrow> \<exists>e \<in> set (c_env (set_env m grp prj c)). ev_name e = mu_adc_env m"
proof -
  assume "mu_adc_env m \<noteq> []"
  then have "\<exists>e \<in> set (c_env (set_adc_env m grp c)). ev_name e = mu_adc_env m"
    by (cases "\<exists>e \<in> set (c_env c). ev_name e = mu_adc_env m") (auto simp: set_adc_env_def)
  then obtain e where e: "e \<in> set (c_env (set_adc_env m grp c))" "ev_name e = mu_adc_env m" by blast
  have names: "ev_name ` set (c_env c) \<subseteq> ev_name ` set (c_env (set_project_env m prj c))" for c
  proof (cases "index_func (\<lambda>e. ev_name e = mu_project_env m) (c_env c)")
    case (Some k)
    let ?e = "(c_env c ! k)\<lparr>ev_value := case prj of None \<Rightarrow> ''-1'' | Some p \<Rightarrow> prj_id p\<rparr>"
    have "map ev_name ((c_env c)[k := ?e]) = map ev_name (c_env c)"
      using index_func_SomeD(1) [OF Some] by (simp add: map_update list_update_same_conv)
    then have "ev_name ` set ((c_env c)[k := ?e]) = ev_name ` set (c_env c)"
      by (metis list.set_map)
    with Some show ?thesis by (simp add: set_project_env_def Let_def)
  next
    case None
    then show ?thesis by (auto simp: set_project_env_def Let_def simp del: index_func_None_iff)
  qed
  from e names [of "set_adc_env m grp c"] show ?thesis
    by (auto simp: set_env_def image_subset_iff) (metis imageE)
qed

lemma set_env_idem: "set_env m grp prj (set_env m grp prj c) = set_env m grp prj c"
proof -
  have "set_adc_env m grp (set_env m grp prj c) = set_env m grp prj c"
    using adc_env_present [of m grp prj c] by (auto simp: set_adc_env_def)
  then show ?thesis by (simp add: set_env_def [of m grp prj "set_env m grp prj c"])
      (simp add: set_env_def set_project_env_idem)
qed

section \<open>Containers and volumes\<close>

text \<open>The pod after the work, and its service container.\<close>

lemma mounted_service_container:
  assumes "i < length (ps_containers p)" and "\<not> is_precreator (ps_containers p ! i)"
    and "mu_precreator_image m = None \<longrightarrow> (\<forall>c \<in> set (ps_containers p). \<not> is_precreator c)"
  shows "ps_containers (mounted m ord bm i p) ! i =
      (ps_containers p ! i)\<lparr>c_mounts := c_mounts (ps_containers p ! i) @
         new_mounts (c_mounts (ps_containers p ! i)) (range_over (ord 1) bm)\<rparr>"
    and "i < length (ps_containers (mounted m ord bm i p))"
    and "ps_volumes (mounted m ord bm i p) = ps_volumes p @ new_volumes (ps_volumes p) (range_over (ord 1) bm)"
proof -
  let ?kvs = "range_over (ord 1) bm" and ?c = "ps_containers p ! i"
  let ?c' = "?c\<lparr>c_mounts := c_mounts ?c @ new_mounts (c_mounts ?c) ?kvs\<rparr>"
  let ?q = "modify_container i (\<lambda>_. ?c') (p\<lparr>ps_volumes := ps_volumes p @ new_volumes (ps_volumes p) ?kvs\<rparr>)"
  have q: "ps_containers ?q = (ps_containers p)[i := ?c']" by (simp add: modify_container_def)
  have run: "mounted m ord bm i p = (case mu_precreator_image m of
      Some img \<Rightarrow> snd (add_or_update_precreator (ord 2) (ord 3) ?q bm img) | None \<Rightarrow> snd (remove_precreator ?q))"
    unfolding mounted_def Let_def ..
  have "\<not> is_precreator ?c'" using assms(2) by (simp add: is_precreator_def)
  have kept: "ps_containers (snd (add_or_update_precreator o1 o2 ?q bm img)) ! i = ?c' \<and>
      i < length (ps_containers (snd (add_or_update_precreator o1 o2 ?q bm img)))" for o1 o2 img
  proof (cases "index_func is_precreator (ps_containers ?q)")
    case None
    then show ?thesis using assms(1)
      by (simp add: add_or_update_precreator_def q nth_append del: index_func_None_iff)
  next
    case (Some k)
    have "k \<noteq> i" using index_func_SomeD(1,2) [OF Some] \<open>\<not> is_precreator ?c'\<close> q by auto
    with Some show ?thesis using assms(1) by (auto simp: add_or_update_precreator_def q Let_def)
  qed
  have none: "snd (remove_precreator ?q) = ?q" if "mu_precreator_image m = None"
  proof -
    have "\<forall>c \<in> set ((ps_containers p)[i := ?c']). \<not> is_precreator c"
      by (rule update_container_all) (use assms(3) that \<open>\<not> is_precreator ?c'\<close> in blast)+
    then have "delete_func is_precreator (ps_containers ?q) = ps_containers ?q"
      unfolding q by (rule delete_func_none)
    moreover have "r\<lparr>ps_containers := ps_containers r\<rparr> = r" for r :: pod_spec by (cases r) simp
    ultimately show ?thesis by (simp only: remove_precreator_def snd_conv)
  qed
  show "ps_containers (mounted m ord bm i p) ! i = ?c'" "i < length (ps_containers (mounted m ord bm i p))"
    using kept none assms(1) by (auto simp: run q split: option.split)
  show "ps_volumes (mounted m ord bm i p) = ps_volumes p @ new_volumes (ps_volumes p) ?kvs"
    by (simp add: run split: option.split)
qed

text \<open>A pod on which the work was done is left alone when it is done again.\<close>

lemma containers_same: "ps_containers p = cs \<Longrightarrow> p\<lparr>ps_containers := cs\<rparr> = p"
  by (cases p) simp

lemma volumes_same: "ps_volumes p = vs \<Longrightarrow> p\<lparr>ps_volumes := vs\<rparr> = p"
  by (cases p) simp

lemma mounts_same: "c_mounts c = ms \<Longrightarrow> c\<lparr>c_mounts := ms\<rparr> = c"
  by (cases c) simp

lemma mounted_idem:
  assumes "i < length (ps_containers p)" and "\<not> is_precreator (ps_containers p ! i)"
    and "mu_precreator_image m = None \<longrightarrow> (\<forall>c \<in> set (ps_containers p). \<not> is_precreator c)"
    and "range_ok (ord 1)" and "range_ok (ord' 1)" and "map_ok bm" and "ord' 2 = ord 2" and "ord' 3 = ord 3"
  shows "mounted m ord' bm i (mounted m ord bm i p) = mounted m ord bm i p"
proof -
  let ?kvs = "range_over (ord 1) bm" and ?kvs' = "range_over (ord' 1) bm" and ?r = "mounted m ord bm i p"
  note after = mounted_service_container [OF assms(1,2,3), where ord = ord and bm = bm]
  have sub: "set ?kvs' \<subseteq> set ?kvs" using assms(4-6) by simp
  have vols: "new_volumes (ps_volumes ?r) ?kvs' = []"
    unfolding after(3) using sub by (rule new_after_add)
  have mounts: "new_mounts (c_mounts (ps_containers ?r ! i)) ?kvs' = []"
    unfolding after(1) using sub by (simp add: new_after_add)
  have same: "modify_container i (\<lambda>_. (ps_containers ?r ! i)\<lparr>c_mounts := c_mounts (ps_containers ?r ! i)\<rparr>)
      (?r\<lparr>ps_volumes := ps_volumes ?r\<rparr>) = ?r"
    by (simp add: modify_container_def mounts_same volumes_same containers_same)
  have second: "mounted m ord' bm i ?r = (case mu_precreator_image m of
      Some img \<Rightarrow> snd (add_or_update_precreator (ord 2) (ord 3) ?r bm img) | None \<Rightarrow> snd (remove_precreator ?r))"
    unfolding mounted_def [of m ord' bm i ?r] Let_def vols mounts append_Nil2 assms(7,8) same ..
  show ?thesis
  proof (cases "mu_precreator_image m")
    case None
    with second show ?thesis
      by (simp add: remove_precreator_def mounted_def Let_def containers_same)
  next
    case (Some img)
    then obtain q where "?r = snd (add_or_update_precreator (ord 2) (ord 3) q bm img)"
      by (simp add: mounted_def Let_def)
    then have "add_or_update_precreator (ord 2) (ord 3) q bm img
        = (fst (add_or_update_precreator (ord 2) (ord 3) q bm img), ?r)" by simp
    from precreator_second_run [OF this, of "ord 2" "ord 3"]
    have "\<not> fst (add_or_update_precreator (ord 2) (ord 3) ?r bm img)" by simp
    then have "snd (add_or_update_precreator (ord 2) (ord 3) ?r bm img) = ?r"
      by (auto simp: add_or_update_precreator_def Let_def simp del: index_func_None_iff
          split: option.splits if_splits)
    with second Some show ?thesis by simp
  qed
qed

text \<open>Setting the environment of the service container again changes nothing.\<close>

lemma environment_kept:
  assumes "i < length (ps_containers p)" and "\<not> is_precreator (ps_containers p ! i)"
    and "mu_precreator_image m = None \<longrightarrow> (\<forall>c \<in> set (ps_containers p). \<not> is_precreator c)"
    and "set_env m grp prj (ps_containers p ! i) = ps_containers p ! i"
  shows "modify_container i (set_env m grp prj) (mounted m ord bm i p) = mounted m ord bm i p"
proof -
  let ?r = "mounted m ord bm i p"
  have "set_env m grp prj (ps_containers ?r ! i) = ps_containers ?r ! i"
    unfolding mounted_service_container(1) [OF assms(1-3)] set_env_mounts assms(4) ..
  then show ?thesis by (simp add: modify_container_def containers_same)
qed

section \<open>The whole pod template\<close>

text \<open>What the webhook makes of a StatefulSet while access lasts, before the probe.\<close>

definition worked_on ::
  "sfs_mutator \<Rightarrow> (nat \<Rightarrow> string list \<Rightarrow> string list) \<Rightarrow> access_group_config \<Rightarrow> string \<Rightarrow> project option
     \<Rightarrow> entries \<Rightarrow> nat \<Rightarrow> statefulset \<Rightarrow> statefulset" where
  "worked_on m ord c grp prj bm i sfs =
     mount_buckets m ord bm i
       (prepared m c grp i prj (sfs\<lparr>sfs_template := ensure_pod_annotations (sfs_template sfs)\<rparr>))"

lemma on_container_twice:
  assumes "i < length (ps_containers (sfs_pod s))"
  shows "on_container i f (on_container i g s) = on_container i (f \<circ> g) s"
  using assms by (simp add: on_container_def set_sfs_pod_def)

lemma prepared_eq:
  assumes "i < length (ps_containers (sfs_pod s))"
  shows "prepared m c grp i prj s =
    s\<lparr>sfs_template := \<lparr>pt_meta = pt_meta (label_pod (to_team c grp) grp (sfs_template s)),
        pt_spec = modify_container i (set_env m grp prj) (sfs_pod s)\<rparr>\<rparr>"
proof -
  let ?t = "s\<lparr>sfs_template := label_pod (to_team c grp) grp (sfs_template s)\<rparr>"
  have "prepared m c grp i prj s = on_container i (set_project_env m prj \<circ> set_adc_env m grp) ?t"
    unfolding prepared_def using assms by (intro on_container_twice) simp
  also have "set_project_env m prj \<circ> set_adc_env m grp = set_env m grp prj"
    by (intro ext) (simp add: set_env_def)
  finally show ?thesis
    by (simp add: on_container_def set_sfs_pod_def label_pod_def)
qed

lemma template_eqI: "pt_meta t = pt_meta t' \<Longrightarrow> pt_spec t = pt_spec t' \<Longrightarrow> t = (t' :: pod_template)"
  by (cases t; cases t') simp

lemma labels_differ [simp]: "daplaTeamLabel \<noteq> daplaGroupLabel" "daplaGroupLabel \<noteq> daplaTeamLabel"
  by (simp_all add: daplaTeamLabel_def daplaGroupLabel_def)

definition pod_meta_done :: "access_group_config \<Rightarrow> string \<Rightarrow> pod_template \<Rightarrow> pod_template" where
  "pod_meta_done c grp t = label_pod (to_team c grp) grp (ensure_pod_annotations t)"

lemma ensure_meta_only:
  "pt_meta t = pt_meta t' \<Longrightarrow> pt_meta (ensure_pod_annotations t) = pt_meta (ensure_pod_annotations t')"
  by (simp add: ensure_pod_annotations_def Let_def)

lemma label_meta_only:
  "pt_meta t = pt_meta t' \<Longrightarrow> pt_meta (label_pod team grp t) = pt_meta (label_pod team grp t')"
  by (simp add: label_pod_def)

lemma labels_kept: "om_labels (pt_meta (ensure_pod_annotations t)) = om_labels (pt_meta t)"
  by (simp add: ensure_pod_annotations_def Let_def)

lemma annotations_kept: "pod_annotations (label_pod team grp t) = pod_annotations t"
  by (simp add: label_pod_def)

lemma meta_from_fields:
  "pt_meta (ensure_pod_annotations t) = (pt_meta t)\<lparr>om_annotations := pod_annotations (ensure_pod_annotations t)\<rparr>"
  by (simp add: ensure_pod_annotations_def Let_def)

lemma label_pod_idem: "label_pod team grp (label_pod team grp t) = label_pod team grp t"
proof -
  have "put daplaGroupLabel grp (put daplaTeamLabel team l) = l"
    if "l = put daplaGroupLabel grp (put daplaTeamLabel team l')" for l l'
  proof -
    have "put daplaTeamLabel team l = l" by (rule put_same) (simp add: that)
    moreover have "put daplaGroupLabel grp l = l" by (rule put_same) (simp add: that)
    ultimately show ?thesis by simp
  qed
  then show ?thesis by (simp add: label_pod_def)
qed

lemma label_ensure: "label_pod team grp (ensure_pod_annotations t) = ensure_pod_annotations (label_pod team grp t)"
  by (cases t; cases "pt_meta t") (simp add: label_pod_def ensure_pod_annotations_def Let_def)

lemma pod_meta_done_idem: "pod_meta_done c grp (pod_meta_done c grp t) = pod_meta_done c grp t"
  by (simp add: pod_meta_done_def label_ensure ensure_pod_annotations_idem label_pod_idem)

lemma pod_meta_done_meta_only:
  assumes "pt_meta u = pt_meta (pod_meta_done c grp t)"
  shows "pt_meta (pod_meta_done c grp u) = pt_meta (pod_meta_done c grp t)"
proof -
  have "pt_meta (pod_meta_done c grp u) = pt_meta (pod_meta_done c grp (pod_meta_done c grp t))"
    unfolding pod_meta_done_def using assms [unfolded pod_meta_done_def]
    by (intro label_meta_only ensure_meta_only)
  then show ?thesis by (simp only: pod_meta_done_idem)
qed

lemma worked_on_eq:
  assumes "i < length (ps_containers (sfs_pod s))"
  shows "worked_on m ord c grp prj bm i s =
    s\<lparr>sfs_template := \<lparr>pt_meta = pt_meta (pod_meta_done c grp (sfs_template s)),
        pt_spec = mounted m ord bm i (modify_container i (set_env m grp prj) (sfs_pod s))\<rparr>\<rparr>"
  using assms
  by (simp add: worked_on_def prepared_eq mount_buckets_mounted pod_meta_done_def set_sfs_pod_def)

lemma worked_on_idem:
  assumes i: "i < length (ps_containers (sfs_pod s))" "\<not> is_precreator (ps_containers (sfs_pod s) ! i)"
    and pre: "mu_precreator_image m = None \<longrightarrow> (\<forall>c \<in> set (ps_containers (sfs_pod s)). \<not> is_precreator c)"
    and ord: "range_ok (ord 1)" "range_ok (ord' 1)" "map_ok bm" "ord' 2 = ord 2" "ord' 3 = ord 3"
  shows "worked_on m ord' c grp prj bm i (worked_on m ord c grp prj bm i s) = worked_on m ord c grp prj bm i s"
proof -
  define q where "q = modify_container i (set_env m grp prj) (sfs_pod s)"
  define r where "r = mounted m ord bm i q"
  let ?c = "set_env m grp prj (ps_containers (sfs_pod s) ! i)"
  have cs: "ps_containers q = (ps_containers (sfs_pod s))[i := ?c]"
    by (simp add: q_def modify_container_def)
  have c: "\<not> is_precreator ?c" using i(2) by (simp add: is_precreator_def)
  have q: "i < length (ps_containers q)" "\<not> is_precreator (ps_containers q ! i)"
    using i c by (simp_all add: cs)
  have q_pre: "mu_precreator_image m = None \<longrightarrow> (\<forall>c \<in> set (ps_containers q). \<not> is_precreator c)"
    using pre c unfolding cs by (intro impI update_container_all) blast+
  have q_env: "set_env m grp prj (ps_containers q ! i) = ps_containers q ! i"
    using i by (simp add: cs set_env_idem)
  have r: "i < length (ps_containers r)"
    unfolding r_def by (rule mounted_service_container(2) [OF q q_pre])
  have env: "modify_container i (set_env m grp prj) r = r"
    unfolding r_def by (rule environment_kept [OF q q_pre q_env])
  have again: "mounted m ord' bm i r = r"
    unfolding r_def by (rule mounted_idem [OF q q_pre ord])
  let ?u = "\<lparr>pt_meta = pt_meta (pod_meta_done c grp (sfs_template s)), pt_spec = r\<rparr>"
  have first: "worked_on m ord c grp prj bm i s = s\<lparr>sfs_template := ?u\<rparr>"
    using i(1) by (simp only: worked_on_eq q_def r_def)
  have "pt_meta (pod_meta_done c grp ?u) = pt_meta (pod_meta_done c grp (sfs_template s))"
    by (rule pod_meta_done_meta_only) simp
  with r env again have "worked_on m ord' c grp prj bm i (s\<lparr>sfs_template := ?u\<rparr>) = s\<lparr>sfs_template := ?u\<rparr>"
    by (simp add: worked_on_eq)
  then show ?thesis by (simp only: first)
qed

text \<open>
  What the webhook makes of a StatefulSet once access has expired. The precreator may stand
  before the service container, which then moves when it is taken away.
\<close>

definition cleared :: "nat \<Rightarrow> pod_spec \<Rightarrow> pod_spec" where
  "cleared i p =
     (let c = ps_containers p ! i; c' = c\<lparr>c_mounts := delete_func is_bucket_mount (c_mounts c)\<rparr>
      in p\<lparr>ps_volumes := delete_func is_bucket_volume (ps_volumes p),
           ps_containers := delete_func is_precreator ((ps_containers p)[i := c'])\<rparr>)"

definition cleared_off ::
  "sfs_mutator \<Rightarrow> access_group_config \<Rightarrow> string \<Rightarrow> project option \<Rightarrow> nat \<Rightarrow> statefulset \<Rightarrow> statefulset" where
  "cleared_off m c grp prj i sfs =
     unmount_buckets i (prepared m c grp i prj (sfs\<lparr>sfs_template := ensure_pod_annotations (sfs_template sfs)\<rparr>))"

lemma unmount_buckets_cleared: "unmount_buckets i s = set_sfs_pod (cleared i (sfs_pod s)) s"
  by (simp add: unmount_buckets_def remove_buckets_fields cleared_def modify_container_def remove_precreator_def Let_def)

lemma cleared_off_eq:
  assumes "i < length (ps_containers (sfs_pod s))"
  shows "cleared_off m c grp prj i s =
    s\<lparr>sfs_template := \<lparr>pt_meta = pt_meta (pod_meta_done c grp (sfs_template s)),
        pt_spec = cleared i (modify_container i (set_env m grp prj) (sfs_pod s))\<rparr>\<rparr>"
  using assms
  by (simp add: cleared_off_def prepared_eq unmount_buckets_cleared pod_meta_done_def set_sfs_pod_def)

lemma cleared_again:
  assumes at_i: "index_func (named name) (ps_containers p) = Some i" and name: "name \<noteq> precreatorContainerName"
    and env: "f (ps_containers p ! i) = ps_containers p ! i"
    and f: "\<And>c ms. f (c\<lparr>c_mounts := ms\<rparr>) = (f c)\<lparr>c_mounts := ms\<rparr>"
  obtains j where "index_func (named name) (ps_containers (cleared i p)) = Some j"
    and "modify_container j f (cleared i p) = cleared i p" and "cleared j (cleared i p) = cleared i p"
proof -
  let ?c = "ps_containers p ! i"
  let ?c' = "?c\<lparr>c_mounts := delete_func is_bucket_mount (c_mounts ?c)\<rparr>"
  let ?cs = "delete_func is_precreator ((ps_containers p)[i := ?c'])"
  have pod: "ps_containers (cleared i p) = ?cs"
      "ps_volumes (cleared i p) = delete_func is_bucket_volume (ps_volumes p)"
    by (simp_all add: cleared_def Let_def)
  have "c_name ?c' = name" using index_func_SomeD(2) [OF at_i] by simp
  then have "find (named name) ((ps_containers p)[i := ?c']) = Some ?c'"
    by (rule find_update_container [OF at_i])
  then have "find (named name) ?cs = Some ?c'"
    using find_other_container(2) [OF name, of "p\<lparr>ps_containers := (ps_containers p)[i := ?c']\<rparr>"]
    by (simp add: remove_precreator_def)
  then obtain j where j: "index_func (named name) ?cs = Some j" "?cs ! j = ?c'"
    by (auto simp: find_index_func)
  note len = index_func_SomeD(1) [OF j(1)]
  have same: "?cs[j := ?c'] = ?cs" using j(2) len by (metis list_update_id)
  show thesis
  proof
    show "index_func (named name) (ps_containers (cleared i p)) = Some j" using j(1) pod by simp
    have "f ?c' = ?c'" using env f by simp
    with same show "modify_container j f (cleared i p) = cleared i p"
      by (simp add: modify_container_def pod j(2) containers_same)
    have gone: "delete_func is_precreator ?cs = ?cs" by (simp add: delete_func_def)
    have vols: "delete_func is_bucket_volume (delete_func is_bucket_volume vs) = delete_func is_bucket_volume vs" for vs
      by (simp add: delete_func_def)
    have mounts: "?c'\<lparr>c_mounts := delete_func is_bucket_mount (c_mounts ?c')\<rparr> = ?c'"
      by (simp add: delete_func_def)
    show "cleared j (cleared i p) = cleared i p"
      unfolding cleared_def [of j] Let_def pod j(2) mounts same gone vols
      by (simp add: pod [symmetric])
  qed
qed

lemma cleared_off_idem:
  assumes at_i: "index_func (named name) (ps_containers (sfs_pod s)) = Some i"
    and name: "name \<noteq> precreatorContainerName"
  obtains j where "index_func (named name) (ps_containers (sfs_pod (cleared_off m c grp prj i s))) = Some j"
    and "cleared_off m c grp prj j (cleared_off m c grp prj i s) = cleared_off m c grp prj i s"
proof -
  let ?f = "set_env m grp prj"
  define q where "q = modify_container i ?f (sfs_pod s)"
  note i = index_func_SomeD(1,2) [OF at_i]
  have cs: "ps_containers q = (ps_containers (sfs_pod s))[i := ?f (ps_containers (sfs_pod s) ! i)]"
    by (simp add: q_def modify_container_def)
  have "index_func (named name) (ps_containers q) = Some i"
    unfolding cs using at_i i(2) by (intro index_func_update) simp_all
  moreover have "?f (ps_containers q ! i) = ps_containers q ! i"
    using i(1) by (simp add: cs set_env_idem)
  ultimately obtain j where j: "index_func (named name) (ps_containers (cleared i q)) = Some j"
      "modify_container j ?f (cleared i q) = cleared i q" "cleared j (cleared i q) = cleared i q"
    by (rule cleared_again [OF _ name _ set_env_mounts])
  let ?u = "\<lparr>pt_meta = pt_meta (pod_meta_done c grp (sfs_template s)), pt_spec = cleared i q\<rparr>"
  have first: "cleared_off m c grp prj i s = s\<lparr>sfs_template := ?u\<rparr>"
    using i(1) by (simp only: cleared_off_eq q_def)
  have "pt_meta (pod_meta_done c grp ?u) = pt_meta (pod_meta_done c grp (sfs_template s))"
    by (rule pod_meta_done_meta_only) simp
  then have "cleared_off m c grp prj j (s\<lparr>sfs_template := ?u\<rparr>) = s\<lparr>sfs_template := ?u\<rparr>"
    using j index_func_SomeD(1) [OF j(1)] by (simp add: cleared_off_eq)
  with j(1) first show thesis by (intro that) simp_all
qed

text \<open>The second run finds the service container where the first one found it.\<close>

lemma mounted_names:
  assumes "i < length (ps_containers p)" and "\<not> is_precreator (ps_containers p ! i)"
    and "mu_precreator_image m = None \<longrightarrow> (\<forall>c \<in> set (ps_containers p). \<not> is_precreator c)"
  shows "\<exists>rest. map c_name (ps_containers (mounted m ord bm i p)) = map c_name (ps_containers p) @ rest"
proof -
  let ?kvs = "range_over (ord 1) bm" and ?c = "ps_containers p ! i"
  let ?c' = "?c\<lparr>c_mounts := c_mounts ?c @ new_mounts (c_mounts ?c) ?kvs\<rparr>"
  let ?q = "modify_container i (\<lambda>_. ?c') (p\<lparr>ps_volumes := ps_volumes p @ new_volumes (ps_volumes p) ?kvs\<rparr>)"
  have q: "map c_name (ps_containers ?q) = map c_name (ps_containers p)"
    using update_container_names [OF assms(1), of ?c'] by (simp add: modify_container_def)
  have add: "\<exists>rest. map c_name (ps_containers (snd (add_or_update_precreator o1 o2 ?q bm img)))
      = map c_name (ps_containers ?q) @ rest" for o1 o2 img
  proof (cases "index_func is_precreator (ps_containers ?q)")
    case None
    then show ?thesis by (simp add: add_or_update_precreator_def del: index_func_None_iff)
  next
    case (Some k)
    note found = index_func_SomeD(1,2) [OF Some]
    have "map c_name ((ps_containers ?q)[k := x]) = map c_name (ps_containers ?q)"
      if "c_name x = precreatorContainerName" for x
      using found that by (intro update_container_names) (simp_all add: is_precreator_def)
    with Some show ?thesis
      by (simp add: add_or_update_precreator_def Let_def del: map_update)
  qed
  show ?thesis
  proof (cases "mu_precreator_image m")
    case (Some img)
    with add [of "ord 2" "ord 3" img] q show ?thesis by (simp add: mounted_def Let_def)
  next
    case None
    have "\<not> is_precreator ?c'" using assms(2) by (simp add: is_precreator_def)
    then have "\<forall>c \<in> set (ps_containers ?q). \<not> is_precreator c"
      using assms(3) None update_container_all [of "ps_containers p" "\<lambda>c. \<not> is_precreator c" ?c' i]
      by (simp add: modify_container_def)
    then have "delete_func is_precreator (ps_containers ?q) = ps_containers ?q" by (rule delete_func_none)
    with None q show ?thesis by (simp add: mounted_def Let_def remove_precreator_def)
  qed
qed

section \<open>The handler\<close>

text \<open>What a run learns from Google and the clock: the project, the expiry and the buckets.\<close>

definition seen ::
  "sfs_mutator \<Rightarrow> json_codec \<Rightarrow> world \<Rightarrow> access_group_config \<Rightarrow> string \<Rightarrow> statefulset \<Rightarrow> history
     \<Rightarrow> (project option \<times> bool option \<times> entries) outcome" where
  "seen m js w c grp s h =
     (case get_standard_project m w (to_team c grp) c h of
        (Panics k, h2) \<Rightarrow> Panics k
      | (Returns found, h2) \<Rightarrow>
          let prj = (case found of Inl _ \<Rightarrow> None | Inr p \<Rightarrow> Some p)
          in Returns (prj, access_expired c s (w_now w h2),
               fst (bucket_mounts_of m js w (to_team c grp) prj (sfs_annotations s) h2)))"

lemma seen_cong: "sfs_meta s = sfs_meta s' \<Longrightarrow> seen m js w c grp s h = seen m js w c grp s' h"
  unfolding seen_def access_expired_def by (simp only:)

definition probe_over :: "sfs_mutator \<Rightarrow> statefulset \<Rightarrow> bool" where
  "probe_over m s \<longleftrightarrow> mu_iam_probe_image m = [] \<or> map_index (sfs_annotations s) iamProbeStatus = iamProbeDone"

lemma finish_probe_over:
  "probe_over m s \<Longrightarrow> finish m js w s h =
     (Returns (case js_marshal js s of Some e \<Rightarrow> Errored 500 (MarshalFailed e) | None \<Rightarrow> Patched s), h)"
  by (auto simp: finish_def probe_over_def split: option.split)

lemma mutate_active:
  assumes "seen m js w c grp s0 h = Returns (prj, Some False, bm)" and "probe_over m s0"
    and "s0 = s\<lparr>sfs_template := ensure_pod_annotations (sfs_template s)\<rparr>"
  shows "fst (mutate m js w ord c grp i s0 h) =
    (let s' = worked_on m ord c grp prj bm i s
     in Returns (case js_marshal js s' of Some e \<Rightarrow> Errored 500 (MarshalFailed e) | None \<Rightarrow> Patched s'))"
proof -
  obtain found h2 where found: "get_standard_project m w (to_team c grp) c h = (Returns found, h2)"
    and prj: "prj = (case found of Inl _ \<Rightarrow> None | Inr p \<Rightarrow> Some p)"
    and expired: "access_expired c s0 (w_now w h2) = Some False"
    and bm: "bm = fst (bucket_mounts_of m js w (to_team c grp) prj (sfs_annotations s0) h2)"
    using assms(1) by (auto simp: seen_def Let_def split: prod.splits outcome.splits)
  let ?s3 = "prepared m c grp i prj s0"
  obtain h3 where mounts: "bucket_mounts_of m js w (to_team c grp) prj (sfs_annotations ?s3) h2 = (bm, h3)"
    using bm by (metis prepared_fields(1) prod.collapse)
  have "access_expired c ?s3 (w_now w h2) = Some False"
    using expired access_expired_cong [of ?s3 s0 c] by simp
  with found mounts have "mutate m js w ord c grp i s0 h = finish m js w (mount_buckets m ord bm i ?s3) h3"
    unfolding mutate_def by (simp add: prj prepared_def Let_def)
  moreover have "mount_buckets m ord bm i ?s3 = worked_on m ord c grp prj bm i s"
    by (simp add: worked_on_def assms(3))
  moreover have "probe_over m (worked_on m ord c grp prj bm i s)"
    using assms(2,3) by (simp add: worked_on_def probe_over_def)
  ultimately show ?thesis by (simp add: finish_probe_over Let_def)
qed

lemma mutate_expired:
  assumes "seen m js w c grp s0 h = Returns (prj, Some True, bm)" and "probe_over m s0"
    and "s0 = s\<lparr>sfs_template := ensure_pod_annotations (sfs_template s)\<rparr>"
  shows "fst (mutate m js w ord c grp i s0 h) =
    (let s' = cleared_off m c grp prj i s
     in Returns (case js_marshal js s' of Some e \<Rightarrow> Errored 500 (MarshalFailed e) | None \<Rightarrow> Patched s'))"
proof -
  obtain found h2 where found: "get_standard_project m w (to_team c grp) c h = (Returns found, h2)"
    and prj: "prj = (case found of Inl _ \<Rightarrow> None | Inr p \<Rightarrow> Some p)"
    and expired: "access_expired c s0 (w_now w h2) = Some True"
    using assms(1) by (auto simp: seen_def Let_def split: prod.splits outcome.splits)
  let ?s3 = "prepared m c grp i prj s0"
  have "access_expired c ?s3 (w_now w h2) = Some True"
    using expired access_expired_cong [of ?s3 s0 c] by simp
  with found have "mutate m js w ord c grp i s0 h = finish m js w (unmount_buckets i ?s3) h2"
    unfolding mutate_def by (simp add: prj prepared_def Let_def)
  moreover have "unmount_buckets i ?s3 = cleared_off m c grp prj i s"
    by (simp add: cleared_off_def assms(3))
  moreover have "probe_over m (cleared_off m c grp prj i s)"
    using assms(2,3) by (simp add: cleared_off_def probe_over_def)
  ultimately show ?thesis by (simp add: finish_probe_over Let_def)
qed

text \<open>What the second run of the handler does up to the service account.\<close>

lemma handle_reaches_mutate:
  assumes "js_decode js raw = Inr s" and "time_ptr_is_zero (om_deletion (sfs_meta s))"
    and "map_get (sfs_annotations s) impersonateGroupAnnotation = Some grp"
    and "index_func (named (map_index (sfs_annotations s) serviceContainerAnnotation))
      (ps_containers (sfs_pod s)) = Some i"
    and "get_config (mu_configs m) grp = Some c"
    and "handle_service_account w (w_range w h 0) ns (ps_service_account (sfs_pod s))
      (wanted_sa_annotations c s grp) h = (None, h1)"
  shows "handle m js w \<lparr>rq_namespace = ns, rq_raw = raw\<rparr> h =
    mutate m js w (w_range w h) c grp i (s\<lparr>sfs_template := ensure_pod_annotations (sfs_template s)\<rparr>) h1"
proof -
  have "wanted_sa_annotations c (s\<lparr>sfs_template := t\<rparr>) grp = wanted_sa_annotations c s grp" for t
    by (simp add: wanted_sa_annotations_def)
  with assms show ?thesis by (simp add: handle_def get_service_container_def Let_def)
qed

lemma cleared_account [simp]:
  "ps_service_account (cleared i p) = ps_service_account p"
  by (simp add: cleared_def Let_def)

lemma cleared_off_stays:
  assumes "i < length (ps_containers (sfs_pod s))"
  shows "sfs_meta (cleared_off m c grp prj i s) = sfs_meta s"
    and "ps_service_account (sfs_pod (cleared_off m c grp prj i s)) = ps_service_account (sfs_pod s)"
  using assms by (simp_all add: cleared_off_eq modify_container_def)

lemma mounted_account [simp]:
  "ps_service_account (mounted m ord bm i p) = ps_service_account p"
  by (auto simp: mounted_def Let_def modify_container_def add_or_update_precreator_def remove_precreator_def
      split: option.split)

text \<open>What stays of the object the webhook worked on.\<close>

lemma worked_on_stays:
  assumes at_i: "index_func (named name) (ps_containers (sfs_pod s)) = Some i"
    and name: "name \<noteq> precreatorContainerName"
    and pre: "mu_precreator_image m = None \<longrightarrow> (\<forall>c \<in> set (ps_containers (sfs_pod s)). \<not> is_precreator c)"
  shows "sfs_meta (worked_on m ord c grp prj bm i s) = sfs_meta s"
    and "ps_service_account (sfs_pod (worked_on m ord c grp prj bm i s)) = ps_service_account (sfs_pod s)"
    and "index_func (named name) (ps_containers (sfs_pod (worked_on m ord c grp prj bm i s))) = Some i"
proof -
  define q where "q = modify_container i (set_env m grp prj) (sfs_pod s)"
  note i = index_func_SomeD(1,2) [OF at_i]
  let ?c = "set_env m grp prj (ps_containers (sfs_pod s) ! i)"
  have cs: "ps_containers q = (ps_containers (sfs_pod s))[i := ?c]"
    by (simp add: q_def modify_container_def)
  have c: "\<not> is_precreator ?c" using i(2) name by (simp add: is_precreator_def)
  have pod: "sfs_pod (worked_on m ord c grp prj bm i s) = mounted m ord bm i q"
    using i(1) by (simp add: worked_on_eq q_def)
  have q_pre: "mu_precreator_image m = None \<longrightarrow> (\<forall>c \<in> set (ps_containers q). \<not> is_precreator c)"
    using pre c unfolding cs by (intro impI update_container_all) blast+
  have "i < length (ps_containers q)" "\<not> is_precreator (ps_containers q ! i)"
    using i(1) c by (simp_all add: cs)
  from mounted_names [OF this q_pre, of ord bm] obtain rest where
    "map c_name (ps_containers (mounted m ord bm i q)) = map c_name (ps_containers q) @ rest" by blast
  also have "map c_name (ps_containers q) = map c_name (ps_containers (sfs_pod s))"
    unfolding cs using i(1) by (intro update_container_names) simp_all
  finally have names: "map c_name (ps_containers (mounted m ord bm i q))
      = map c_name (ps_containers (sfs_pod s)) @ rest" .
  have by_names: "index_func (named name) cs = index_func (\<lambda>n. n = name) (map c_name cs)" for cs
    by (simp add: index_func_map comp_def)
  show "index_func (named name) (ps_containers (sfs_pod (worked_on m ord c grp prj bm i s))) = Some i"
    using at_i unfolding pod by_names names by (simp only: index_func_append option.case)
  show "sfs_meta (worked_on m ord c grp prj bm i s) = sfs_meta s" by (simp add: worked_on_def)
  show "ps_service_account (sfs_pod (worked_on m ord c grp prj bm i s)) = ps_service_account (sfs_pod s)"
    unfolding pod by (simp add: q_def modify_container_def)
qed

section \<open>Property\<close>

text \<open>
  C21: Reinvocation: called again on the object it sent back, the webhook sends the same object
  back, while access lasts and also once it has expired. Conditions: the folders, the project,
  the buckets and the expiry are seen by the second call as by the first; the second call can
  read, and if need be update, the service account; the probe is over (or no probe image is
  set); the service container is not named as the precreator. While access lasts, moreover,
  the two loops over maps that build the precreator's mounts take the same orders in both
  calls (the precreator is rewritten when they do not), and the request holds no precreator
  when no precreator image is set.
\<close>

theorem reinvocation_changes_nothing:
  assumes "range_law w"
    and "handle m js w \<lparr>rq_namespace = ns, rq_raw = raw\<rparr> h = (Returns (Patched s'), h')"
    and "js_decode js raw = Inr s" and "js_decode js raw' = Inr s'"
    and "map_get (sfs_annotations s) impersonateGroupAnnotation = Some grp"
    and "get_config (mu_configs m) grp = Some c"
    and "map_index (sfs_annotations s) serviceContainerAnnotation \<noteq> precreatorContainerName"
    and "probe_over m s"
    and "\<And>g. seen m js w c grp s g = Returns (prj, Some expired, bm)"
    and "fst (handle_service_account w (w_range w h' 0) ns (ps_service_account (sfs_pod s))
      (wanted_sa_annotations c s grp) h') = None"
    and "\<not> expired \<Longrightarrow> mu_precreator_image m = None \<Longrightarrow> (\<forall>c \<in> set (ps_containers (sfs_pod s)). \<not> is_precreator c)"
    and "\<And>k. \<not> expired \<Longrightarrow> k \<in> {2, 3} \<Longrightarrow> w_range w h' k = w_range w h k"
  shows "fst (handle m js w \<lparr>rq_namespace = ns, rq_raw = raw'\<rparr> h') = Returns (Patched s')"
proof -
  let ?name = "map_index (sfs_annotations s) serviceContainerAnnotation"
  let ?s0 = "s\<lparr>sfs_template := ensure_pod_annotations (sfs_template s)\<rparr>"
  obtain i h1 where alive: "time_ptr_is_zero (om_deletion (sfs_meta s))"
    and at_i: "index_func (named ?name) (ps_containers (sfs_pod s)) = Some i"
    and run: "mutate m js w (w_range w h) c grp i ?s0 h1 = (Returns (Patched s'), h')"
    using assms(2) by (rule handle_patched) (use assms(3,5,6) in auto)
  have view: "seen m js w c grp (t\<lparr>sfs_template := x\<rparr>) g = Returns (prj, Some expired, bm)"
    if "sfs_meta t = sfs_meta s" for t x g
    using assms(9) [of g] seen_cong [of "t\<lparr>sfs_template := x\<rparr>" s] that by simp
  have over: "probe_over m (t\<lparr>sfs_template := x\<rparr>)" if "sfs_meta t = sfs_meta s" for t x
    using assms(8) that by (simp add: probe_over_def)
  have bm: "map_ok bm"
    using assms(9) [of h] bucket_mounts_of_covers(1) [OF surjective_pairing]
    by (auto simp: seen_def Let_def split: prod.splits outcome.splits)
  note i = index_func_SomeD(1,2) [OF at_i]
  have second: "\<exists>h2. handle m js w \<lparr>rq_namespace = ns, rq_raw = raw'\<rparr> h' =
      mutate m js w (w_range w h') c grp j (s'\<lparr>sfs_template := ensure_pod_annotations (sfs_template s')\<rparr>) h2"
    if stays: "sfs_meta s' = sfs_meta s" "ps_service_account (sfs_pod s') = ps_service_account (sfs_pod s)"
      and j: "index_func (named ?name) (ps_containers (sfs_pod s')) = Some j" for j
  proof -
    obtain h2 where account: "handle_service_account w (w_range w h' 0) ns (ps_service_account (sfs_pod s'))
        (wanted_sa_annotations c s' grp) h' = (None, h2)"
      using assms(10) stays by (metis prod.collapse wanted_sa_annotations_def)
    show ?thesis
      by (intro exI [of _ h2] handle_reaches_mutate) (use assms(4-6) alive stays j account in simp_all)
  qed
  show ?thesis
  proof (cases expired)
    case True
    have "expired = True" using True by simp
    note view = view [unfolded this]
    have s': "s' = cleared_off m c grp prj i s" and marshal: "js_marshal js s' = None"
      using run mutate_expired [OF view [OF refl] over [OF refl] refl, of "w_range w h" i h1]
      by (auto simp: Let_def split: option.splits)
    note stays = cleared_off_stays [OF i(1), of m c grp prj, folded s']
    obtain j where j: "index_func (named ?name) (ps_containers (sfs_pod s')) = Some j"
        "cleared_off m c grp prj j s' = s'"
      unfolding s' using at_i assms(7) by (rule cleared_off_idem)
    obtain h2 where again: "handle m js w \<lparr>rq_namespace = ns, rq_raw = raw'\<rparr> h' =
        mutate m js w (w_range w h') c grp j (s'\<lparr>sfs_template := ensure_pod_annotations (sfs_template s')\<rparr>) h2"
      using second [OF stays j(1)] by blast
    show ?thesis
      using mutate_expired [OF view [OF stays(1)] over [OF stays(1)] refl, of "w_range w h'" j h2] j(2) marshal
      by (simp add: again Let_def)
  next
    case False
    have "expired = False" using False by simp
    note view = view [unfolded this]
    have s': "s' = worked_on m (w_range w h) c grp prj bm i s" and marshal: "js_marshal js s' = None"
      using run mutate_active [OF view [OF refl] over [OF refl] refl, of "w_range w h" i h1]
      by (auto simp: Let_def split: option.splits)
    have pre: "mu_precreator_image m = None \<longrightarrow> (\<forall>c \<in> set (ps_containers (sfs_pod s)). \<not> is_precreator c)"
      using assms(11) False by blast
    note stays = worked_on_stays [OF at_i assms(7) pre, of "w_range w h" c grp prj bm, folded s']
    have not_pre: "\<not> is_precreator (ps_containers (sfs_pod s) ! i)"
      using i(2) assms(7) by (simp add: is_precreator_def)
    have "range_ok (w_range w g 1)" for g using assms(1) by (simp add: range_law_def)
    then have work: "worked_on m (w_range w h') c grp prj bm i s' = s'"
      unfolding s' using bm assms(12) False by (intro worked_on_idem [OF i(1) not_pre pre]) simp_all
    obtain h2 where again: "handle m js w \<lparr>rq_namespace = ns, rq_raw = raw'\<rparr> h' =
        mutate m js w (w_range w h') c grp i (s'\<lparr>sfs_template := ensure_pod_annotations (sfs_template s')\<rparr>) h2"
      using second [OF stays] by blast
    show ?thesis
      using mutate_active [OF view [OF stays(1)] over [OF stays(1)] refl, of "w_range w h'" i h2] work marshal
      by (simp add: again Let_def)
  qed
qed

section \<open>Witness\<close>

text \<open>A codec that reads the object sent back where the request is not empty.\<close>

definition replaying :: "json_codec \<Rightarrow> statefulset \<Rightarrow> json_codec" where
  "replaying js s' = js\<lparr>js_decode := (\<lambda>raw. if raw = [] then js_decode js raw else Inr s')\<rparr>"

lemma handle_replaying:
  assumes "rq_raw req = []"
  shows "handle m (replaying js s') w req h = handle m js w req h"
proof -
  let ?js = "replaying js s'"
  have marshal: "js_marshal ?js = js_marshal js" and specs: "js_specs ?js = js_specs js"
    and decode: "js_decode ?js [] = js_decode js []"
    by (simp_all add: replaying_def)
  have "finish m ?js = finish m js" "bucket_mounts_of m ?js = bucket_mounts_of m js"
    by (intro ext, simp only: finish_def marshal)
      (intro ext, simp only: bucket_mounts_of_def add_shared_buckets_def specs)
  then have "mutate m ?js = mutate m js" by (intro ext) (simp only: mutate_def)
  then show ?thesis by (simp only: handle_def assms decode)
qed

lemma example_seen:
  "seen example_mutator (replaying (example_json s) s') (example_cluster 0) (example_team_config False)
     ''dapla-developers'' (example_sfs ''dapla-developers'') g
   = Returns (None, Some False, get_extra_bucket_mounts (sfs_annotations (example_sfs ''dapla-developers'')))"
proof -
  have "get_standard_project example_mutator (example_cluster 0) team c g
      = (Returns (Inl (NoFolder team IterDone)), g @ [ListFolders ''folders/1''])" for team c
    by (simp add: get_standard_project_def call_list_folders_def example_mutator_def)
  moreover have "map_get (sfs_annotations (example_sfs grp)) mountSharedBucketsAnnotation = None" for grp
    by (simp add: example_sfs_def empty_meta_def annotation_keys)
  ultimately show ?thesis
    by (simp add: seen_def bucket_mounts_of_def example_expiry)
qed

theorem reinvocation_changes_nothing_witness:
  "\<exists>s' h'. handle example_mutator (example_json (example_sfs ''dapla-developers'')) (example_cluster 0)
      example_request [] = (Returns (Patched s'), h') \<and>
    fst (handle example_mutator (replaying (example_json (example_sfs ''dapla-developers'')) s')
      (example_cluster 0) \<lparr>rq_namespace = ''user-ssb-abc'', rq_raw = ''again''\<rparr> h') = Returns (Patched s')"
proof -
  let ?s = "example_sfs ''dapla-developers''"
  obtain s' h' where run: "handle example_mutator (example_json ?s) (example_cluster 0) example_request []
      = (Returns (Patched s'), h')"
    using example_handle [OF example_group_configs(1) example_expiry(2)] by blast
  let ?js = "replaying (example_json ?s) s'"
  let ?bm = "get_extra_bucket_mounts (sfs_annotations ?s)"
  have first: "handle example_mutator ?js (example_cluster 0) \<lparr>rq_namespace = ''user-ssb-abc'', rq_raw = []\<rparr> []
      = (Returns (Patched s'), h')"
    using run handle_replaying [of example_request] by (simp add: example_request_def)
  have codec: "js_decode ?js [] = Inr ?s" "js_decode ?js ''again'' = Inr s'"
    by (simp_all add: replaying_def)
  have name: "map_index (sfs_annotations ?s) serviceContainerAnnotation \<noteq> precreatorContainerName"
    by (simp add: precreatorContainerName_def)
  have image: "\<not> False \<Longrightarrow> mu_precreator_image example_mutator = None \<Longrightarrow> P" for P
    by (simp add: example_mutator_def)
  have over: "probe_over example_mutator ?s"
    by (simp add: probe_over_def example_mutator_def)
  have ranges: "w_range (example_cluster 0) h' k = w_range (example_cluster 0) [] k" for k
    by (rule ext) simp
  have account: "fst (handle_service_account (example_cluster 0) ord ns name wanted h') = None" for ord ns name wanted
    by (simp add: handle_service_account_def call_get_sa_def call_update_sa_def example_account_def empty_meta_def)
  have "fst (handle example_mutator ?js (example_cluster 0)
      \<lparr>rq_namespace = ''user-ssb-abc'', rq_raw = ''again''\<rparr> h') = Returns (Patched s')"
    by (rule reinvocation_changes_nothing [OF example_cluster_fields(1) first codec example_sfs_fields(5)
        example_group_configs(1) name over example_seen account image ranges])
  with run show ?thesis by blast
qed

end
