(* ===== verification/Probe_Lifecycle.thy ===== *)
theory Probe_Lifecycle
  imports Reinvocation Job_Controller
begin

text \<open>
  The IAM probe across the two components that know it: the mutating webhook launches it
  and scales the StatefulSet to zero, the job reconciler revives the StatefulSet. The
  contract between them is an annotation; here it is stated as a small state machine on
  the view of a StatefulSet that both refine.
\<close>

section \<open>The lifecycle, abstractly\<close>

text \<open>
  \<open>Pending k\<close> is a StatefulSet that reviving would give \<open>k\<close> replicas; in \<open>Finished\<close> the probe
  is done for good.
\<close>

datatype probe_phase = Pending int32 | Finished

type_synonym probe_view = "probe_phase \<times> int32 option"

definition probe_view :: "statefulset \<Rightarrow> probe_view" where
  "probe_view sfs =
     (if map_index (sfs_annotations sfs) iamProbeStatus = iamProbeDone then Finished
      else Pending (saved_replicas sfs), sfs_replicas sfs)"

text \<open>Launching saves the replicas and takes them away; it fails without a replica count.\<close>

fun launch_spec :: "probe_view \<Rightarrow> probe_view outcome" where
  "launch_spec (Finished, n) = Returns (Finished, n)"
| "launch_spec (Pending k, None) = Panics NilDeref"
| "launch_spec (Pending k, Some n) = Returns (Pending n, Some 0)"

fun revive_spec :: "probe_view \<Rightarrow> probe_view" where
  "revive_spec (Finished, n) = (Finished, n)"
| "revive_spec (Pending k, n) = (Finished, Some k)"

fun launches :: "nat \<Rightarrow> probe_view \<Rightarrow> probe_view outcome" where
  "launches 0 v = Returns v"
| "launches (Suc k) v = bind_outcome (launch_spec v) (launches k)"

text \<open>However often a pending StatefulSet is launched, only the first time counts its replicas.\<close>

lemma launches_zero: "launches j (Pending 0, Some 0) = Returns (Pending 0, Some 0)"
  by (induction j) simp_all

lemma launches_pending:
  "launches (Suc j) (Pending k, Some n) = Returns (if j = 0 then Pending n else Pending 0, Some 0)"
  by (cases j) (simp_all add: launches_zero)

lemma launches_finished: "launches j (Finished, n) = Returns (Finished, n)"
  by (induction j) simp_all

section \<open>Saving and restoring the replicas\<close>

lemma launched:
  assumes "fst (launch_iam_probe m w sfs h) = Returns (sfs', err)"
  obtains anns n where "sfs_annotations sfs = Some anns" "sfs_replicas sfs = Some n"
    "sfs' = (set_sfs_annotations (Some (AList.update iamProbeStatus (iamProbeRunningPrefix @ show_int32 n) anns))
       sfs)\<lparr>sfs_replicas := Some 0\<rparr>"
  using assms
  by (auto simp: launch_iam_probe_def map_put_def Let_def split: option.splits prod.splits)

lemma saved_of_launched:
  assumes "fst (launch_iam_probe m w sfs h) = Returns (sfs', err)" and "sfs_replicas sfs = Some n"
  shows "saved_replicas sfs' = n" and "sfs_replicas sfs' = Some 0"
proof -
  obtain anns where sfs': "sfs' = (set_sfs_annotations (Some (AList.update iamProbeStatus
      (iamProbeRunningPrefix @ show_int32 n) anns)) sfs)\<lparr>sfs_replicas := Some 0\<rparr>"
    using assms(1)
  proof (rule launched)
    fix anns n'
    assume "sfs_replicas sfs = Some n'"
      "sfs' = (set_sfs_annotations (Some (AList.update iamProbeStatus
        (iamProbeRunningPrefix @ show_int32 n') anns)) sfs)\<lparr>sfs_replicas := Some 0\<rparr>"
    with assms(2) that show thesis by simp
  qed
  have "sfs_annotations sfs' = Some (AList.update iamProbeStatus (iamProbeRunningPrefix @ show_int32 n) anns)"
    by (simp add: sfs' set_sfs_annotations_def)
  then show "saved_replicas sfs' = n"
    by (simp add: saved_replicas_def map_index_def update_conv')
  show "sfs_replicas sfs' = Some 0" by (simp add: sfs')
qed

section \<open>The components refine it\<close>

lemma probe_view_launched:
  assumes "fst (launch_iam_probe m w sfs h) = Returns (sfs', err)" and "sfs_replicas sfs = Some n"
  shows "probe_view sfs' = (Pending n, Some 0)"
  using assms(1)
proof (rule launched)
  fix anns n'
  assume "sfs' = (set_sfs_annotations (Some (AList.update iamProbeStatus (iamProbeRunningPrefix @ show_int32 n') anns))
    sfs)\<lparr>sfs_replicas := Some 0\<rparr>"
  then have "map_index (sfs_annotations sfs') iamProbeStatus \<noteq> iamProbeDone"
    by (simp add: set_sfs_annotations_def map_index_def update_conv' iamProbeRunningPrefix_def iamProbeDone_def)
  with saved_of_launched [OF assms] show ?thesis by (simp add: probe_view_def)
qed

lemma finish_refines_launch:
  assumes "finish m js w sfs h = (Returns (Patched s'), h')" and "mu_iam_probe_image m \<noteq> []"
  shows "launch_spec (probe_view sfs) = Returns (probe_view s')"
proof (cases "map_index (sfs_annotations sfs) iamProbeStatus = iamProbeDone")
  case True
  with assms have "s' = sfs" by (auto simp: finish_def split: option.splits)
  with True show ?thesis by (simp add: probe_view_def)
next
  case False
  with assms obtain err where run: "fst (launch_iam_probe m w sfs h) = Returns (s', err)"
    by (auto simp: finish_def Let_def split: prod.splits outcome.splits option.splits)
  then obtain n where n: "sfs_replicas sfs = Some n" by (rule launched) blast
  from probe_view_launched [OF run n] False n show ?thesis by (simp add: probe_view_def)
qed

lemma probe_view_cong:
  "sfs_annotations s = sfs_annotations s' \<Longrightarrow> sfs_replicas s = sfs_replicas s' \<Longrightarrow> probe_view s = probe_view s'"
  by (simp add: probe_view_def saved_replicas_def)

text \<open>Whatever is done to the pod, the probe is launched on the metadata and the replicas of the request.\<close>

lemma replicas_through [simp]:
  "sfs_replicas (on_container i f s) = sfs_replicas s"
  "sfs_replicas (prepared m c grp i prj s) = sfs_replicas s"
  "sfs_replicas (unmount_buckets i s) = sfs_replicas s"
  "sfs_replicas (mount_buckets m ord bm i s) = sfs_replicas s"
  by (simp_all add: on_container_def prepared_def unmount_buckets_def mount_buckets_def set_sfs_pod_def
      Let_def split: prod.split)

lemma mutate_finishes:
  assumes "mutate m js w ord c grp i sfs h = (Returns (Patched s'), h')"
  obtains s3 h3 where "finish m js w s3 h3 = (Returns (Patched s'), h')"
    and "sfs_meta s3 = sfs_meta sfs" and "sfs_replicas s3 = sfs_replicas sfs"
  using assms
  by (auto simp: mutate_def Let_def prepared_def [symmetric]
      split: prod.splits outcome.splits option.splits bool.splits intro: that)

lemma handle_launches:
  assumes "handle m js w req h = (Returns (Patched s'), h')" and "js_decode js (rq_raw req) = Inr sfs"
    and "mu_iam_probe_image m \<noteq> []"
  shows "launch_spec (probe_view sfs) = Returns (probe_view s')"
  using assms(1)
proof (rule handle_patched)
  fix sfs1 grp i c h1 sfs0
  assume "js_decode js (rq_raw req) = Inr sfs1"
    and sfs0: "sfs0 = sfs1\<lparr>sfs_template := ensure_pod_annotations (sfs_template sfs1)\<rparr>"
    and run: "mutate m js w (w_range w h) c grp i sfs0 h1 = (Returns (Patched s'), h')"
  with assms(2) have [simp]: "sfs1 = sfs" by simp
  from run show ?thesis
  proof (rule mutate_finishes)
    fix s3 h3
    assume fin: "finish m js w s3 h3 = (Returns (Patched s'), h')"
      and "sfs_meta s3 = sfs_meta sfs0" "sfs_replicas s3 = sfs_replicas sfs0"
    then have "probe_view s3 = probe_view sfs"
      by (intro probe_view_cong) (simp_all add: sfs0)
    with finish_refines_launch [OF fin assms(3)] show ?thesis by simp
  qed
qed

lemma job_revives:
  assumes "UpdateSfs sfs' \<in> set (new_events h (snd (job_reconcile w nn h)))"
  shows "\<exists>j sfsName sfs k. w_get_job w h nn = Inr j \<and>
    map_get (om_annotations (job_meta j)) probeJobStatefulsetAnnotation = Some sfsName \<and>
    w_get_sfs w (h @ [GetJob nn]) \<lparr>nn_namespace = nn_namespace nn, nn_name = sfsName\<rparr> = Inr sfs \<and>
    fst (probe_view sfs) = Pending k \<and> probe_view sfs' = revive_spec (probe_view sfs)"
proof (cases "w_get_job w h nn")
  case (Inl e)
  with assms show ?thesis by (auto simp: job_reconcile_def call_get_job_def split: if_splits)
next
  case job: (Inr j)
  show ?thesis
  proof (cases "\<exists>sfsName. probe_finished w j sfsName")
    case False
    with assms job_reconcile_unconcerned [OF job] show ?thesis by simp
  next
    case True
    then obtain sfsName where fin: "probe_finished w j sfsName" by blast
    let ?nn = "\<lparr>nn_namespace = nn_namespace nn, nn_name = sfsName\<rparr>"
    let ?h = "h @ [GetJob nn, GetSfs ?nn]"
    note run = job_reconcile_run [OF job fin]
    have released: "UpdateSfs sfs' \<notin> set (new_events t (snd (release_job w j t)))" for t
      using release_job_events [of w j t] by auto
    show ?thesis
    proof (cases "w_get_sfs w (h @ [GetJob nn]) ?nn")
      case (Inl e)
      with assms run show ?thesis by (auto split: if_splits)
    next
      case (Inr sfs)
      show ?thesis
      proof (cases "map_index (sfs_annotations sfs) iamProbeStatus = iamProbeDone")
        case True
        with Inr run have "job_reconcile w nn h = release_job w j ?h" by simp
        with assms release_job_events [of w j ?h] show ?thesis by auto
      next
        case False
        with Inr run have eq: "job_reconcile w nn h = revive_sfs w j sfs ?h" by simp
        have "\<exists>anns i. sfs' = revived (Some (AList.update iamProbeStatus iamProbeDone anns)) i sfs"
        proof (cases rule: revive_sfs_cases [of sfs w j ?h])
          case (update anns i h2)
          have "UpdateSfs sfs' \<in> set (new_events ?h h2)"
            using assms eq update(4,5) release_job_events [of w j h2]
            by (auto split: sum.splits)
          with update(4) show ?thesis by auto
        qed (use assms eq in auto)
        then have "probe_view sfs' = (Finished, Some (saved_replicas sfs))"
          by (auto simp: probe_view_def map_index_def update_conv')
        with False Inr job fin show ?thesis by (simp add: probe_view_def probe_finished_def)
      qed
    qed
  qed
qed

section \<open>Properties\<close>

text \<open>
  C22: The mutating webhook implements the launch of the lifecycle: with a probe image
  configured, the StatefulSet it sends back is, in the view of the probe, the launched
  request, whatever was done to its pod on the way.
\<close>

theorem webhook_refines_launch:
  assumes "handle m js w req h = (Returns (Patched s'), h')" and "js_decode js (rq_raw req) = Inr sfs"
    and "mu_iam_probe_image m \<noteq> []"
  shows "launch_spec (probe_view sfs) = Returns (probe_view s')"
  using assms by (rule handle_launches)

text \<open>
  C23: The job reconciler implements the revival of the lifecycle: every StatefulSet it
  writes is the revived view of the one it read for the job, which was still pending.
\<close>

theorem job_refines_revive:
  assumes "UpdateSfs sfs' \<in> set (new_events h (snd (job_reconcile w nn h)))"
  shows "\<exists>j sfsName sfs k. w_get_job w h nn = Inr j \<and>
    map_get (om_annotations (job_meta j)) probeJobStatefulsetAnnotation = Some sfsName \<and>
    w_get_sfs w (h @ [GetJob nn]) \<lparr>nn_namespace = nn_namespace nn, nn_name = sfsName\<rparr> = Inr sfs \<and>
    fst (probe_view sfs) = Pending k \<and> probe_view sfs' = revive_spec (probe_view sfs)"
  using assms by (rule job_revives)

text \<open>
  C25: Launching the probe and reviving the StatefulSet are inverse to each other on the
  replicas: whatever 32-bit count the StatefulSet had, it is scaled to zero with the count
  saved in the status, and reviving it in any container gives the count back, marked done.
\<close>

theorem probe_saves_and_restores_replicas:
  assumes "fst (launch_iam_probe m w sfs h) = Returns (sfs', err)" and "sfs_replicas sfs = Some n"
    and "map_put iamProbeStatus iamProbeDone (sfs_annotations sfs') = Returns anns"
  shows "sfs_replicas sfs' = Some 0 \<and> sfs_pod sfs' = sfs_pod sfs \<and>
    map_index (sfs_annotations sfs') iamProbeStatus \<noteq> iamProbeDone \<and>
    sfs_replicas (revived anns i sfs') = Some n \<and>
    map_get (sfs_annotations (revived anns i sfs')) iamProbeStatus = Some iamProbeDone \<and>
    (\<forall>k. k \<noteq> iamProbeStatus \<longrightarrow>
       map_get (sfs_annotations (revived anns i sfs')) k = map_get (sfs_annotations sfs) k)"
  using assms(1)
proof (rule launched)
  fix anns0 n0
  assume old: "sfs_annotations sfs = Some anns0" and "sfs_replicas sfs = Some n0"
    and "sfs' = (set_sfs_annotations (Some (AList.update iamProbeStatus (iamProbeRunningPrefix @ show_int32 n0) anns0))
       sfs)\<lparr>sfs_replicas := Some 0\<rparr>"
  then have anns': "sfs_annotations sfs' = Some (AList.update iamProbeStatus (iamProbeRunningPrefix @ show_int32 n0) anns0)"
    and pod: "sfs_pod sfs' = sfs_pod sfs"
    by (simp_all add: set_sfs_annotations_def)
  have get: "map_get anns k = (if k = iamProbeStatus then Some iamProbeDone else map_get (sfs_annotations sfs') k)" for k
    using map_get_put [OF assms(3)] by simp
  have "map_index (sfs_annotations sfs') iamProbeStatus \<noteq> iamProbeDone"
    by (simp add: anns' map_index_def update_conv' iamProbeRunningPrefix_def iamProbeDone_def)
  then show ?thesis
    using saved_of_launched [OF assms(1,2)] pod
    by (simp add: get) (simp add: anns' old update_conv')
qed

text \<open>
  C40: A StatefulSet that passes the webhook again while its probe is running loses its
  count. With a probe image configured, the first admission of a pending StatefulSet with \<open>n\<close> replicas sends it back with
  the count \<open>n\<close> saved and no replicas; when a later request holds the annotations and the
  replicas sent back, the webhook does not see that the probe is running, and saves the zero
  in place of \<open>n\<close>; and a job reconciler that revives a StatefulSet with those annotations
  then sends it with zero replicas.
\<close>

theorem relaunch_forgets_replicas:
  assumes "handle m js w req h = (Returns (Patched s1), h1)" and "js_decode js (rq_raw req) = Inr sfs"
    and "mu_iam_probe_image m \<noteq> []" and "map_index (sfs_annotations sfs) iamProbeStatus \<noteq> iamProbeDone"
    and "handle m js w2 req2 h2 = (Returns (Patched s2), h3)" and "js_decode js (rq_raw req2) = Inr again"
    and "sfs_annotations again = sfs_annotations s1" and "sfs_replicas again = sfs_replicas s1"
    and "w_get_job w3 t nn = Inr j"
    and "map_get (om_annotations (job_meta j)) probeJobStatefulsetAnnotation = Some sfsName"
    and "w_get_sfs w3 (t @ [GetJob nn]) \<lparr>nn_namespace = nn_namespace nn, nn_name = sfsName\<rparr> = Inr stored"
    and "sfs_annotations stored = sfs_annotations s2"
    and "UpdateSfs sfs' \<in> set (new_events t (snd (job_reconcile w3 nn t)))"
  shows "\<exists>n. sfs_replicas sfs = Some n \<and> saved_replicas s1 = n \<and> sfs_replicas s1 = Some 0 \<and>
    saved_replicas s2 = 0 \<and> sfs_replicas s2 = Some 0 \<and> sfs_replicas sfs' = Some 0"
proof -
  have first: "launch_spec (probe_view sfs) = Returns (probe_view s1)"
    using assms(1-3) by (rule handle_launches)
  then obtain n where n: "sfs_replicas sfs = Some n" "probe_view s1 = (Pending n, Some 0)"
    using assms(4) by (cases "sfs_replicas sfs") (auto simp: probe_view_def)
  have "probe_view again = probe_view s1"
    using assms(7,8) by (rule probe_view_cong)
  with handle_launches [OF assms(5,6,3)] n(2) have second: "probe_view s2 = (Pending 0, Some 0)" by simp
  have "saved_replicas stored = saved_replicas s2"
    using assms(12) by (simp add: saved_replicas_def)
  moreover have "probe_view sfs' = revive_spec (probe_view stored)" "\<exists>k. fst (probe_view stored) = Pending k"
    using job_revives [OF assms(13)] assms(9-11) by auto
  ultimately have "sfs_replicas sfs' = Some (saved_replicas s2)"
    by (auto simp: probe_view_def split: if_splits)
  with n second show ?thesis by (auto simp: probe_view_def split: if_splits)
qed

section \<open>Witnesses\<close>

definition example_scaled :: "int32 \<Rightarrow> statefulset" where
  "example_scaled n =
     (set_sfs_annotations (Some [(serviceContainerAnnotation, ''jupyter'')]) (example_sfs ''dapla-developers''))
       \<lparr>sfs_replicas := Some n\<rparr>"

lemma example_launch:
  "\<exists>sfs' err. fst (launch_iam_probe example_mutator quiet_world (example_scaled n) h) = Returns (sfs', err) \<and>
     sfs_annotations sfs' \<noteq> None \<and> sfs_replicas sfs' = Some 0"
  by (simp add: launch_iam_probe_def example_scaled_def Let_def set_sfs_annotations_def split: prod.split)

theorem probe_saves_and_restores_replicas_witness:
  "\<exists>sfs' err anns. fst (launch_iam_probe example_mutator quiet_world (example_scaled 3) []) = Returns (sfs', err) \<and>
    sfs_replicas sfs' = Some 0 \<and> sfs_replicas (revived anns 0 sfs') = Some 3"
proof -
  obtain sfs' err where run: "fst (launch_iam_probe example_mutator quiet_world (example_scaled 3) []) = Returns (sfs', err)"
    and "sfs_annotations sfs' \<noteq> None"
    using example_launch by blast
  then obtain anns where "map_put iamProbeStatus iamProbeDone (sfs_annotations sfs') = Returns anns"
    by (auto simp: map_put_def)
  moreover have "sfs_replicas (example_scaled 3) = Some 3" by (simp add: example_scaled_def)
  ultimately show ?thesis
    using probe_saves_and_restores_replicas [OF run] run by blast
qed

definition example_probing_mutator :: sfs_mutator where
  "example_probing_mutator = example_mutator\<lparr>mu_iam_probe_image := ''probe:1''\<rparr>"

lemma example_probing_finish:
  assumes "sfs_replicas s \<noteq> None" and "sfs_annotations s \<noteq> None"
  shows "\<exists>s' h'. finish example_probing_mutator (example_json x) w s h = (Returns (Patched s'), h')"
  using assms
  by (cases "map_index (sfs_annotations s) iamProbeStatus = iamProbeDone")
    (auto simp: finish_def launch_iam_probe_def map_put_def call_create_job_def Let_def)

lemma example_probing_mutate:
  assumes "access_expired c sfs now = Some b" and "sfs_replicas sfs \<noteq> None" and "sfs_annotations sfs \<noteq> None"
  shows "\<exists>s' h'. mutate example_probing_mutator (example_json x) (example_cluster now) ord c grp i sfs h
    = (Returns (Patched s'), h')"
proof -
  let ?m = example_probing_mutator
  let ?h = "h @ [ListFolders ''folders/1'']"
  have search: "get_standard_project ?m (example_cluster now) team c h
      = (Returns (Inl (NoFolder team IterDone)), ?h)" for team
    by (simp add: get_standard_project_def call_list_folders_def example_probing_mutator_def example_mutator_def)
  let ?s = "prepared ?m c grp i None sfs"
  have "access_expired c ?s now = Some b"
    using assms(1) access_expired_cong [of ?s sfs c now] by simp
  then have run: "mutate ?m (example_json x) (example_cluster now) ord c grp i sfs h =
      (if b then finish ?m (example_json x) (example_cluster now) (unmount_buckets i ?s) ?h
       else let (bm, h3) = bucket_mounts_of ?m (example_json x) (example_cluster now) (to_team c grp) None
              (sfs_annotations ?s) ?h
         in finish ?m (example_json x) (example_cluster now) (mount_buckets ?m ord bm i ?s) h3)"
    by (simp add: mutate_def search prepared_def [symmetric] Let_def)
  show ?thesis
  proof (cases b)
    case True
    with run example_probing_finish [of "unmount_buckets i ?s"] assms(2,3) show ?thesis by simp
  next
    case False
    obtain bm h3 where "bucket_mounts_of ?m (example_json x) (example_cluster now) (to_team c grp) None
        (sfs_annotations ?s) ?h = (bm, h3)" by fastforce
    with run False example_probing_finish [of "mount_buckets ?m ord bm i ?s"] assms(2,3) show ?thesis by simp
  qed
qed

lemma example_probing_handle:
  assumes "js_decode (example_json x) raw = Inr sfs" and "om_deletion (sfs_meta sfs) = None"
    and "map_get (sfs_annotations sfs) impersonateGroupAnnotation = Some ''dapla-developers''"
    and "map_index (sfs_annotations sfs) serviceContainerAnnotation = ''jupyter''"
    and "sfs_pod sfs = example_pod" and "sfs_replicas sfs \<noteq> None"
  shows "\<exists>s' h'. handle example_probing_mutator (example_json x) (example_cluster 0)
      \<lparr>rq_namespace = ns, rq_raw = raw\<rparr> h = (Returns (Patched s'), h')"
proof -
  let ?s = "sfs\<lparr>sfs_template := ensure_pod_annotations (sfs_template sfs)\<rparr>"
  have "get_service_container (sfs_template ?s) ''jupyter'' = Some 0"
    using assms(5) by (simp add: get_service_container_def example_pod_def example_container_def)
  moreover have "sfs_annotations sfs \<noteq> None" using assms(3) by (cases "sfs_annotations sfs") (auto simp: map_get_def)
  then have "\<exists>s' h'. mutate example_probing_mutator (example_json y) (example_cluster 0) ord
      (example_team_config False) grp i ?s t = (Returns (Patched s'), h')" for y ord grp i t
    using assms(6) by (intro example_probing_mutate [where b = False]) (simp_all add: access_expired_def)
  moreover have "handle_service_account (example_cluster 0) ord
      ns name wanted t = (None, t @ [GetSA \<lparr>nn_namespace = ns, nn_name = name\<rparr>,
        UpdateSA (set_sa_annotations (Some wanted) example_account)])" for ord ns name wanted t
    by (simp add: handle_service_account_def call_get_sa_def call_update_sa_def example_account_def
        empty_meta_def)
  moreover have "mu_configs example_probing_mutator = mu_configs example_mutator"
    by (simp add: example_probing_mutator_def)
  ultimately show ?thesis
    using assms by (simp add: handle_def time_ptr_is_zero_def Let_def)
qed

lemma example_replicas: "sfs_replicas (example_sfs grp) \<noteq> None"
  by (simp add: example_sfs_def)

lemma example_probe_view: "probe_view (example_sfs ''dapla-developers'') = (Pending 1, Some 1)"
  by (simp add: probe_view_def saved_replicas_def example_sfs_def map_index_def annotation_keys
      iamProbeDone_def iamProbeRunningPrefix_def trim_prefix_def has_prefix_def to_int32_def)

theorem webhook_refines_launch_witness:
  "\<exists>s' h'. handle example_probing_mutator (example_json (example_sfs ''dapla-developers'')) (example_cluster 0)
      example_request [] = (Returns (Patched s'), h') \<and> probe_view s' = (Pending 1, Some 0)"
proof -
  obtain s' h' where run: "handle example_probing_mutator (example_json (example_sfs ''dapla-developers''))
      (example_cluster 0) example_request [] = (Returns (Patched s'), h')"
    using example_probing_handle [OF example_sfs_fields(1,4,5,6,9) example_replicas]
    unfolding example_request_def by blast
  have "mu_iam_probe_image example_probing_mutator \<noteq> []" by (simp add: example_probing_mutator_def)
  from webhook_refines_launch [OF run example_sfs_fields(1) this]
  have "launch_spec (probe_view (example_sfs ''dapla-developers'')) = Returns (probe_view s')" .
  then have "Returns (probe_view s') = Returns (Pending 1, Some 0)" by (simp add: example_probe_view)
  with run show ?thesis by auto
qed

theorem job_refines_revive_witness:
  "\<exists>sfs'. UpdateSfs sfs' \<in> set (new_events [] (snd (job_reconcile
      (example_job_world (Inr (example_probed example_running))) example_job_nn []))) \<and>
    probe_view sfs' = (Finished, Some 3)"
proof -
  let ?w = "example_job_world (Inr (example_probed example_running))"
  let ?h = "[GetJob example_job_nn, GetSfs \<lparr>nn_namespace = nn_namespace example_job_nn, nn_name = ''app''\<rparr>]"
  have run: "job_reconcile ?w example_job_nn [] = revive_sfs ?w example_job (example_probed example_running) ?h"
    using job_reconcile_run [of ?w "[]" example_job_nn example_job "''app''"] by simp
  obtain sfs' where ev: "UpdateSfs sfs' \<in> set (new_events [] (snd (job_reconcile ?w example_job_nn [])))"
  proof (cases rule: revive_sfs_cases [of "example_probed example_running" ?w example_job ?h])
    case (update anns i h2)
    with release_job_events [of ?w example_job h2] run
    have "UpdateSfs (revived (Some (AList.update iamProbeStatus iamProbeDone anns)) i (example_probed example_running))
        \<in> set (new_events [] (snd (job_reconcile ?w example_job_nn [])))"
      by auto
    then show ?thesis by (rule that)
  qed auto
  have view: "probe_view (example_probed example_running) = (Pending 3, Some 0)"
    using example_saved by (simp add: probe_view_def example_probed_def)
  from job_refines_revive [OF ev] have "probe_view sfs' = revive_spec (probe_view (example_probed example_running))"
    by auto
  with ev view show ?thesis by auto
qed

text \<open>The codec of Reinvocation, for the second request.\<close>

lemma handle_replayed:
  assumes "rq_raw req \<noteq> []"
  shows "handle m (replaying (example_json x) s) w req h = handle m (example_json s) w req h"
proof -
  let ?js = "replaying (example_json x) s" and ?js' = "example_json s"
  have marshal: "js_marshal ?js = js_marshal ?js'" and specs: "js_specs ?js = js_specs ?js'"
    and decode: "js_decode ?js (rq_raw req) = js_decode ?js' (rq_raw req)"
    using assms by (simp_all add: replaying_def example_json_def)
  have "finish m ?js = finish m ?js'" "bucket_mounts_of m ?js = bucket_mounts_of m ?js'"
    by (intro ext, simp only: finish_def marshal)
      (intro ext, simp only: bucket_mounts_of_def add_shared_buckets_def specs)
  then have "mutate m ?js = mutate m ?js'" by (intro ext) (simp only: mutate_def)
  then show ?thesis by (simp only: handle_def decode)
qed

text \<open>What the webhook sends back keeps every annotation but the status.\<close>

lemma handle_keeps_annotations:
  assumes "handle m js w req h = (Returns (Patched s'), h')" and "js_decode js (rq_raw req) = Inr sfs"
    and "k \<noteq> iamProbeStatus"
  shows "map_get (sfs_annotations s') k = map_get (sfs_annotations sfs) k"
  using assms(1)
proof (rule handle_patched)
  fix sfs1 grp i c h1 sfs0
  assume "js_decode js (rq_raw req) = Inr sfs1"
    and sfs0: "sfs0 = sfs1\<lparr>sfs_template := ensure_pod_annotations (sfs_template sfs1)\<rparr>"
    and run: "mutate m js w (w_range w h) c grp i sfs0 h1 = (Returns (Patched s'), h')"
  with assms(2) have [simp]: "sfs1 = sfs" by simp
  from run show ?thesis
  proof (rule mutate_finishes)
    fix s3 h3
    assume fin: "finish m js w s3 h3 = (Returns (Patched s'), h')" and "sfs_meta s3 = sfs_meta sfs0"
    then have same: "sfs_annotations s3 = sfs_annotations sfs" by (simp add: sfs0)
    show ?thesis
      using fin same assms(3)
      by (auto simp: finish_def launch_iam_probe_def map_put_def update_conv' Let_def
          split: if_splits option.splits prod.splits outcome.splits)
  qed
qed

lemma map_index_from_get: "map_get m k = map_get m' k \<Longrightarrow> map_index m k = map_index m' k"
  by (simp add: map_index_def)

lemma example_revival:
  assumes "map_index anns serviceContainerAnnotation = ''jupyter''" and "anns \<noteq> None"
    and "map_index anns iamProbeStatus \<noteq> iamProbeDone"
  obtains sfs' where "UpdateSfs sfs' \<in> set (new_events [] (snd (job_reconcile
      (example_job_world (Inr (example_probed anns))) example_job_nn [])))"
proof -
  let ?w = "example_job_world (Inr (example_probed anns))"
  let ?h = "[GetJob example_job_nn, GetSfs \<lparr>nn_namespace = nn_namespace example_job_nn, nn_name = ''app''\<rparr>]"
  have run: "job_reconcile ?w example_job_nn [] = revive_sfs ?w example_job (example_probed anns) ?h"
    using job_reconcile_run [of ?w "[]" example_job_nn example_job "''app''"] assms(3) by simp
  show thesis
  proof (cases rule: revive_sfs_cases [of "example_probed anns" ?w example_job ?h])
    case (update as i h2)
    with release_job_events [of ?w example_job h2] run
    have "UpdateSfs (revived (Some (AList.update iamProbeStatus iamProbeDone as)) i (example_probed anns))
        \<in> set (new_events [] (snd (job_reconcile ?w example_job_nn [])))"
      by auto
    then show ?thesis by (rule that)
  qed (use assms in auto)
qed

definition example_again :: "statefulset \<Rightarrow> statefulset" where
  "example_again s1 = (set_sfs_annotations (sfs_annotations s1) (example_sfs ''dapla-developers''))
     \<lparr>sfs_replicas := sfs_replicas s1\<rparr>"

theorem relaunch_forgets_replicas_witness:
  "\<exists>s1 h1 s2 h2 sfs'.
    handle example_probing_mutator (example_json (example_sfs ''dapla-developers'')) (example_cluster 0)
      example_request [] = (Returns (Patched s1), h1) \<and> saved_replicas s1 = 1 \<and>
    handle example_probing_mutator (example_json (example_again s1)) (example_cluster 0)
      \<lparr>rq_namespace = ''user-ssb-abc'', rq_raw = ''again''\<rparr> h1 = (Returns (Patched s2), h2) \<and>
    UpdateSfs sfs' \<in> set (new_events [] (snd (job_reconcile
      (example_job_world (Inr (example_probed (sfs_annotations s2)))) example_job_nn []))) \<and>
    sfs_replicas sfs' = Some 0"
proof -
  let ?m = example_probing_mutator and ?w = "example_cluster 0" and ?s = "example_sfs ''dapla-developers''"
  let ?req = "\<lparr>rq_namespace = ''user-ssb-abc'', rq_raw = ''again''\<rparr>"
  have image: "mu_iam_probe_image ?m \<noteq> []" by (simp add: example_probing_mutator_def)
  obtain s1 h1 where run1: "handle ?m (example_json ?s) ?w example_request [] = (Returns (Patched s1), h1)"
    using example_probing_handle [OF example_sfs_fields(1,4,5,6,9) example_replicas]
    unfolding example_request_def by blast
  have view1: "probe_view s1 = (Pending 1, Some 0)"
    using handle_launches [OF run1 example_sfs_fields(1) image] by (simp add: example_probe_view)
  have kept1: "map_get (sfs_annotations s1) k = map_get (sfs_annotations ?s) k" if "k \<noteq> iamProbeStatus" for k
    by (rule handle_keeps_annotations [OF run1 example_sfs_fields(1) that])
  have again: "om_deletion (sfs_meta (example_again s1)) = None" "sfs_pod (example_again s1) = example_pod"
    "sfs_annotations (example_again s1) = sfs_annotations s1" "sfs_replicas (example_again s1) = sfs_replicas s1"
    by (simp_all add: example_again_def set_sfs_annotations_def)
  have other: "impersonateGroupAnnotation \<noteq> iamProbeStatus" "serviceContainerAnnotation \<noteq> iamProbeStatus"
    by (simp_all add: annotation_keys)
  have grp: "map_get (sfs_annotations (example_again s1)) impersonateGroupAnnotation = Some ''dapla-developers''"
    unfolding again(3) kept1 [OF other(1)] by (rule example_sfs_fields(5))
  have ctr: "map_index (sfs_annotations (example_again s1)) serviceContainerAnnotation = ''jupyter''"
    unfolding again(3) map_index_from_get [OF kept1 [OF other(2)]] by (rule example_sfs_fields(6))
  have "sfs_replicas (example_again s1) \<noteq> None" using view1 again(4) by (simp add: probe_view_def)
  then obtain s2 h2 where run2: "handle ?m (example_json (example_again s1)) ?w ?req h1 = (Returns (Patched s2), h2)"
    using example_probing_handle [OF example_sfs_fields(1) again(1) grp ctr again(2)] by blast
  have "probe_view (example_again s1) = (Pending 1, Some 0)"
    using probe_view_cong [OF again(3,4)] view1 by simp
  with handle_launches [OF run2 example_sfs_fields(1) image] have view2: "probe_view s2 = (Pending 0, Some 0)" by simp
  then have pending: "map_index (sfs_annotations s2) iamProbeStatus \<noteq> iamProbeDone"
    by (auto simp: probe_view_def split: if_splits)
  have "map_index (sfs_annotations s2) serviceContainerAnnotation = ''jupyter''"
    using map_index_from_get [OF handle_keeps_annotations [OF run2 example_sfs_fields(1) other(2)]] ctr by simp
  moreover from this have "sfs_annotations s2 \<noteq> None" by (cases "sfs_annotations s2") simp_all
  ultimately obtain sfs' where ev: "UpdateSfs sfs' \<in> set (new_events [] (snd (job_reconcile
      (example_job_world (Inr (example_probed (sfs_annotations s2)))) example_job_nn [])))"
    using pending by (rule example_revival)
  let ?js = "replaying (example_json ?s) (example_again s1)"
  have first: "handle ?m ?js ?w example_request [] = (Returns (Patched s1), h1)"
    using run1 handle_replaying [of example_request] by (simp add: example_request_def)
  have second: "handle ?m ?js ?w ?req h1 = (Returns (Patched s2), h2)"
    using run2 handle_replayed [of ?req] by simp
  have decode: "js_decode ?js (rq_raw example_request) = Inr ?s" "js_decode ?js (rq_raw ?req) = Inr (example_again s1)"
    by (simp_all add: replaying_def example_request_def)
  have todo: "map_index (sfs_annotations ?s) iamProbeStatus \<noteq> iamProbeDone"
    using example_probe_view by (auto simp: probe_view_def split: if_splits)
  have job: "map_get (om_annotations (job_meta example_job)) probeJobStatefulsetAnnotation = Some ''app''"
    using example_probe_finished by (simp add: probe_finished_def)
  have "saved_replicas s1 = 1 \<and> sfs_replicas sfs' = Some 0"
    using relaunch_forgets_replicas [OF first decode(1) image todo second decode(2) again(3,4)
        example_job_world_fields(1) job _ _ ev] view1
    by (auto simp: probe_view_def split: if_splits)
  with run1 run2 ev show ?thesis by blast
qed

end
