(* ===== verification/Policy_Store.thy ===== *)
theory Policy_Store
  imports ServiceAccount_Controller
begin

text \<open>
  The policy of a Google service account is shared by the reconciles of many Kubernetes
  service accounts, by other replicas and by other programs. What protects a read, modify
  and write cycle is the etag, which the reconciler sends back with the policy it read. This
  theory states what the IAM service documents of etags, and what the reconciler achieves
  with them against the policy in force at the moment of the write.
\<close>

section \<open>The store\<close>

text \<open>
  \<open>stored h ref\<close> is the policy the service holds for \<open>ref\<close> when a call is made after the
  history \<open>h\<close>; others may change it between any two calls. A read returns it. A policy that
  names an etag is accepted only if that is the etag of the policy held; one that names no
  etag overwrites blindly. No two different policies have the same etag.
\<close>

definition etag_of :: "iam_policy option \<Rightarrow> string" where
  "etag_of p = (case p of None \<Rightarrow> [] | Some q \<Rightarrow> p_etag q)"

definition etag_law :: "world \<Rightarrow> (history \<Rightarrow> string \<Rightarrow> iam_policy option) \<Rightarrow> bool" where
  "etag_law w stored \<longleftrightarrow>
     (\<forall>h ref read. w_get_iam w h ref = Inr read \<longrightarrow> read = stored h ref) \<and>
     (\<forall>h ref p. snd (w_set_iam w h ref p) = None \<longrightarrow> p_etag p \<noteq> [] \<longrightarrow>
        p_etag p = etag_of (stored h ref)) \<and>
     (\<forall>h h' ref p q. stored h ref = Some p \<longrightarrow> stored h' ref = Some q \<longrightarrow>
        p_etag p = p_etag q \<longrightarrow> p = q)"

text \<open>A write that was accepted was made against the policy that was read.\<close>

lemma accepted_write_is_current:
  assumes "etag_law w stored" and "w_get_iam w h ref = Inr read"
    and "snd (w_set_iam w h' ref p) = None" and "p_etag p = etag_of read" and "p_etag p \<noteq> []"
  shows "stored h' ref = read"
proof -
  obtain q where read: "read = Some q" using assms(4,5) by (cases read) (auto simp: etag_of_def)
  with assms(1,2) have held: "stored h ref = Some q" unfolding etag_law_def by metis
  have "p_etag p = etag_of (stored h' ref)"
    using assms(1,3,5) unfolding etag_law_def by blast
  with assms(4,5) read obtain q' where q': "stored h' ref = Some q'" "p_etag q' = p_etag q"
    by (cases "stored h' ref") (auto simp: etag_of_def)
  with assms(1) held have "q' = q" unfolding etag_law_def by metis
  with q'(1) read show ?thesis by simp
qed

lemma frame_etag: "policy_frame t read p \<Longrightarrow> p_etag p = etag_of read"
  by (cases read) (simp_all add: policy_frame_def policy_or_empty_def etag_of_def empty_policy_def)

section \<open>A write that is refused\<close>

lemma refused_update:
  "snd (w_set_iam w h ref (p\<lparr>p_version := 3\<rparr>)) = Some e \<Longrightarrow>
     \<exists>q x. update_iam_policy w p ref h = ((q, Some x), h @ [SetIamPolicy ref (p\<lparr>p_version := 3\<rparr>)])"
  by (auto simp: update_iam_policy_def call_set_iam_def Let_def split: prod.split)

lemma update_event:
  "snd (update_iam_policy w p ref h) = h @ [SetIamPolicy ref (p\<lparr>p_version := 3\<rparr>)]"
  by (simp add: update_iam_policy_def call_set_iam_def Let_def split: prod.split)

lemma refused_handle:
  assumes "snd (handle_gcp_sa r w sa grp nn h) = h @ [GetIamPolicy ref, SetIamPolicy ref p]"
    and "snd (w_set_iam w (h @ [GetIamPolicy ref]) ref p) = Some e"
  shows "\<exists>q x. fst (handle_gcp_sa r w sa grp nn h) = Returns (q, Some x)"
proof -
  have ref: "ref = to_gcp_sa_ref (r_group_sa_project r) grp"
    by (cases rule: handle_gcp_sa_trace [of r w sa grp nn h]) (use assms(1) in auto)
  obtain read where read: "w_get_iam w h ref = Inr read"
    using assms(1) handle_gcp_sa_early(1) [of w h r grp] ref by (cases "w_get_iam w h ref") auto
  obtain expr where expr: "expiration_expr sa = Inr expr"
    using assms(1) handle_gcp_sa_early(2) [OF read [unfolded ref]] by (cases "expiration_expr sa") auto
  note run = handle_gcp_sa_run [OF read [unfolded ref] expr, folded ref]
  show ?thesis
  proof (cases "ensured r w nn expr read")
    case (Panics k)
    with run assms(1) show ?thesis by simp
  next
    case (Returns mb)
    obtain m bs where mb: "mb = (m, bs)" by (cases mb)
    let ?q = "(policy_or_empty read)\<lparr>p_bindings := bs\<rparr>"
    from run Returns mb assms(1) have m: m by (cases m) simp_all
    obtain ret h2 where up: "update_iam_policy w ?q ref (h @ [GetIamPolicy ref]) = (ret, h2)" by fastforce
    have out: "handle_gcp_sa r w sa grp nn h = (Returns ret, h2)"
      using run Returns mb m up by simp
    have "h2 = (h @ [GetIamPolicy ref]) @ [SetIamPolicy ref (?q\<lparr>p_version := 3\<rparr>)]"
      using update_event [of w ?q ref "h @ [GetIamPolicy ref]"] up by simp
    with out assms(1) have "p = ?q\<lparr>p_version := 3\<rparr>" by simp
    with assms(2) refused_update [of w "h @ [GetIamPolicy ref]" ref ?q] up out show ?thesis by auto
  qed
qed

lemma refused_remove:
  assumes "snd (remove_iam_binding r w grp nn h) = h @ [GetIamPolicy ref, SetIamPolicy ref p]"
    and "snd (w_set_iam w (h @ [GetIamPolicy ref]) ref p) = Some e"
  shows "\<exists>q x. fst (remove_iam_binding r w grp nn h) = Returns (q, Some x)"
proof -
  have ref: "ref = to_gcp_sa_ref (r_group_sa_project r) grp"
    by (cases rule: remove_iam_binding_trace [of r w grp nn h]) (use assms(1) in auto)
  note def = remove_iam_binding_def call_get_iam_def Let_def ref [symmetric]
  obtain pol where pol: "w_get_iam w h ref = Inr (Some pol)"
    using assms(1) by (cases "w_get_iam w h ref"; cases "projr (w_get_iam w h ref)")
      (auto simp: def split: if_splits)
  show ?thesis
  proof (cases "delete_title (iam_condition_string w nn) (p_bindings pol)")
    case (Panics k)
    with pol assms(1) show ?thesis by (simp add: def)
  next
    case (Returns bs)
    let ?q = "pol\<lparr>p_bindings := bs\<rparr>"
    have len: "length bs \<noteq> length (p_bindings pol)"
      using pol Returns assms(1) by (auto simp: def)
    obtain ret h2 where up: "update_iam_policy w ?q ref (h @ [GetIamPolicy ref]) = (ret, h2)" by fastforce
    have out: "remove_iam_binding r w grp nn h = (Returns ret, h2)"
      using pol Returns len up by (simp add: def)
    have "h2 = (h @ [GetIamPolicy ref]) @ [SetIamPolicy ref (?q\<lparr>p_version := 3\<rparr>)]"
      using update_event [of w ?q ref "h @ [GetIamPolicy ref]"] up by simp
    with out assms(1) have "p = ?q\<lparr>p_version := 3\<rparr>" by simp
    with assms(2) refused_update [of w "h @ [GetIamPolicy ref]" ref ?q] up out show ?thesis by auto
  qed
qed

text \<open>The write of a reconcile: where it stands, what it was computed from, what a refusal leads to.\<close>

lemma reconcile_write:
  assumes "SetIamPolicy ref p \<in> set (new_events h (snd (sa_reconcile r w nn h)))"
  obtains pre read post where
    "new_events h (snd (sa_reconcile r w nn h)) = pre @ [GetIamPolicy ref, SetIamPolicy ref p] @ post"
    "w_get_iam w (h @ pre) ref = Inr read"
    "policy_frame (iam_condition_string w nn) read p"
    "snd (w_set_iam w (h @ pre @ [GetIamPolicy ref]) ref p) \<noteq> None \<Longrightarrow>
       \<exists>q x. fst (sa_reconcile r w nn h) = Returns (q, Some x)"
proof (cases rule: sa_reconcile_cases [of r w nn h])
  case (no_iam evs)
  with assms show ?thesis by (auto simp: list_all_iff)
next
  case (live sa grp sa' pre post)
  let ?h = "h @ GetSA nn # pre"
  show ?thesis
  proof (cases rule: handle_gcp_sa_trace [of r w sa' grp nn ?h])
    case read
    with live assms show ?thesis by (auto simp: list_all_iff)
  next
    case (wrote read p')
    with live(5-7) assms have ref: "ref = to_gcp_sa_ref (r_group_sa_project r) grp" "p = p'"
      by (auto simp: list_all_iff)
    have "\<exists>q x. fst (sa_reconcile r w nn h) = Returns (q, Some x)"
      if no: "snd (w_set_iam w (h @ (GetSA nn # pre) @ [GetIamPolicy ref]) ref p) = Some e" for e
    proof -
      obtain q x where "fst (handle_gcp_sa r w sa' grp nn ?h) = Returns (q, Some x)"
        using refused_handle [OF wrote(1) [folded ref], of e] no by auto
      then show ?thesis
        using live(1-4) by (cases "handle_gcp_sa r w sa' grp nn ?h")
          (simp add: sa_reconcile_def call_get_sa_def)
    qed
    with live(6) wrote ref show ?thesis
      by (intro that [of "GetSA nn # pre" post read]) auto
  qed
next
  case (dying sa grp post)
  let ?h = "h @ [GetSA nn]"
  show ?thesis
  proof (cases rule: remove_iam_binding_trace [of r w grp nn ?h])
    case read
    with dying assms show ?thesis by (auto simp: list_all_iff)
  next
    case (wrote read p')
    with dying(4,5) assms have ref: "ref = to_gcp_sa_ref (r_group_sa_project r) grp" "p = p'"
      by (auto simp: list_all_iff)
    have "\<exists>q x. fst (sa_reconcile r w nn h) = Returns (q, Some x)"
      if no: "snd (w_set_iam w (h @ [GetSA nn] @ [GetIamPolicy ref]) ref p) = Some e" for e
    proof -
      obtain q x where failed: "fst (remove_iam_binding r w grp nn ?h) = Returns (q, Some x)"
        using refused_remove [OF wrote(1) [folded ref], of e] no by auto
      have run: "sa_reconcile r w nn h = finalize_sa r w sa grp nn ?h"
        using dying(1-3) by (simp add: sa_reconcile_def call_get_sa_def)
      have "w_contains_finalizer w (om_finalizers (sa_meta sa)) finalizerName"
      proof (rule ccontr)
        assume "\<not> w_contains_finalizer w (om_finalizers (sa_meta sa)) finalizerName"
        then have "snd (sa_reconcile r w nn h) = ?h" by (simp add: run finalize_sa_def)
        with dying(4) wrote(1) show False by simp
      qed
      with failed run show ?thesis
        by (cases "remove_iam_binding r w grp nn ?h") (simp add: finalize_sa_def)
    qed
    with dying(4) wrote ref show ?thesis
      by (intro that [of "[GetSA nn]" post read]) auto
  qed
qed

section \<open>Property\<close>

text \<open>
  C9: No lost updates. A reconcile that writes a policy with an etag either has the write
  accepted, and then what it changed in the policy in force at that very moment is its own
  binding and nothing that anybody else wrote in between; or the write is refused, and the
  reconcile returns an error, so that it is tried again.
\<close>

theorem no_update_is_lost:
  assumes "etag_law w stored"
    and "SetIamPolicy ref p \<in> set (new_events h (snd (sa_reconcile r w nn h)))"
    and "p_etag p \<noteq> []"
  shows "\<exists>pre post. new_events h (snd (sa_reconcile r w nn h))
      = pre @ [GetIamPolicy ref, SetIamPolicy ref p] @ post \<and>
    (if snd (w_set_iam w (h @ pre @ [GetIamPolicy ref]) ref p) = None
     then policy_frame (iam_condition_string w nn) (stored (h @ pre @ [GetIamPolicy ref]) ref) p
     else \<exists>q x. fst (sa_reconcile r w nn h) = Returns (q, Some x))"
  using assms(2)
proof (rule reconcile_write)
  fix pre read post
  assume events: "new_events h (snd (sa_reconcile r w nn h)) = pre @ [GetIamPolicy ref, SetIamPolicy ref p] @ post"
    and read: "w_get_iam w (h @ pre) ref = Inr read"
    and frame: "policy_frame (iam_condition_string w nn) read p"
    and refused: "snd (w_set_iam w (h @ pre @ [GetIamPolicy ref]) ref p) \<noteq> None \<Longrightarrow>
       \<exists>q x. fst (sa_reconcile r w nn h) = Returns (q, Some x)"
  have "stored (h @ pre @ [GetIamPolicy ref]) ref = read"
    if "snd (w_set_iam w (h @ pre @ [GetIamPolicy ref]) ref p) = None"
    by (rule accepted_write_is_current [OF assms(1) read that frame_etag [OF frame] assms(3)])
  with events frame refused show ?thesis by auto
qed

section \<open>Witness\<close>

text \<open>
  A service that holds one policy with an etag until somebody else changes it, which
  happens, if at all, right after the read.
\<close>

definition etag_store :: "bool \<Rightarrow> history \<Rightarrow> string \<Rightarrow> iam_policy option" where
  "etag_store changed h ref =
     Some (if changed \<and> GetIamPolicy ref \<in> set h
           then \<lparr>p_bindings = [example_binding\<lparr>b_condition := Some \<lparr>ex_title = ''other'', ex_expression = [], ex_other = []\<rparr>\<rparr>],
             p_version = 3, p_etag = ''v2''\<rparr>
           else \<lparr>p_bindings = [], p_version = 3, p_etag = ''v1''\<rparr>)"

definition etag_world :: "bool \<Rightarrow> service_account \<Rightarrow> world" where
  "etag_world changed sa = quiet_world\<lparr>w_get_sa := (\<lambda>_ _. Inr sa),
     w_get_iam := (\<lambda>h ref. Inr (etag_store changed h ref)),
     w_set_iam := (\<lambda>h ref p. if p_etag p = [] \<or> p_etag p = etag_of (etag_store changed h ref)
       then (Some 200, None) else (None, Some (GoogleApi 409)))\<rparr>"

lemma etag_world_law: "etag_law (etag_world changed sa) (etag_store changed)"
  by (auto simp: etag_law_def etag_world_def etag_store_def split: if_splits)

lemma etag_world_fields [simp]:
  "w_get_sa (etag_world b sa) h nn = Inr sa"
  "w_get_iam (etag_world b sa) h ref = Inr (etag_store b h ref)"
  "w_contains_finalizer (etag_world b sa) fs f = (f \<in> set fs)"
  "iam_condition_string (etag_world b sa) nn = iam_condition_string quiet_world nn"
  "wanted_binding r (etag_world b sa) nn expr = wanted_binding r quiet_world nn expr"
  by (simp_all add: etag_world_def quiet_world_def iam_condition_string_def wanted_binding_def)

lemma etag_run:
  defines "sa \<equiv> example_sa example_group [finalizerName] None"
    and "p \<equiv> example_policy\<lparr>p_etag := ''v1''\<rparr>"
  shows "SetIamPolicy example_ref p
    \<in> set (new_events [] (snd (sa_reconcile example_reconciler (etag_world b sa) example_nn [])))"
proof -
  let ?w = "etag_world b sa"
  have ref: "to_gcp_sa_ref (r_group_sa_project example_reconciler) ''dapla-developers'' = example_ref"
    by (simp add: example_ref_def example_reconciler_def)
  have read: "w_get_iam ?w [GetSA example_nn] example_ref = Inr (Some \<lparr>p_bindings = [], p_version = 3, p_etag = ''v1''\<rparr>)"
    by (simp add: etag_store_def)
  have ens: "ensured example_reconciler ?w example_nn ''true'' (Some \<lparr>p_bindings = [], p_version = 3, p_etag = ''v1''\<rparr>)
      = Returns (True, [example_binding])"
    by (simp add: ensured_def policy_or_empty_def ensure_correct_binding_def example_binding_def)
  have "snd (handle_gcp_sa example_reconciler ?w sa ''dapla-developers'' example_nn [GetSA example_nn])
      = [GetSA example_nn, GetIamPolicy example_ref, SetIamPolicy example_ref p]"
    using handle_gcp_sa_run [of ?w "[GetSA example_nn]" example_reconciler "''dapla-developers''"] read ens
    by (simp add: ref sa_def p_def policy_or_empty_def example_policy_def update_iam_policy_def call_set_iam_def
        Let_def split: prod.split)
  moreover obtain out where "handle_gcp_sa example_reconciler ?w sa ''dapla-developers'' example_nn [GetSA example_nn]
      = (out, [GetSA example_nn, GetIamPolicy example_ref, SetIamPolicy example_ref p])"
    using calculation by (metis prod.collapse)
  moreover have "map_get (Some example_group) impersonateGroupAnnotation = Some ''dapla-developers''" by simp
  ultimately show ?thesis
    by (auto simp: sa_reconcile_def call_get_sa_def sa_def time_ptr_is_zero_def ensure_sa_finalizer_def
        annotate_sa_def call_update_sa_def Let_def split: outcome.split option.split sum.split)
qed

text \<open>When somebody else changed the policy after the read, the reconcile fails and nothing is lost.\<close>

theorem no_update_is_lost_witness:
  "\<exists>q x. fst (sa_reconcile example_reconciler
     (etag_world True (example_sa example_group [finalizerName] None)) example_nn []) = Returns (q, Some x)"
proof -
  let ?w = "etag_world True (example_sa example_group [finalizerName] None)"
  let ?p = "example_policy\<lparr>p_etag := ''v1''\<rparr>"
  obtain pre post where "if snd (w_set_iam ?w ([] @ pre @ [GetIamPolicy example_ref]) example_ref ?p) = None
     then policy_frame (iam_condition_string ?w example_nn)
       (etag_store True ([] @ pre @ [GetIamPolicy example_ref]) example_ref) ?p
     else \<exists>q x. fst (sa_reconcile example_reconciler ?w example_nn []) = Returns (q, Some x)"
    using no_update_is_lost [OF etag_world_law etag_run, of True] by auto
  moreover have "snd (w_set_iam ?w ([] @ pre @ [GetIamPolicy example_ref]) example_ref ?p) \<noteq> None"
    by (simp add: etag_world_def etag_store_def etag_of_def)
  ultimately show ?thesis by simp
qed

end
