(* ===== verification/Audit_Concurrency.thy ===== *)
theory Audit_Concurrency
  imports Audit_Router
begin

text \<open>
  The audit router under concurrent admission requests. Each request calls \<^verbatim>\<open>RecordAll\<close> in a
  goroutine of its own, on one router, and the router has no lock. A call is split into its
  accesses to the shared router: one step reads a slot of the ring, reads or writes the
  index, writes a slot, or hands the payload to one sink. The steps of the calls interleave
  in any order. Assumed is that one access to a slot or to the index is atomic. For the
  index, one machine word, it is; a slot is a Go string of two words, and a scan that reads
  one word before and one after a racing write is left out, with the crash it can end in.
  The clients behind the sinks are safe for concurrent use.
\<close>

section \<open>The steps of a call\<close>

text \<open>
  Where a call is: scanning slot \<open>k\<close> (\<^verbatim>\<open>slices.Contains\<close>); about to read the index for the
  slot to write; about to write slot \<open>i\<close>; about to read the index to increase it; about to
  write its successor; about to hand the payload to sink \<open>k\<close>; returned without delivering,
  or after delivering.
\<close>

datatype call_pc =
    Scanning nat
  | ReadIndex
  | WriteSlot nat
  | ReadAgain
  | WriteIndex nat
  | Delivering nat "sink_error list"
  | Skipped
  | Delivered "sink_error list"
  | Crashed

record audit_run =
  ar_router :: router
  ar_pc :: "nat \<Rightarrow> call_pc"

abbreviation ring :: "audit_run \<Rightarrow> string list" where
  "ring s \<equiv> rt_recent (ar_router s)"

abbreviation sinks :: "audit_run \<Rightarrow> sink list" where
  "sinks s \<equiv> rt_sinks (ar_router s)"

definition set_pc :: "nat \<Rightarrow> call_pc \<Rightarrow> audit_run \<Rightarrow> audit_run" where
  "set_pc c pc s = s\<lparr>ar_pc := (ar_pc s)(c := pc)\<rparr>"

lemma set_pc_fields [simp]:
  "ar_router (set_pc c pc s) = ar_router s"
  "ar_pc (set_pc c pc s) d = (if d = c then pc else ar_pc s d)"
  "set_pc c pc' (set_pc c pc s) = set_pc c pc' s"
  "(set_pc c pc s)\<lparr>ar_router := rt\<rparr> = set_pc c pc (s\<lparr>ar_router := rt\<rparr>)"
  by (simp_all add: set_pc_def)

lemma set_pc_same: "ar_pc s c = pc \<Longrightarrow> set_pc c pc s = s"
  by (cases s) (auto simp: set_pc_def)

text \<open>\<open>pay c\<close> is the payload call \<open>c\<close> was made with.\<close>

inductive audit_step :: "audit_env \<Rightarrow> (nat \<Rightarrow> payload) \<Rightarrow> audit_run \<Rightarrow> audit_run \<Rightarrow> bool"
  for env :: audit_env and pay :: "nat \<Rightarrow> payload" where
  seen:
    "ar_pc s c = Scanning k \<Longrightarrow> k < length (ring s) \<Longrightarrow> ring s ! k = payload_hash env (pay c) \<Longrightarrow>
       audit_step env pay s (set_pc c Skipped s)"
| unseen:
    "ar_pc s c = Scanning k \<Longrightarrow> k < length (ring s) \<Longrightarrow> ring s ! k \<noteq> payload_hash env (pay c) \<Longrightarrow>
       audit_step env pay s (set_pc c (Scanning (k + 1)) s)"
| scanned:
    "ar_pc s c = Scanning k \<Longrightarrow> k \<ge> length (ring s) \<Longrightarrow>
       audit_step env pay s (set_pc c ReadIndex s)"
| read_index:
    "ar_pc s c = ReadIndex \<Longrightarrow>
       audit_step env pay s (set_pc c (WriteSlot (rt_index (ar_router s))) s)"
| write_slot:
    "ar_pc s c = WriteSlot i \<Longrightarrow> i < length (ring s) \<Longrightarrow>
       audit_step env pay s
         (set_pc c ReadAgain
           (s\<lparr>ar_router := (ar_router s)\<lparr>rt_recent := (ring s)[i := payload_hash env (pay c)]\<rparr>\<rparr>))"
| out_of_range:
    "ar_pc s c = WriteSlot i \<Longrightarrow> i \<ge> length (ring s) \<Longrightarrow>
       audit_step env pay s (set_pc c Crashed s)"
| read_again:
    "ar_pc s c = ReadAgain \<Longrightarrow>
       audit_step env pay s (set_pc c (WriteIndex (rt_index (ar_router s))) s)"
| write_index:
    "ar_pc s c = WriteIndex i \<Longrightarrow>
       audit_step env pay s
         (set_pc c (Delivering 0 [])
           (s\<lparr>ar_router := (ar_router s)\<lparr>rt_index := (i + 1) mod length (ring s)\<rparr>\<rparr>))"
| deliver:
    "ar_pc s c = Delivering k errs \<Longrightarrow> k < length (sinks s) \<Longrightarrow>
       sink_record env (pay c) (sinks s ! k) = (e, sink') \<Longrightarrow>
       audit_step env pay s
         (set_pc c (Delivering (k + 1) (errs @ (case e of None \<Rightarrow> [] | Some x \<Rightarrow> [x])))
           (s\<lparr>ar_router := (ar_router s)\<lparr>rt_sinks := (sinks s)[k := sink']\<rparr>\<rparr>))"
| delivered:
    "ar_pc s c = Delivering k errs \<Longrightarrow> k \<ge> length (sinks s) \<Longrightarrow>
       audit_step env pay s (set_pc c (Delivered errs) s)"

inductive_cases audit_stepE: "audit_step env pay s s'"

definition fresh_run :: "sink list \<Rightarrow> audit_run" where
  "fresh_run ss = \<lparr>ar_router = new_router ss, ar_pc = (\<lambda>_. Scanning 0)\<rparr>"

section \<open>Invariants\<close>

text \<open>The ring keeps its hundred slots and every index read is one of them.\<close>

fun pc_ok :: "call_pc \<Rightarrow> bool" where
  "pc_ok (WriteSlot i) \<longleftrightarrow> i < 100"
| "pc_ok (WriteIndex i) \<longleftrightarrow> i < 100"
| "pc_ok Crashed \<longleftrightarrow> False"
| "pc_ok pc \<longleftrightarrow> True"

definition indices_ok :: "audit_run \<Rightarrow> bool" where
  "indices_ok s \<longleftrightarrow> router_ok (ar_router s) \<and> (\<forall>c. pc_ok (ar_pc s c))"

lemma indices_ok_step:
  assumes "audit_step env pay s s'" and "indices_ok s"
  shows "indices_ok s'"
  using assms(1)
proof cases
  case (out_of_range c i)
  with assms(2) have "pc_ok (WriteSlot i)" "\<not> i < 100"
    by (metis indices_ok_def, simp add: indices_ok_def router_ok_def)
  then show ?thesis by simp
qed (use assms(2) in \<open>auto simp: indices_ok_def router_ok_def\<close>)

text \<open>
  A call that has written its slot has marked its hash as recorded. Every hash in the ring
  was put there by such a call, and so was the one that made a call return early.
\<close>

fun marked :: "call_pc \<Rightarrow> bool" where
  "marked ReadAgain = True"
| "marked (WriteIndex i) = True"
| "marked (Delivering k errs) = True"
| "marked (Delivered errs) = True"
| "marked pc = False"

definition hashes_ok :: "audit_env \<Rightarrow> (nat \<Rightarrow> payload) \<Rightarrow> audit_run \<Rightarrow> bool" where
  "hashes_ok env pay s \<longleftrightarrow>
     (\<forall>h \<in> set (ring s). h = [] \<or> (\<exists>d. marked (ar_pc s d) \<and> payload_hash env (pay d) = h)) \<and>
     (\<forall>c. ar_pc s c = Skipped \<longrightarrow>
        (\<exists>d. marked (ar_pc s d) \<and> payload_hash env (pay d) = payload_hash env (pay c)))"

lemma marked_stays: "audit_step env pay s s' \<Longrightarrow> marked (ar_pc s d) \<Longrightarrow> marked (ar_pc s' d)"
  by (erule audit_stepE) auto

text \<open>What a call has handed over so far.\<close>

fun handed :: "call_pc \<Rightarrow> nat \<Rightarrow> bool" where
  "handed (Delivering k errs) j \<longleftrightarrow> j < k"
| "handed (Delivered errs) j \<longleftrightarrow> True"
| "handed pc j \<longleftrightarrow> False"

fun is_logging :: "sink \<Rightarrow> bool" where
  "is_logging (CloudLogging es) = True"
| "is_logging (CloudStorage objs) = False"

definition logged_ok :: "(nat \<Rightarrow> payload) \<Rightarrow> audit_run \<Rightarrow> bool" where
  "logged_ok pay s \<longleftrightarrow>
     (\<forall>c j. handed (ar_pc s c) j \<longrightarrow> j < length (sinks s) \<longrightarrow> is_logging (sinks s ! j) \<longrightarrow>
        pay c \<in> set (accepted (sinks s ! j)))"

lemma hashes_ok_step:
  assumes step: "audit_step env pay s s'" and inv: "hashes_ok env pay s"
  shows "hashes_ok env pay s'"
proof -
  have keep: "\<exists>d. marked (ar_pc s' d) \<and> payload_hash env (pay d) = h"
    if "\<exists>d. marked (ar_pc s d) \<and> payload_hash env (pay d) = h" for h
    using that marked_stays [OF step] by blast
  have old: "h = [] \<or> (\<exists>d. marked (ar_pc s' d) \<and> payload_hash env (pay d) = h)" if "h \<in> set (ring s)" for h
    using that inv keep [of h] unfolding hashes_ok_def by blast
  have skipped: "\<exists>d. marked (ar_pc s' d) \<and> payload_hash env (pay d) = payload_hash env (pay c)"
    if "ar_pc s c = Skipped" for c
    using that inv keep by (simp add: hashes_ok_def)
  from step show ?thesis
  proof cases
    case (seen c k)
    then have "payload_hash env (pay c) \<in> set (ring s)" by (metis nth_mem)
    with old have "\<exists>d. marked (ar_pc s' d) \<and> payload_hash env (pay d) = payload_hash env (pay c)" by force
    with seen old skipped show ?thesis unfolding hashes_ok_def by (auto split: if_splits)
  next
    case (write_slot c i)
    have mine: "marked (ar_pc s' c)" using write_slot by simp
    have "h = [] \<or> (\<exists>d. marked (ar_pc s' d) \<and> payload_hash env (pay d) = h)" if "h \<in> set (ring s')" for h
    proof -
      have "set (ring s') \<subseteq> insert (payload_hash env (pay c)) (set (ring s))"
        using write_slot set_update_subset_insert by fastforce
      with that consider "h = payload_hash env (pay c)" | "h \<in> set (ring s)" by blast
      then show ?thesis by cases (use mine old in blast)+
    qed
    moreover have "ar_pc s d = Skipped" if "ar_pc s' d = Skipped" for d
      using that write_slot by (auto split: if_splits)
    ultimately show ?thesis using skipped unfolding hashes_ok_def by blast
  qed (use old skipped in \<open>auto simp: hashes_ok_def split: if_splits\<close>)
qed

lemma sink_record_kind: "is_logging (snd (sink_record env p s)) = is_logging s"
  by (cases s) (auto simp: Let_def split: sum.split option.split)

lemma sink_record_grows: "set (accepted s) \<subseteq> set (accepted (snd (sink_record env p s)))"
  by (simp add: any_sink.record_accounts)

lemma logging_accepts: "is_logging s \<Longrightarrow> p \<in> set (accepted (snd (sink_record env p s)))"
  by (cases s) auto

lemma logged_ok_step:
  assumes step: "audit_step env pay s s'" and inv: "logged_ok pay s"
  shows "logged_ok pay s'"
  using step
proof cases
  case (deliver c k errs e sink')
  have sink': "sink' = snd (sink_record env (pay c) (sinks s ! k))" using deliver by simp
  have grows: "pay d \<in> set (accepted (sinks s' ! j))"
    if "pay d \<in> set (accepted (sinks s ! j))" for d j
    using that sink_record_grows [of "sinks s ! k" env "pay c"] deliver(3)
    by (cases "j = k") (auto simp: deliver(1) sink')
  have kind: "is_logging (sinks s' ! j) = is_logging (sinks s ! j)" for j
    using deliver(3) by (cases "j = k") (simp_all add: deliver(1) sink' sink_record_kind)
  have "pay c \<in> set (accepted (sinks s' ! k))" if "is_logging (sinks s ! k)"
    using that deliver(3) by (simp add: deliver(1) sink' logging_accepts)
  then have now: "pay d \<in> set (accepted (sinks s' ! j))"
    if "handed (ar_pc s' d) j" "j < length (sinks s')" "is_logging (sinks s' ! j)" for d j
  proof (cases "d = c \<and> j = k")
    case True
    with that kind \<open>is_logging (sinks s ! k) \<Longrightarrow> pay c \<in> set (accepted (sinks s' ! k))\<close>
    show ?thesis by simp
  next
    case False
    with that(1) have "handed (ar_pc s d) j"
      by (cases "d = c") (auto simp: deliver(1,2) less_Suc_eq)
    moreover have "j < length (sinks s)" using that(2) by (simp add: deliver(1))
    ultimately show ?thesis using inv grows that(3) kind by (simp add: logged_ok_def)
  qed
  then show ?thesis by (simp add: logged_ok_def)
next
  case (delivered c k errs)
  with inv show ?thesis by (auto simp: logged_ok_def split: if_splits)
qed (use inv in \<open>auto simp: logged_ok_def split: if_splits\<close>)

text \<open>All three hold in every state a fresh router can come to.\<close>

lemma reachable_ok:
  assumes "(audit_step env pay)\<^sup>*\<^sup>* (fresh_run ss) s"
  shows "indices_ok s \<and> hashes_ok env pay s \<and> logged_ok pay s"
  using assms
proof induction
  case base
  show ?case by (simp add: indices_ok_def hashes_ok_def logged_ok_def fresh_run_def new_router_def router_ok_def)
next
  case (step s s')
  then show ?case by (blast intro: indices_ok_step hashes_ok_step logged_ok_step)
qed

section \<open>Runs of one call\<close>

abbreviation audit_steps :: "audit_env \<Rightarrow> (nat \<Rightarrow> payload) \<Rightarrow> audit_run \<Rightarrow> audit_run \<Rightarrow> bool" where
  "audit_steps env pay \<equiv> (audit_step env pay)\<^sup>*\<^sup>*"

lemma steps_step: "audit_steps env pay s t \<Longrightarrow> audit_step env pay t u \<Longrightarrow> audit_steps env pay s u"
  by (rule rtranclp.rtrancl_into_rtrancl)

lemma scan_run:
  assumes "ar_pc s c = Scanning 0" and "k \<le> length (ring s)"
    and "\<And>i. i < k \<Longrightarrow> ring s ! i \<noteq> payload_hash env (pay c)"
  shows "audit_steps env pay s (set_pc c (Scanning k) s)"
  using assms(2,3)
proof (induction k)
  case 0
  then show ?case using set_pc_same [OF assms(1)] by simp
next
  case (Suc k)
  have "audit_step env pay (set_pc c (Scanning k) s) (set_pc c (Scanning (k + 1)) (set_pc c (Scanning k) s))"
    using Suc.prems by (intro audit_step.unseen) auto
  with Suc show ?case by (auto intro: steps_step)
qed

lemma skip_run:
  assumes "ar_pc s c = Scanning 0" and "payload_hash env (pay c) \<in> set (ring s)"
  shows "audit_steps env pay s (set_pc c Skipped s)"
proof -
  define k where "k = (LEAST k. k < length (ring s) \<and> ring s ! k = payload_hash env (pay c))"
  have "\<exists>k. k < length (ring s) \<and> ring s ! k = payload_hash env (pay c)"
    using assms(2) by (simp add: in_set_conv_nth)
  then have k: "k < length (ring s) \<and> ring s ! k = payload_hash env (pay c)"
    unfolding k_def by (rule LeastI_ex)
  have "ring s ! i \<noteq> payload_hash env (pay c)" if "i < k" for i
    using not_less_Least [OF that [unfolded k_def]] k that by auto
  then have "audit_steps env pay s (set_pc c (Scanning k) s)"
    using k by (intro scan_run [OF assms(1)]) auto
  moreover have "audit_step env pay (set_pc c (Scanning k) s) (set_pc c Skipped (set_pc c (Scanning k) s))"
    using k by (intro audit_step.seen) auto
  ultimately show ?thesis by (auto intro: steps_step)
qed

text \<open>A call that has not seen its hash comes to the point where it writes its slot.\<close>

lemma claim_run:
  assumes "ar_pc s c = Scanning 0" and "payload_hash env (pay c) \<notin> set (ring s)"
  shows "audit_steps env pay s (set_pc c (WriteSlot (rt_index (ar_router s))) s)"
proof -
  let ?scanned = "set_pc c (Scanning (length (ring s))) s" and ?ready = "set_pc c ReadIndex s"
  have "audit_steps env pay s ?scanned"
    using assms(2) by (intro scan_run [OF assms(1)]) (auto simp: in_set_conv_nth)
  moreover have "audit_step env pay ?scanned (set_pc c ReadIndex ?scanned)"
    by (intro audit_step.scanned) auto
  moreover have "audit_step env pay ?ready (set_pc c (WriteSlot (rt_index (ar_router ?ready))) ?ready)"
    by (intro audit_step.read_index) auto
  ultimately show ?thesis by (auto intro: steps_step)
qed

text \<open>From there it writes the slot, and increases the index by two more accesses.\<close>

lemma advance_run:
  assumes "ar_pc s c = ReadAgain"
  shows "audit_steps env pay s
    (set_pc c (Delivering 0 [])
      (s\<lparr>ar_router := (ar_router s)\<lparr>rt_index := (rt_index (ar_router s) + 1) mod length (ring s)\<rparr>\<rparr>))"
proof -
  let ?i = "rt_index (ar_router s)"
  let ?t = "set_pc c (WriteIndex ?i) s"
  have "audit_step env pay s ?t" using assms by (rule audit_step.read_again)
  moreover have "audit_step env pay ?t (set_pc c (Delivering 0 [])
      (?t\<lparr>ar_router := (ar_router ?t)\<lparr>rt_index := (?i + 1) mod length (ring ?t)\<rparr>\<rparr>))"
    by (rule audit_step.write_index) simp
  ultimately show ?thesis by (auto intro: steps_step)
qed

lemma delivery_run:
  assumes "ar_pc s c = Delivering (length pre) errs" and "sinks s = pre @ rest"
    and "record_sinks env (pay c) rest = (es, rest')"
  shows "audit_steps env pay s
    (set_pc c (Delivered (errs @ es)) (s\<lparr>ar_router := (ar_router s)\<lparr>rt_sinks := pre @ rest'\<rparr>\<rparr>))"
  using assms
proof (induction rest arbitrary: s pre errs es rest')
  case Nil
  then have "audit_step env pay s (set_pc c (Delivered errs) s)"
    by (intro audit_step.delivered) auto
  moreover have "s\<lparr>ar_router := (ar_router s)\<lparr>rt_sinks := pre\<rparr>\<rparr> = s"
    using Nil.prems(2) by (cases s; cases "ar_router s") simp
  ultimately show ?case using Nil.prems(3) by auto
next
  case (Cons x rest)
  obtain e x' where x: "sink_record env (pay c) x = (e, x')" by fastforce
  obtain es1 rest1 where r: "record_sinks env (pay c) rest = (es1, rest1)" by fastforce
  let ?errs = "errs @ (case e of None \<Rightarrow> [] | Some y \<Rightarrow> [y])"
  let ?s = "set_pc c (Delivering (length pre + 1) ?errs)
      (s\<lparr>ar_router := (ar_router s)\<lparr>rt_sinks := pre @ x' # rest\<rparr>\<rparr>)"
  have "audit_step env pay s (set_pc c (Delivering (length pre + 1) ?errs)
      (s\<lparr>ar_router := (ar_router s)\<lparr>rt_sinks := (sinks s)[length pre := x']\<rparr>\<rparr>))"
    by (rule audit_step.deliver [OF Cons.prems(1)]) (use Cons.prems(2) x in simp_all)
  then have "audit_step env pay s ?s" using Cons.prems(2) by simp
  moreover have "audit_steps env pay ?s (set_pc c (Delivered (?errs @ es1))
      (?s\<lparr>ar_router := (ar_router ?s)\<lparr>rt_sinks := (pre @ [x']) @ rest1\<rparr>\<rparr>))"
    by (rule Cons.IH) (use r in simp_all)
  ultimately have "audit_steps env pay s (set_pc c (Delivered (?errs @ es1))
      (s\<lparr>ar_router := (ar_router s)\<lparr>rt_sinks := pre @ x' # rest1\<rparr>\<rparr>))"
    by (auto intro: converse_rtranclp_into_rtranclp)
  moreover have "?errs @ es1 = errs @ es" "rest' = x' # rest1"
    using Cons.prems(3) x r by (auto simp: Let_def split: option.splits)
  ultimately show ?case by simp
qed

text \<open>A whole call without interference.\<close>

lemma undisturbed_run:
  assumes "router_ok (ar_router s)" and "ar_pc s c = Scanning 0"
    and "record_all env (pay c) (ar_router s) = Returns (errs, rt')"
  shows "audit_steps env pay s
    (set_pc c (if payload_hash env (pay c) \<in> set (ring s) then Skipped else Delivered errs)
      (s\<lparr>ar_router := rt'\<rparr>))"
proof (cases "payload_hash env (pay c) \<in> set (ring s)")
  case True
  with assms(3) have "s\<lparr>ar_router := rt'\<rparr> = s" by (cases s) (simp add: record_all_seen)
  with True skip_run [OF assms(2), of env pay] show ?thesis by simp
next
  case False
  let ?i = "rt_index (ar_router s)" and ?h = "payload_hash env (pay c)"
  let ?rt1 = "(ar_router s)\<lparr>rt_recent := (ring s)[?i := ?h]\<rparr>"
  let ?rt2 = "?rt1\<lparr>rt_index := (?i + 1) mod length (ring s)\<rparr>"
  obtain es ss where ss: "record_sinks env (pay c) (sinks s) = (es, ss)" by fastforce
  have i: "?i < length (ring s)" using assms(1) by (simp add: router_ok_def)
  then have out: "errs = es" "rt' = ?rt2\<lparr>rt_sinks := ss\<rparr>"
    using assms(3) False ss by (simp_all add: record_all_def record_hash_def Let_def)
  have "audit_steps env pay s (set_pc c (WriteSlot ?i) s)"
    using claim_run [OF assms(2), of env pay] False by simp
  moreover have "audit_step env pay (set_pc c (WriteSlot ?i) s) (set_pc c ReadAgain (s\<lparr>ar_router := ?rt1\<rparr>))"
    using audit_step.write_slot [of "set_pc c (WriteSlot ?i) s" c ?i] i by simp
  moreover have "audit_steps env pay (set_pc c ReadAgain (s\<lparr>ar_router := ?rt1\<rparr>))
      (set_pc c (Delivering 0 []) (s\<lparr>ar_router := ?rt2\<rparr>))"
    using advance_run [of "set_pc c ReadAgain (s\<lparr>ar_router := ?rt1\<rparr>)" c env pay] by simp
  moreover have "audit_steps env pay (set_pc c (Delivering 0 []) (s\<lparr>ar_router := ?rt2\<rparr>))
      (set_pc c (Delivered es) (s\<lparr>ar_router := ?rt2\<lparr>rt_sinks := ss\<rparr>\<rparr>))"
    using delivery_run [of "set_pc c (Delivering 0 []) (s\<lparr>ar_router := ?rt2\<rparr>)" c "[]" "[]" "sinks s"] ss
    by simp
  ultimately have "audit_steps env pay s (set_pc c (Delivered es) (s\<lparr>ar_router := ?rt2\<lparr>rt_sinks := ss\<rparr>\<rparr>))"
    by (blast intro: steps_step rtranclp_trans)
  with False out show ?thesis by simp
qed

section \<open>Properties\<close>

text \<open>
  C16: A call that runs without interference is \<open>record_all\<close>: the steps are those of the
  sequential router, from any state in which the call arrives.
\<close>

theorem undisturbed_call_is_record_all:
  assumes "router_ok (ar_router s)" and "ar_pc s c = Scanning 0"
    and "record_all env (pay c) (ar_router s) = Returns (errs, rt')"
  shows "audit_steps env pay s
    (set_pc c (if payload_hash env (pay c) \<in> set (ring s) then Skipped else Delivered errs)
      (s\<lparr>ar_router := rt'\<rparr>))"
  using assms by (rule undisturbed_run)

text \<open>
  C15: Concurrent requests lose no audit record, whatever the interleaving of their accesses to
  a fresh router. No call ever writes outside the ring, in any reachable state. Every call
  that has delivered has its own payload in every Cloud Logging sink. And once no call is
  between marking its hash and the end of its delivery, for every call that has returned,
  also one that skipped the delivery, every Cloud Logging sink holds a payload with the hash
  of its payload. Assumed is that one access to a slot of the ring is atomic: a string read
  half before and half after a racing write, two words in Go, and a crash from it, are not
  covered.
\<close>

theorem concurrent_audit_is_complete:
  assumes "audit_steps env pay (fresh_run ss) s"
  shows "(\<forall>c. ar_pc s c \<noteq> Crashed) \<and>
    (\<forall>c errs j. ar_pc s c = Delivered errs \<longrightarrow> j < length (sinks s) \<longrightarrow> is_logging (sinks s ! j) \<longrightarrow>
       pay c \<in> set (accepted (sinks s ! j))) \<and>
    ((\<forall>d. marked (ar_pc s d) \<longrightarrow> (\<exists>errs. ar_pc s d = Delivered errs)) \<longrightarrow>
     (\<forall>c j. ar_pc s c \<in> {Skipped} \<union> range Delivered \<longrightarrow> j < length (sinks s) \<longrightarrow> is_logging (sinks s ! j) \<longrightarrow>
        (\<exists>p \<in> set (accepted (sinks s ! j)). payload_hash env p = payload_hash env (pay c))))"
proof -
  note inv = reachable_ok [OF assms]
  have alive: "ar_pc s c \<noteq> Crashed" for c
    using inv pc_ok.simps(3) unfolding indices_ok_def by metis
  have own: "pay c \<in> set (accepted (sinks s ! j))"
    if "ar_pc s c = Delivered errs" "j < length (sinks s)" "is_logging (sinks s ! j)" for c errs j
    using inv that handed.simps(2) [of errs j] unfolding logged_ok_def by metis
  have covered: "\<exists>p \<in> set (accepted (sinks s ! j)). payload_hash env p = payload_hash env (pay c)"
    if quiet: "\<forall>d. marked (ar_pc s d) \<longrightarrow> (\<exists>errs. ar_pc s d = Delivered errs)"
      and returned: "ar_pc s c \<in> {Skipped} \<union> range Delivered" and sink: "j < length (sinks s)" "is_logging (sinks s ! j)"
    for c j
  proof -
    consider "ar_pc s c = Skipped" | errs where "ar_pc s c = Delivered errs" using returned by blast
    then obtain d where d: "marked (ar_pc s d)" "payload_hash env (pay d) = payload_hash env (pay c)"
    proof cases
      case 1
      with inv that show ?thesis unfolding hashes_ok_def by blast
    next
      case 2
      then show ?thesis by (intro that [of c]) simp_all
    qed
    from quiet d(1) obtain errs where "ar_pc s d = Delivered errs" by blast
    from own [OF this sink] d(2) show ?thesis by blast
  qed
  show ?thesis
    by (intro conjI allI impI) (use alive own covered in blast)+
qed

text \<open>
  Two calls with one payload. The first has claimed its slot; the second either finds the
  hash there, or has scanned the ring before it was written.
\<close>

lemma fresh_run_fields [simp]:
  "ar_pc (fresh_run ss) c = Scanning 0" "rt_index (ar_router (fresh_run ss)) = 0"
  "ring (fresh_run ss) = replicate 100 []" "sinks (fresh_run ss) = ss"
  by (simp_all add: fresh_run_def new_router_def)

lemma first_claims:
  "audit_steps env (\<lambda>_. p) (fresh_run ss) (set_pc 0 (WriteSlot 0) (fresh_run ss))"
  using claim_run [of "fresh_run ss" 0 env "\<lambda>_. p"] by simp

lemma both_claim:
  "audit_steps env (\<lambda>_. p) (fresh_run ss) (set_pc 1 (WriteSlot 0) (set_pc 0 (WriteSlot 0) (fresh_run ss)))"
  using first_claims claim_run [of "set_pc 0 (WriteSlot 0) (fresh_run ss)" 1 env "\<lambda>_. p"]
  by (auto intro: rtranclp_trans)

lemma write_and_deliver:
  assumes "ar_pc s c = WriteSlot i" and "i < length (ring s)" and "sinks s = [CloudLogging es]"
  shows "\<exists>rt. audit_steps env pay s (set_pc c (Delivered []) (s\<lparr>ar_router := rt\<rparr>)) \<and>
    length (rt_recent rt) = length (ring s) \<and>
    rt_sinks rt = [CloudLogging (es @ [\<lparr>le_payload = pay c, le_timestamp = pl_start (pay c)\<rparr>])]"
proof -
  let ?rt1 = "(ar_router s)\<lparr>rt_recent := (ring s)[i := payload_hash env (pay c)]\<rparr>"
  let ?rt2 = "?rt1\<lparr>rt_index := (rt_index (ar_router s) + 1) mod length (ring s)\<rparr>"
  let ?ss = "[CloudLogging (es @ [\<lparr>le_payload = pay c, le_timestamp = pl_start (pay c)\<rparr>])]"
  have "audit_step env pay s (set_pc c ReadAgain (s\<lparr>ar_router := ?rt1\<rparr>))"
    using assms(1,2) by (rule audit_step.write_slot)
  moreover have "audit_steps env pay (set_pc c ReadAgain (s\<lparr>ar_router := ?rt1\<rparr>))
      (set_pc c (Delivering 0 []) (s\<lparr>ar_router := ?rt2\<rparr>))"
    using advance_run [of "set_pc c ReadAgain (s\<lparr>ar_router := ?rt1\<rparr>)" c env pay] by simp
  moreover have "audit_steps env pay (set_pc c (Delivering 0 []) (s\<lparr>ar_router := ?rt2\<rparr>))
      (set_pc c (Delivered []) (s\<lparr>ar_router := ?rt2\<lparr>rt_sinks := ?ss\<rparr>\<rparr>))"
    using delivery_run [of "set_pc c (Delivering 0 []) (s\<lparr>ar_router := ?rt2\<rparr>)" c "[]" "[]"
        "[CloudLogging es]" env pay "[]" ?ss] assms(3)
    by simp
  ultimately have "audit_steps env pay s (set_pc c (Delivered []) (s\<lparr>ar_router := ?rt2\<lparr>rt_sinks := ?ss\<rparr>\<rparr>))"
    by (blast intro: converse_rtranclp_into_rtranclp rtranclp_trans)
  then show ?thesis by (intro exI [of _ "?rt2\<lparr>rt_sinks := ?ss\<rparr>"]) simp
qed

text \<open>
  C38: Without a lock the window of recent hashes is not one. A second request with the payload
  of a first can return, and so be admitted, while no sink has been handed anything; and
  both requests can be delivered, so that the sink holds the payload twice.
\<close>

theorem concurrent_duplicates_slip_through:
  "(\<exists>s. audit_steps env (\<lambda>_. p) (fresh_run ss) s \<and> ar_pc s 1 = Skipped \<and> sinks s = ss) \<and>
   (\<exists>s. audit_steps env (\<lambda>_. p) (fresh_run [CloudLogging []]) s \<and>
      ar_pc s 0 = Delivered [] \<and> ar_pc s 1 = Delivered [] \<and> map accepted (sinks s) = [[p, p]])"
proof
  let ?pay = "\<lambda>_ :: nat. p"
  let ?s = "set_pc 0 (WriteSlot 0) (fresh_run ss)"
  let ?t = "set_pc 0 ReadAgain
      (?s\<lparr>ar_router := (ar_router ?s)\<lparr>rt_recent := (ring ?s)[0 := payload_hash env p]\<rparr>\<rparr>)"
  have "audit_step env ?pay ?s ?t" by (rule audit_step.write_slot) simp_all
  moreover have "audit_steps env ?pay ?t (set_pc 1 Skipped ?t)"
    by (rule skip_run) (auto simp: set_conv_nth intro!: exI [of _ 0])
  ultimately have "audit_steps env ?pay (fresh_run ss) (set_pc 1 Skipped ?t)"
    using first_claims by (blast intro: steps_step rtranclp_trans)
  moreover have "ar_pc (set_pc 1 Skipped ?t) 1 = Skipped" "sinks (set_pc 1 Skipped ?t) = ss" by simp_all
  ultimately show "\<exists>s. audit_steps env ?pay (fresh_run ss) s \<and> ar_pc s 1 = Skipped \<and> sinks s = ss"
    by (intro exI [of _ "set_pc 1 Skipped ?t"] conjI)
next
  let ?pay = "\<lambda>_ :: nat. p"
  let ?e = "\<lparr>le_payload = p, le_timestamp = pl_start p\<rparr>"
  let ?s = "set_pc 1 (WriteSlot 0) (set_pc 0 (WriteSlot 0) (fresh_run [CloudLogging []]))"
  obtain rt where rt: "audit_steps env ?pay ?s (set_pc 0 (Delivered []) (?s\<lparr>ar_router := rt\<rparr>))"
      "length (rt_recent rt) = 100" "rt_sinks rt = [CloudLogging [?e]]"
    using write_and_deliver [of ?s 0 0 "[]" env ?pay] by auto
  let ?t = "set_pc 0 (Delivered []) (?s\<lparr>ar_router := rt\<rparr>)"
  obtain rt' where rt': "audit_steps env ?pay ?t (set_pc 1 (Delivered []) (?t\<lparr>ar_router := rt'\<rparr>))"
      "rt_sinks rt' = [CloudLogging [?e, ?e]]"
    using write_and_deliver [of ?t 1 0 "[?e]" env ?pay] rt(2,3) by auto
  let ?u = "set_pc 1 (Delivered []) (?t\<lparr>ar_router := rt'\<rparr>)"
  have "audit_steps env ?pay (fresh_run [CloudLogging []]) ?u"
    using both_claim rt(1) rt'(1) by (blast intro: rtranclp_trans)
  moreover have "ar_pc ?u 0 = Delivered []" "ar_pc ?u 1 = Delivered []" "map accepted (sinks ?u) = [[p, p]]"
    using rt'(2) by simp_all
  ultimately show "\<exists>s. audit_steps env ?pay (fresh_run [CloudLogging []]) s \<and>
      ar_pc s 0 = Delivered [] \<and> ar_pc s 1 = Delivered [] \<and> map accepted (sinks s) = [[p, p]]"
    by (intro exI [of _ ?u] conjI)
qed

section \<open>Witnesses\<close>

text \<open>One call that delivers to one Cloud Logging sink, and a second one that finds its hash.\<close>

lemma fresh_run_router: "ar_router (fresh_run ss) = new_router ss"
  by (simp add: fresh_run_def)

abbreviation example_run :: audit_run where
  "example_run \<equiv> fresh_run [CloudLogging []]"

abbreviation example_hash :: string where
  "example_hash \<equiv> payload_hash example_audit_env example_payload"

lemma example_call:
  obtains rt where
    "record_all example_audit_env example_payload (ar_router example_run) = Returns ([], rt)"
    "map accepted (rt_sinks rt) = [[example_payload]]" "length (rt_sinks rt) = 1"
    "is_logging (rt_sinks rt ! 0)" "example_hash \<in> set (rt_recent rt)"
proof -
  let ?ss = "[CloudLogging []]"
  obtain rt where rt: "record_all example_audit_env example_payload (new_router ?ss)
      = Returns (List.map_filter (\<lambda>s. fst (sink_record example_audit_env example_payload s)) (rt_sinks (new_router ?ss)), rt)"
      "ring_window rt = tl (ring_window (new_router ?ss)) @ [example_hash]"
      "rt_sinks rt = map (\<lambda>s. snd (sink_record example_audit_env example_payload s)) (rt_sinks (new_router ?ss))"
    using record_all_fresh [OF router_ok_new example_not_recent] by blast
  have sinks: "rt_sinks (new_router ?ss) = ?ss" by (simp add: new_router_def)
  have "example_hash \<in> set (ring_window rt)" unfolding rt(2) by simp
  with rt(1,3) show ?thesis
    unfolding sinks by (intro that [of rt]) (simp_all add: fresh_run_router List.map_filter_def)
qed

definition example_after :: "router \<Rightarrow> audit_run" where
  "example_after rt = set_pc 0 (Delivered []) (example_run\<lparr>ar_router := rt\<rparr>)"

lemma example_after_fields [simp]:
  "ar_router (example_after rt) = rt" "ar_pc (example_after rt) d = (if d = 0 then Delivered [] else Scanning 0)"
  by (simp_all add: example_after_def)

theorem undisturbed_call_is_record_all_witness:
  "\<exists>rt. audit_steps example_audit_env (\<lambda>_. example_payload) example_run (example_after rt) \<and>
     length (rt_sinks rt) = 1 \<and> is_logging (rt_sinks rt ! 0) \<and> example_hash \<in> set (rt_recent rt)"
proof (rule example_call)
  fix rt
  assume run: "record_all example_audit_env example_payload (ar_router example_run) = Returns ([], rt)"
    and rest: "length (rt_sinks rt) = 1" "is_logging (rt_sinks rt ! 0)" "example_hash \<in> set (rt_recent rt)"
  have "router_ok (ar_router example_run)" unfolding fresh_run_router by (rule router_ok_new)
  moreover have "example_hash \<notin> set (ring example_run)" by simp
  ultimately have "audit_steps example_audit_env (\<lambda>_. example_payload) example_run (example_after rt)"
    using undisturbed_call_is_record_all [OF _ fresh_run_fields(1), where pay = "\<lambda>_. example_payload", OF _ run]
    by (simp only: example_after_def simp_thms if_False)
  with rest show ?thesis by (intro exI [of _ rt] conjI)
qed

lemma example_quiet: "marked (ar_pc (set_pc 1 Skipped (example_after rt)) d) \<Longrightarrow>
  \<exists>errs. ar_pc (set_pc 1 Skipped (example_after rt)) d = Delivered errs"
  by (auto simp: example_after_def split: if_splits)

lemma example_delivered:
  obtains rt where "audit_steps example_audit_env (\<lambda>_. example_payload) example_run (example_after rt)"
    "length (rt_sinks rt) = 1" "is_logging (rt_sinks rt ! 0)" "example_hash \<in> set (rt_recent rt)"
proof (rule example_call)
  fix rt
  assume run: "record_all example_audit_env example_payload (ar_router example_run) = Returns ([], rt)"
    and rest: "length (rt_sinks rt) = 1" "is_logging (rt_sinks rt ! 0)" "example_hash \<in> set (rt_recent rt)"
  have "router_ok (ar_router example_run)" unfolding fresh_run_router by (rule router_ok_new)
  moreover have "example_hash \<notin> set (ring example_run)" by simp
  ultimately have "audit_steps example_audit_env (\<lambda>_. example_payload) example_run (example_after rt)"
    using undisturbed_run [OF _ fresh_run_fields(1), where pay = "\<lambda>_. example_payload", OF _ run]
    by (simp only: example_after_def simp_thms if_False)
  then show ?thesis using rest by (rule that)
qed

theorem concurrent_audit_is_complete_witness:
  "\<exists>s. audit_steps example_audit_env (\<lambda>_. example_payload) example_run s \<and> ar_pc s 1 = Skipped \<and>
     (\<exists>p \<in> set (accepted (sinks s ! 0)). payload_hash example_audit_env p = example_hash)"
proof (rule example_delivered)
  fix rt
  assume run: "audit_steps example_audit_env (\<lambda>_. example_payload) example_run (example_after rt)"
    and rest: "length (rt_sinks rt) = 1" "is_logging (rt_sinks rt ! 0)" "example_hash \<in> set (rt_recent rt)"
  let ?s = "set_pc 1 Skipped (example_after rt)"
  have "audit_steps example_audit_env (\<lambda>_. example_payload) (example_after rt) ?s"
    by (rule skip_run) (use rest in simp_all)
  with run have "audit_steps example_audit_env (\<lambda>_. example_payload) example_run ?s"
    by (rule rtranclp_trans)
  moreover have "\<exists>p \<in> set (accepted (sinks ?s ! 0)).
      payload_hash example_audit_env p = payload_hash example_audit_env example_payload"
  proof -
    have "ar_pc ?s 1 \<in> {Skipped} \<union> range Delivered" "0 < length (sinks ?s)" "is_logging (sinks ?s ! 0)"
      using rest by simp_all
    with concurrent_audit_is_complete [OF calculation] example_quiet [of rt] show ?thesis by blast
  qed
  ultimately show ?thesis by (intro exI [of _ ?s] conjI) simp_all
qed

end
