(* ===== verification/Command_Line.thy ===== *)
theory Command_Line
  imports Main_Setup
begin

text \<open>
  \<^verbatim>\<open>cmd/main.go\<close> up to the manager: the flags of the operator, parsed as the package \<^verbatim>\<open>flag\<close>
  of the Go library does, and the options the manager is created with. The flags that other
  packages register (those of the logger and of the Kubernetes client) are the parameter
  \<open>extra_flags\<close>.
\<close>

section \<open>The package flag\<close>

datatype flag_error =
    BadFlagSyntax string
  | FlagNotDefined string
  | HelpRequested
  | InvalidFlagValue string string
  | FlagNeedsArgument string

text \<open>\<^verbatim>\<open>strconv.ParseBool\<close>.\<close>

definition parse_bool :: "string \<Rightarrow> bool option" where
  "parse_bool s =
     (if s \<in> set [''1'', ''t'', ''T'', ''TRUE'', ''true'', ''True''] then Some True
      else if s \<in> set [''0'', ''f'', ''F'', ''FALSE'', ''false'', ''False''] then Some False
      else None)"

text \<open>
  What is left of an argument without its dashes: the name, and the value if there is an
  equals sign after the first character.
\<close>

definition split_value :: "string \<Rightarrow> string \<times> string option" where
  "split_value s =
     (let name = takeWhile (\<lambda>c. c \<noteq> CHR ''='') s
      in (name, if CHR ''='' \<in> set s then Some (drop (length name + 1) s) else None))"

text \<open>
  For each flag of another package: whether it is boolean, and the error of setting it.
\<close>

type_synonym extra_flags = "string \<Rightarrow> (bool \<times> (string \<Rightarrow> string option)) option"

section \<open>The flags of the operator\<close>

record operator_flags =
  fl_metrics_addr :: string
  fl_probe_addr :: string
  fl_leader_elect :: bool
  fl_secure_metrics :: bool
  fl_enable_http2 :: bool

definition default_flags :: operator_flags where
  "default_flags = \<lparr>fl_metrics_addr = '':8080'', fl_probe_addr = '':8081'', fl_leader_elect = False,
     fl_secure_metrics = False, fl_enable_http2 = False\<rparr>"

text \<open>Whether a flag is defined, and boolean.\<close>

definition flag_kind :: "extra_flags \<Rightarrow> string \<Rightarrow> bool option" where
  "flag_kind ext name =
     (if name \<in> set [''metrics-bind-address'', ''health-probe-bind-address''] then Some False
      else if name \<in> set [''leader-elect'', ''metrics-secure'', ''enable-http2''] then Some True
      else map_option fst (ext name))"

definition set_bool_flag ::
  "string \<Rightarrow> string \<Rightarrow> (bool \<Rightarrow> operator_flags) \<Rightarrow> flag_error + operator_flags" where
  "set_bool_flag name v set_it =
     (case parse_bool v of None \<Rightarrow> Inl (InvalidFlagValue name v) | Some b \<Rightarrow> Inr (set_it b))"

definition set_flag ::
  "extra_flags \<Rightarrow> string \<Rightarrow> string \<Rightarrow> operator_flags \<Rightarrow> flag_error + operator_flags" where
  "set_flag ext name v fl =
     (if name = ''metrics-bind-address'' then Inr (fl\<lparr>fl_metrics_addr := v\<rparr>)
      else if name = ''health-probe-bind-address'' then Inr (fl\<lparr>fl_probe_addr := v\<rparr>)
      else if name = ''leader-elect'' then set_bool_flag name v (\<lambda>b. fl\<lparr>fl_leader_elect := b\<rparr>)
      else if name = ''metrics-secure'' then set_bool_flag name v (\<lambda>b. fl\<lparr>fl_secure_metrics := b\<rparr>)
      else if name = ''enable-http2'' then set_bool_flag name v (\<lambda>b. fl\<lparr>fl_enable_http2 := b\<rparr>)
      else case ext name of
             None \<Rightarrow> Inl (FlagNotDefined name)
           | Some (_, setter) \<Rightarrow>
               (case setter v of Some e \<Rightarrow> Inl (InvalidFlagValue name v) | None \<Rightarrow> Inr fl))"

text \<open>
  Parsing stops at the first argument that is not a flag, or after two dashes. A boolean
  flag takes its value only after an equals sign, any other flag also from the next
  argument. The result has the arguments left over.
\<close>

fun parse_flags ::
  "extra_flags \<Rightarrow> string list \<Rightarrow> operator_flags \<Rightarrow> flag_error + operator_flags \<times> string list" where
  "parse_flags ext [] fl = Inr (fl, [])"
| "parse_flags ext (s # args) fl =
     (if length s < 2 \<or> s ! 0 \<noteq> CHR ''-'' then Inr (fl, s # args)
      else if s = ''--'' then Inr (fl, args)
      else
        let arg = drop (if s ! 1 = CHR ''-'' then 2 else 1) s
        in if arg ! 0 = CHR ''-'' \<or> arg ! 0 = CHR ''='' then Inl (BadFlagSyntax s)
           else
             let (name, value) = split_value arg
             in case flag_kind ext name of
                  None \<Rightarrow> Inl (if name = ''help'' \<or> name = ''h'' then HelpRequested else FlagNotDefined name)
                | Some True \<Rightarrow>
                    (case set_flag ext name (case value of None \<Rightarrow> ''true'' | Some v \<Rightarrow> v) fl of
                       Inl e \<Rightarrow> Inl e | Inr fl' \<Rightarrow> parse_flags ext args fl')
                | Some False \<Rightarrow>
                    (case value of
                       Some v \<Rightarrow>
                         (case set_flag ext name v fl of
                            Inl e \<Rightarrow> Inl e | Inr fl' \<Rightarrow> parse_flags ext args fl')
                     | None \<Rightarrow>
                         (case args of
                            [] \<Rightarrow> Inl (FlagNeedsArgument name)
                          | v # rest \<Rightarrow>
                              (case set_flag ext name v fl of
                                 Inl e \<Rightarrow> Inl e | Inr fl' \<Rightarrow> parse_flags ext rest fl'))))"

section \<open>The options of the manager\<close>

record manager_options =
  mo_metrics_addr :: string
  mo_secure_metrics :: bool
  mo_tls :: "(tls_config \<Rightarrow> tls_config) list"
  mo_probe_addr :: string
  mo_leader_election :: bool
  mo_leader_election_id :: string

text \<open>The same TLS options are given to the metrics server and to the webhook server.\<close>

definition manager_options_of :: "operator_flags \<Rightarrow> manager_options" where
  "manager_options_of fl =
     \<lparr>mo_metrics_addr = fl_metrics_addr fl, mo_secure_metrics = fl_secure_metrics fl,
      mo_tls = tls_opts (fl_enable_http2 fl), mo_probe_addr = fl_probe_addr fl,
      mo_leader_election = fl_leader_elect fl, mo_leader_election_id = ''3ab6dba2.ssb.no''\<rparr>"

text \<open>
  The whole of \<^verbatim>\<open>main\<close> up to the start of the manager. \<^verbatim>\<open>flag.Parse\<close> exits with the code 2 on
  an error and with 0 when help was asked for, \<^verbatim>\<open>os.Exit(1)\<close> ends every other failure; the
  reason is what was logged. \<open>kube_config\<close> is the error of \<^verbatim>\<open>GetConfigOrDie\<close>.
\<close>

record environment =
  en_extra_flags :: extra_flags
  en_kube_config :: "string option"
  en_new_manager :: "manager_options \<Rightarrow> string option"
  en_boot :: boot

datatype exit_cause = FlagExit flag_error | NoKubeConfig string | SetupExit exit_reason

definition operator_main ::
  "environment \<Rightarrow> string list \<Rightarrow> (nat \<times> exit_cause) + (manager_options \<times> operator)" where
  "operator_main en args =
     (case parse_flags (en_extra_flags en) args default_flags of
        Inl e \<Rightarrow> Inl (if e = HelpRequested then 0 else 2, FlagExit e)
      | Inr (fl, _) \<Rightarrow>
          (case en_kube_config en of
             Some e \<Rightarrow> Inl (1, NoKubeConfig e)
           | None \<Rightarrow>
               let opts = manager_options_of fl;
                   b = (en_boot en)\<lparr>bt_enable_http2 := fl_enable_http2 fl,
                          bt_new_manager := en_new_manager en opts\<rparr>
               in case start_operator b of
                    Inl reason \<Rightarrow> Inl (1, SetupExit reason)
                  | Inr op \<Rightarrow> Inr (opts, op)))"

section \<open>Lemmas\<close>

text \<open>The name of the flag an argument gives, if it is one.\<close>

definition flag_name :: "string \<Rightarrow> string" where
  "flag_name s = fst (split_value (dropWhile (\<lambda>c. c = CHR ''-'') s))"

lemma flag_name_eq:
  assumes "\<not> (length s < 2 \<or> s ! 0 \<noteq> CHR ''-'')" and "s \<noteq> ''--''"
    and "drop (if s ! 1 = CHR ''-'' then 2 else 1) s ! 0 \<noteq> CHR ''-''"
  shows "flag_name s = fst (split_value (drop (if s ! 1 = CHR ''-'' then 2 else 1) s))"
proof -
  obtain x r where s: "s = CHR ''-'' # x # r"
    using assms(1) by (cases s; cases "tl s") (auto simp: not_less)
  show ?thesis
  proof (cases "x = CHR ''-''")
    case True
    with s assms(2) obtain y r' where r: "r = y # r'" by (cases r) auto
    with s True assms(3) show ?thesis by (simp add: flag_name_def)
  next
    case False
    with s show ?thesis by (simp add: flag_name_def)
  qed
qed

text \<open>One flag that was accepted, and what parsing goes on with.\<close>

lemma parse_flags_cases:
  assumes "parse_flags ext (s # args) fl = Inr (fl', left)"
  obtains (stop) "fl' = fl"
  | (flag) v fl1 rest where "set_flag ext (flag_name s) v fl = Inr fl1" "set rest \<subseteq> set args"
      "length rest \<le> length args" "parse_flags ext rest fl1 = Inr (fl', left)"
proof -
  let ?arg = "drop (if s ! 1 = CHR ''-'' then 2 else 1) s"
  consider "length s < 2 \<or> s ! 0 \<noteq> CHR ''-''" | "s = ''--''"
    | "\<not> (length s < 2 \<or> s ! 0 \<noteq> CHR ''-'')" "s \<noteq> ''--''" "?arg ! 0 = CHR ''-'' \<or> ?arg ! 0 = CHR ''=''"
    | "\<not> (length s < 2 \<or> s ! 0 \<noteq> CHR ''-'')" "s \<noteq> ''--''" "\<not> (?arg ! 0 = CHR ''-'' \<or> ?arg ! 0 = CHR ''='')"
    by blast
  then show thesis
  proof cases
    case 4
    obtain name vl where nv: "split_value ?arg = (name, vl)" by fastforce
    have name: "flag_name s = name" using flag_name_eq [OF 4(1,2)] 4(3) nv by simp
    have run: "parse_flags ext (s # args) fl =
       (case flag_kind ext name of
          None \<Rightarrow> Inl (if name = ''help'' \<or> name = ''h'' then HelpRequested else FlagNotDefined name)
        | Some True \<Rightarrow>
            (case set_flag ext name (case vl of None \<Rightarrow> ''true'' | Some v \<Rightarrow> v) fl of
               Inl e \<Rightarrow> Inl e | Inr fl' \<Rightarrow> parse_flags ext args fl')
        | Some False \<Rightarrow>
            (case vl of
               Some v \<Rightarrow> (case set_flag ext name v fl of Inl e \<Rightarrow> Inl e | Inr fl' \<Rightarrow> parse_flags ext args fl')
             | None \<Rightarrow>
                 (case args of
                    [] \<Rightarrow> Inl (FlagNeedsArgument name)
                  | v # rest \<Rightarrow>
                      (case set_flag ext name v fl of Inl e \<Rightarrow> Inl e | Inr fl' \<Rightarrow> parse_flags ext rest fl'))))"
      using 4 nv by (simp only: parse_flags.simps if_False Let_def prod.case)
    show thesis
      using assms unfolding run
      by (auto split: option.splits bool.splits sum.splits list.splits intro: stop flag [unfolded name])
  qed (use assms stop in auto)
qed

lemma set_flag_http2:
  "set_flag ext name v fl = Inr fl' \<Longrightarrow> name \<noteq> ''enable-http2'' \<Longrightarrow> fl_enable_http2 fl' = fl_enable_http2 fl"
  by (auto simp: set_flag_def set_bool_flag_def split: if_splits option.splits)

lemma parse_flags_http2:
  assumes "parse_flags ext args fl = Inr (fl', left)" and "\<forall>s \<in> set args. flag_name s \<noteq> ''enable-http2''"
  shows "fl_enable_http2 fl' = fl_enable_http2 fl"
  using assms
proof (induction args arbitrary: fl rule: length_induct)
  case (1 args)
  show ?case
  proof (cases args)
    case Nil
    with 1 show ?thesis by simp
  next
    case (Cons s rest)
    from 1(2) [unfolded Cons] show ?thesis
    proof (cases rule: parse_flags_cases)
      case stop
      then show ?thesis by simp
    next
      case (flag v fl1 rest')
      have "length rest' < length args" using flag(3) Cons by simp
      moreover have "\<forall>s \<in> set rest'. flag_name s \<noteq> ''enable-http2''"
        using flag(2) 1(3) Cons by auto
      ultimately have "fl_enable_http2 fl' = fl_enable_http2 fl1"
        using 1(1) flag(4) by blast
      moreover have "flag_name s \<noteq> ''enable-http2''" using 1(3) Cons by simp
      ultimately show ?thesis using set_flag_http2 [OF flag(1)] by simp
    qed
  qed
qed

text \<open>A command line for given flags.\<close>

definition show_bool :: "bool \<Rightarrow> string" where
  "show_bool b = (if b then ''true'' else ''false'')"

definition command_line :: "operator_flags \<Rightarrow> string list" where
  "command_line fl =
     [''--metrics-bind-address='' @ fl_metrics_addr fl, ''--health-probe-bind-address='' @ fl_probe_addr fl,
      ''--leader-elect='' @ show_bool (fl_leader_elect fl), ''--metrics-secure='' @ show_bool (fl_secure_metrics fl),
      ''--enable-http2='' @ show_bool (fl_enable_http2 fl)]"

lemma parse_show_bool [simp]: "parse_bool (show_bool b) = Some b"
  by (simp add: parse_bool_def show_bool_def)

lemma split_value_append:
  "CHR ''='' \<notin> set name \<Longrightarrow> split_value (name @ CHR ''='' # v) = (name, Some v)"
  by (simp add: split_value_def takeWhile_append)

lemma parse_flag_value:
  assumes "CHR ''='' \<notin> set name" and "name \<noteq> []" and "name ! 0 \<noteq> CHR ''-''"
    and "flag_kind ext name \<noteq> None"
  shows "parse_flags ext ((''--'' @ name @ CHR ''='' # v) # args) fl =
    (case set_flag ext name v fl of Inl e \<Rightarrow> Inl e | Inr fl' \<Rightarrow> parse_flags ext args fl')"
proof -
  obtain c r where name: "name = c # r" using assms(2) by (cases name) auto
  have "c \<noteq> CHR ''=''" "c \<noteq> CHR ''-''" using assms(1,3) name by auto
  moreover have "split_value (c # r @ CHR ''='' # v) = (name, Some v)"
    using split_value_append [OF assms(1)] name by simp
  ultimately show ?thesis
    using assms(4) name by (auto split: option.split bool.split)
qed

section \<open>Properties\<close>

text \<open>
  Every setting of the five flags can be given on the command line: parsing the command
  line of some flags gives these flags back, with no argument left over, whatever the
  characters of the two addresses.
\<close>

theorem flags_round_trip:
  "parse_flags ext (command_line fl) default_flags = Inr (fl, [])"
proof -
  have eq: "command_line fl =
     [''--'' @ ''metrics-bind-address'' @ CHR ''='' # fl_metrics_addr fl,
      ''--'' @ ''health-probe-bind-address'' @ CHR ''='' # fl_probe_addr fl,
      ''--'' @ ''leader-elect'' @ CHR ''='' # show_bool (fl_leader_elect fl),
      ''--'' @ ''metrics-secure'' @ CHR ''='' # show_bool (fl_secure_metrics fl),
      ''--'' @ ''enable-http2'' @ CHR ''='' # show_bool (fl_enable_http2 fl)]"
    by (simp add: command_line_def)
  have steps: "parse_flags ext ((''--'' @ ''metrics-bind-address'' @ CHR ''='' # v) # args) f
        = parse_flags ext args (f\<lparr>fl_metrics_addr := v\<rparr>)"
      "parse_flags ext ((''--'' @ ''health-probe-bind-address'' @ CHR ''='' # v) # args) f
        = parse_flags ext args (f\<lparr>fl_probe_addr := v\<rparr>)"
      "parse_flags ext ((''--'' @ ''leader-elect'' @ CHR ''='' # show_bool b) # args) f
        = parse_flags ext args (f\<lparr>fl_leader_elect := b\<rparr>)"
      "parse_flags ext ((''--'' @ ''metrics-secure'' @ CHR ''='' # show_bool b) # args) f
        = parse_flags ext args (f\<lparr>fl_secure_metrics := b\<rparr>)"
      "parse_flags ext ((''--'' @ ''enable-http2'' @ CHR ''='' # show_bool b) # args) f
        = parse_flags ext args (f\<lparr>fl_enable_http2 := b\<rparr>)" for v b args f
    by (subst parse_flag_value; simp add: flag_kind_def set_flag_def set_bool_flag_def)+
  have "default_flags\<lparr>fl_metrics_addr := fl_metrics_addr fl, fl_probe_addr := fl_probe_addr fl,
      fl_leader_elect := fl_leader_elect fl, fl_secure_metrics := fl_secure_metrics fl,
      fl_enable_http2 := fl_enable_http2 fl\<rparr> = fl"
    by (simp add: default_flags_def)
  then show ?thesis unfolding eq by (simp only: steps parse_flags.simps(1))
qed

text \<open>
  C24: HTTP/2 stays off unless a flag asks for it: when no argument names the flag, and whatever
  flags other packages define, an operator that starts gives both servers the one TLS option
  that leaves HTTP/1.1 as the only protocol.
\<close>

theorem http2_stays_off:
  assumes "operator_main en args = Inr (opts, op)"
    and "\<forall>s \<in> set args. flag_name s \<noteq> ''enable-http2''"
  shows "mo_tls opts = op_tls op \<and> tls_next_protos (fold (\<lambda>f. f) (mo_tls opts) c) = [''http/1.1'']"
proof -
  obtain fl left b where fl: "parse_flags (en_extra_flags en) args default_flags = Inr (fl, left)"
    and opts: "opts = manager_options_of fl"
    and b: "b = (en_boot en)\<lparr>bt_enable_http2 := fl_enable_http2 fl, bt_new_manager := en_new_manager en opts\<rparr>"
    and start: "start_operator b = Inr op"
    using assms(1) by (auto simp: operator_main_def Let_def split: sum.splits option.splits prod.splits)
  have "\<not> fl_enable_http2 fl"
    using parse_flags_http2 [OF fl assms(2)] by (simp add: default_flags_def)
  moreover from start have "op_tls op = tls_opts (fl_enable_http2 fl)"
    by (rule start_operator_Inr) (simp add: b)
  ultimately show ?thesis
    by (simp add: opts manager_options_of_def tls_opts_def disable_http2_def)
qed

section \<open>Witness\<close>

definition example_environment :: environment where
  "example_environment = \<lparr>en_extra_flags = (\<lambda>n. if n = ''zap-devel'' then Some (True, \<lambda>_. None) else None),
     en_kube_config = None, en_new_manager = (\<lambda>_. None), en_boot = example_boot\<rparr>"

lemma example_main:
  "\<exists>opts op. operator_main example_environment [''-zap-devel'', ''--leader-elect''] = Inr (opts, op)"
proof -
  have flags: "parse_flags (en_extra_flags example_environment) [''-zap-devel'', ''--leader-elect''] default_flags
      = Inr (default_flags\<lparr>fl_leader_elect := True\<rparr>, [])"
    by (simp add: example_environment_def split_value_def flag_kind_def set_flag_def set_bool_flag_def parse_bool_def)
  have "example_boot\<lparr>bt_enable_http2 := False, bt_new_manager := None\<rparr> = example_boot"
    by (simp add: example_boot_def)
  then show ?thesis
    unfolding operator_main_def flags
    using example_started by (simp add: example_environment_def default_flags_def Let_def)
qed

theorem http2_stays_off_witness:
  "\<exists>opts op. operator_main example_environment [''-zap-devel'', ''--leader-elect''] = Inr (opts, op) \<and>
     tls_next_protos (fold (\<lambda>f. f) (mo_tls opts) \<lparr>tls_next_protos = [''h2'', ''http/1.1'']\<rparr>) = [''http/1.1'']"
proof -
  obtain opts op where run: "operator_main example_environment [''-zap-devel'', ''--leader-elect''] = Inr (opts, op)"
    using example_main by blast
  have "\<forall>s \<in> set [''-zap-devel'', ''--leader-elect'']. flag_name s \<noteq> ''enable-http2''"
    by (simp add: flag_name_def split_value_def)
  from http2_stays_off [OF run this] run show ?thesis by blast
qed

end
