(* ===== verification/Unit_Tests.thy ===== *)
theory Unit_Tests
  imports Volumes Google_Auth
begin

text \<open>
  The cases of the repository's unit tests (\<^verbatim>\<open>volumes_test.go\<close>, \<^verbatim>\<open>google_test.go\<close>), evaluated
  on the model.
\<close>

section \<open>Evaluating MD5\<close>

text \<open>
  The same steps with what they look up by index laid out as a list beforehand, and digest
  bytes cut from an integer: these equations let the kernel compute a digest in seconds.
\<close>

fun md5_mix :: "nat \<times> nat \<times> 32 word \<Rightarrow> md5_state \<Rightarrow> md5_state" where
  "md5_mix (r, s, x) (a, b, c, d) =
     (d, b + word_rotl s
        ((if r = 0 then (b AND c) OR (NOT b AND d)
          else if r = 1 then (d AND b) OR (NOT d AND c)
          else if r = 2 then b XOR c XOR d
          else c XOR (b OR NOT d)) + a + x), b, c)"

definition md5_source :: "nat \<Rightarrow> nat" where
  "md5_source i =
     (if i < 16 then i else if i < 32 then (5 * i + 1) mod 16
      else if i < 48 then (3 * i + 5) mod 16 else (7 * i) mod 16)"

definition md5_schedule :: "32 word list \<Rightarrow> (nat \<times> nat \<times> 32 word) list" where
  "md5_schedule m =
     zip (map (\<lambda>i. i div 16) [0 ..< 64])
       (zip md5_shifts (map2 (+) md5_table (map (\<lambda>i. m ! md5_source i) [0 ..< 64])))"

lemma md5_tables: "length md5_table = 64" "length md5_shifts = 64"
  by (simp_all add: md5_table_def md5_shifts_def numeral_eq_Suc)

lemma md5_step_mix:
  assumes "i < 64"
  shows "md5_step m i = md5_mix (i div 16, md5_shifts ! i, md5_table ! i + m ! md5_source i)"
proof -
  have "i div 16 = 0 \<longleftrightarrow> i < 16" "i div 16 = 1 \<longleftrightarrow> 16 \<le> i \<and> i < 32"
    "i div 16 = 2 \<longleftrightarrow> 32 \<le> i \<and> i < 48" by auto
  then show ?thesis
    by (intro ext) (auto simp: md5_step_def md5_source_def Let_def add.assoc)
qed

lemma md5_rounds: "fold (md5_step m) [0 ..< 64] st = fold md5_mix (md5_schedule m) st"
proof -
  have "fold (md5_step m) [0 ..< 64] st
      = fold (\<lambda>i. md5_mix (i div 16, md5_shifts ! i, md5_table ! i + m ! md5_source i)) [0 ..< 64] st"
    by (rule fold_cong) (simp_all add: md5_step_mix)
  also have "\<dots> = fold md5_mix
      (map (\<lambda>i. (i div 16, md5_shifts ! i, md5_table ! i + m ! md5_source i)) [0 ..< 64]) st"
    by (simp only: fold_map comp_def)
  also have "map (\<lambda>i. (i div 16, md5_shifts ! i, md5_table ! i + m ! md5_source i)) [0 ..< 64] = md5_schedule m"
    by (rule nth_equalityI) (simp_all add: md5_schedule_def md5_tables)
  finally show ?thesis .
qed

fun bytes_of_int :: "nat \<Rightarrow> int \<Rightarrow> string" where
  "bytes_of_int 0 n = []"
| "bytes_of_int (Suc k) n = char_of (n mod 256) # bytes_of_int k (n div 256)"

lemma char_of_int: "char_of (int n) = char_of n"
  by (simp add: char_of_def bit_of_nat_iff_bit)

lemma bytes_of_int: "bytes_of_int k (int n) = bytes_of_nat k n"
proof (induction k arbitrary: n)
  case (Suc k)
  have "int n mod 256 = int (n mod 256)" "int n div 256 = int (n div 256)"
    by (simp_all add: zmod_int zdiv_int)
  then show ?case by (simp only: bytes_of_int.simps bytes_of_nat.simps char_of_int Suc.IH)
qed simp

lemma bytes_of_word: "bytes_of_nat k (unat w) = bytes_of_int k (uint w)"
  unfolding bytes_of_int [symmetric] by (simp only: uint_nat [symmetric] of_nat_unat)

lemma md5_block_eval [code]:
  "md5_block s (a, b, c, d) =
     (case fold md5_mix (md5_schedule (md5_block_words 16 s)) (a, b, c, d) of
        (a', b', c', d') \<Rightarrow> (a + a', b + b', c + c', d + d'))"
  by (simp add: md5_block_def md5_rounds)

lemma md5_sum_eval [code]:
  "md5_sum s =
     (let p = md5_pad s; (a, b, c, d) = md5_blocks (length p div 64) p md5_init
      in concat (map (\<lambda>w. bytes_of_int 4 (uint w)) [a, b, c, d]))"
  by (simp only: md5_sum_def bytes_of_word)

text \<open>A test vector of RFC 1321.\<close>

lemma md5_abc: "hex_encode (md5_sum ''abc'') = ''900150983cd24fb0d6963f7d28e17f72''"
  by code_simp

section \<open>Volume names\<close>

definition plain_volume :: "string \<Rightarrow> volume" where
  "plain_volume name = \<lparr>v_name = name, v_source = OtherSource []\<rparr>"

definition plain_mount :: "string \<Rightarrow> volume_mount" where
  "plain_mount name =
     \<lparr>vm_name = name, vm_path = [], vm_sub_path = [], vm_read_only = False, vm_other = []\<rparr>"

definition plain_container :: "string \<Rightarrow> string list \<Rightarrow> container" where
  "plain_container name mounts =
     \<lparr>c_name = name, c_image = [], c_env = [], c_mounts = map plain_mount mounts, c_other = []\<rparr>"

definition plain_pod :: "string list \<Rightarrow> container list \<Rightarrow> pod_spec" where
  "plain_pod volumes cs =
     \<lparr>ps_volumes = map plain_volume volumes, ps_containers = cs, ps_service_account = [],
      ps_restart_policy = [], ps_other = []\<rparr>"

text \<open>\<^verbatim>\<open>TestVolumeNameIs\<close> and \<^verbatim>\<open>TestVolumeMountNameIs\<close>.\<close>

lemma test_volume_name_is:
  "\<not> volume_name_is ''abc'' (plain_volume ''my-volume'')"
  "volume_name_is ''my-volume'' (plain_volume ''my-volume'')"
  "\<not> volume_mount_name_is ''abc'' (plain_mount ''my-volume'')"
  "volume_mount_name_is ''my-volume'' (plain_mount ''my-volume'')"
  by (simp_all add: volume_name_is_def volume_mount_name_is_def plain_volume_def plain_mount_def)

text \<open>\<^verbatim>\<open>TestMaxLengthVolumeName\<close>: a short name, one of exactly 54 bytes, and one that is cut.\<close>

lemma test_max_length_volume_name:
  "max_length_volume_name ''short/team/bucket'' = ''gcsfuse-short--team--bucket''"
  "max_length_volume_name ''exact/team/bucket-scpaxhfblvomjeoixplhtvktqm''
     = ''gcsfuse-exact--team--bucket-scpaxhfblvomjeoixplhtvktqm''"
  by code_simp+

lemma test_max_length_volume_name_hashed:
  "max_length_volume_name ''longer/team/bucket-ayjtigfrcojhjkxgyjateuqddmguse''
     = ''gcsfuse-longer--team--bucket-ayjtigfrcojhjkxg-01f50b1b''"
  by code_simp

section \<open>Removing buckets\<close>

definition run_remove :: "pod_spec \<Rightarrow> bool \<times> pod_spec" where
  "run_remove p =
     (let (modified, p', c) = remove_buckets_from_pod_spec p (ps_containers p ! 0)
      in (modified, modify_container 0 (\<lambda>_. c) p'))"

text \<open>
  \<^verbatim>\<open>TestRemoveBucketsFromPodSpec\<close>. The second case of the test expects a pod in which the
  precreator is gone as well; the function leaves it, and only \<^verbatim>\<open>removePrecreator\<close> takes it
  away. The case therefore fails on this commit.
\<close>

lemma test_remove_nothing:
  "run_remove (plain_pod [''not-gcsfuse''] [plain_container ''not-gcsfuse'' [''not-gcsfuse'']])
     = (False, plain_pod [''not-gcsfuse''] [plain_container ''not-gcsfuse'' [''not-gcsfuse'']])"
  by (simp add: run_remove_def remove_buckets_from_pod_spec_def plain_pod_def plain_volume_def
      plain_container_def plain_mount_def modify_container_def is_bucket_volume_def is_bucket_mount_def
      has_prefix_def gcsfuse_prefix_def delete_func_def)

lemma test_remove_keeps_precreator:
  "run_remove
      (plain_pod [''gcsfuse-1'', ''not-gcsfuse'', ''gcsfuse-2'']
        [plain_container ''not-gcsfuse'' [''gcsfuse-1'', ''not-gcsfuse'', ''gcsfuse-2''],
         plain_container precreatorContainerName []])
     = (True, plain_pod [''not-gcsfuse'']
         [plain_container ''not-gcsfuse'' [''not-gcsfuse''], plain_container precreatorContainerName []])"
  by (simp add: run_remove_def remove_buckets_from_pod_spec_def plain_pod_def plain_volume_def
      plain_container_def plain_mount_def modify_container_def is_bucket_volume_def is_bucket_mount_def
      has_prefix_def gcsfuse_prefix_def delete_func_def)

section \<open>Membership\<close>

text \<open>\<^verbatim>\<open>TestIsMemberOf\<close>, with its server, for every setting of the server's three flags.\<close>

definition ci_test_server :: "bool \<Rightarrow> bool \<Rightarrow> bool \<Rightarrow> ci_service" where
  "ci_test_server lookupFail hasMembership membershipFail =
     \<lparr>ci_lookup = (\<lambda>_. if lookupFail then Inl ''error'' else Inr ''dummy''),
      ci_check = (\<lambda>_ _ _. if membershipFail then Inl ''error'' else Inr hasMembership)\<rparr>"

lemma test_is_member_of:
  fixes lookupFail hasMembership membershipFail
  defines "shouldErr \<equiv> membershipFail \<or> lookupFail"
    and "answer \<equiv> user_is_member_of (ci_test_server lookupFail hasMembership membershipFail) ''dummy'' ''dummy''"
  shows "answer = Inr True \<longleftrightarrow> \<not> shouldErr \<and> hasMembership"
    and "(\<exists>e. answer = Inl e) \<longleftrightarrow> shouldErr"
  by (simp_all add: shouldErr_def answer_def user_is_member_of_def ci_test_server_def Let_def)

end
