(* ===== verification/Spec2Isabelle.thy ===== *)
theory Spec2Isabelle
  imports Membership Access_Lifecycle Refresh_Server Probe_Lifecycle Reinvocation Policy_Store Audit_Concurrency
    Command_Line Unit_Tests
begin

text \<open>
  The ssbucketeer operator: a verification development of the Go program in \<^verbatim>\<open>cmd\<close> and
  \<^verbatim>\<open>internal\<close>. The operator lets the services that users run on a Kubernetes cluster work
  on Google Cloud as one of the access groups of the user. A user asks for a group with an
  annotation on a StatefulSet. Four handlers of the operator do the rest.

  \<^item> The mutating webhook of StatefulSets (\<^verbatim>\<open>statefulset_webhook.go\<close>) copies the request to
    the service account, labels the pod, mounts the buckets of the group's team, and
    launches a job that probes whether access works, while the StatefulSet has no replicas.
  \<^item> The validating webhook of service accounts (\<^verbatim>\<open>serviceaccount_webhook.go\<close>) admits a
    request only from a member of the group, and for the groups that require it only with
    a reason and a bounded duration, which it records in the audit log.
  \<^item> The service account reconciler (\<^verbatim>\<open>serviceaccount_controller.go\<close>) writes the binding
    that lets the Kubernetes service account act as the Google service account of the group.
  \<^item> The job reconciler (\<^verbatim>\<open>job_controller.go\<close>) gives the StatefulSet its replicas back once
    the probe is done.

  A second program (\<^verbatim>\<open>cmd/folder-precreator\<close>) runs beside the user's service in the pod and
  creates the folders of the mounted buckets.

  \<^bold>\<open>Theories and the code they model.\<close>

  \<^item> \<open>Prelude\<close>, \<open>Go_Strings\<close>, \<open>Go_Numbers\<close>, \<open>Go_Time\<close>, \<open>Go_MD5\<close>, \<open>Go_Maps\<close>: what the code
    uses of the Go language and library. Panics are values of the type \<open>outcome\<close>, replicas are
    32-bit words, times are nanoseconds, maps are association lists that may be nil and are
    ranged over in an order that is a parameter, MD5 is computed.
  \<^item> \<open>Kube\<close>: the fields of the Kubernetes objects the code reads or writes. \<open>World\<close>: the
    services the code calls. \<open>Template\<close>: \<^verbatim>\<open>internal/template\<close>. \<open>Common\<close>:
    \<^verbatim>\<open>internal/controller/common.go\<close>, the annotation keys and the configuration of groups.
  \<^item> \<open>ServiceAccount_Controller\<close>: \<open>sa_reconcile\<close> is \<^verbatim>\<open>Reconcile\<close>; \<open>handle_gcp_sa\<close>,
    \<open>remove_iam_binding\<close>, \<open>update_iam_policy\<close>, \<open>ensure_correct_binding\<close> are the functions of
    those names; \<open>ensure_sa_finalizer\<close>, \<open>finalize_sa\<close>, \<open>annotate_sa\<close> are the stretches of
    \<^verbatim>\<open>Reconcile\<close> they are named after. \<open>Policy_Store\<close>: the writes against the etags of IAM.
  \<^item> \<open>Audit_Router\<close>: \<^verbatim>\<open>internal/audit\<close>, the router with its ring of a hundred hashes
    (\<open>router\<close>, \<open>record_all\<close>, \<open>record_hash\<close>, \<open>flush_all\<close>) and the two sinks (\<open>sink_record\<close>,
    \<open>sink_flush\<close>), with the locale \<open>audit_sink\<close> for the interface \<^verbatim>\<open>Sink\<close>.
    \<open>Audit_Concurrency\<close>: \<^verbatim>\<open>RecordAll\<close> again, as a step relation (\<open>audit_step\<close>) in which
    concurrent calls interleave access by access.
  \<^item> \<open>Google_Auth\<close>: \<^verbatim>\<open>google.go\<close>, with the locale \<open>auther\<close> for the interface \<^verbatim>\<open>Auther\<close>.
    \<open>ServiceAccount_Webhook\<close>: \<open>validate\<close> and its entry points.
  \<^item> \<open>Volumes\<close>: \<^verbatim>\<open>volumes.go\<close>. \<open>Precreator\<close>: \<^verbatim>\<open>precreator.go\<close>. \<open>Statefulset_Webhook\<close>:
    \<open>handle\<close> is \<^verbatim>\<open>Handle\<close>, of which \<open>mutate\<close> is the part after the service account and
    \<open>finish\<close> the part after the buckets; the helper functions have definitions of their names.
    \<open>Pod_Validity\<close>: the pods it produces. \<open>Reinvocation\<close>: the webhook called on its own result.
  \<^item> \<open>Job_Controller\<close>: \<open>job_reconcile\<close>, with \<open>revive_sfs\<close> and \<open>release_job\<close> for its end.
    \<open>Probe_Lifecycle\<close>: the life of a probe, an abstract machine that the webhook and the job
    reconciler refine.
  \<^item> \<open>Folder_Precreator\<close>: the walk over buckets and objects, with \<^verbatim>\<open>path.Join\<close> and \<^verbatim>\<open>path.Dir\<close>,
    and the refresh endpoint as a step relation on a lock and the phases of its requests.
    \<open>Refresh_Server\<close>: \<^verbatim>\<open>main\<close> and the handler as functions, and liveness.
  \<^item> \<open>Main_Setup\<close>: \<^verbatim>\<open>cmd/main.go\<close>; \<open>start_operator\<close> is \<^verbatim>\<open>main\<close> up to the start of the manager
    and \<open>stop_operator\<close> what follows it. \<open>Command_Line\<close>: its flags, the options of the manager,
    and \<^verbatim>\<open>main\<close> from the arguments on (\<open>operator_main\<close>). \<open>Operator_Runs\<close>: the handlers together,
    with the locales \<open>recorded_handler\<close> and \<open>guarded_handler\<close> for what a handler may do to the
    history of calls, and \<open>operator_step\<close> for the runs of a started operator. \<open>Deployment\<close>: the
    \<^verbatim>\<open>SetupWithManager\<close> methods and the webhook configurations of \<^verbatim>\<open>config/webhook\<close>.
    \<open>Membership\<close>: the two webhooks together. \<open>Bindings_In_Force\<close> and \<open>Access_Lifecycle\<close>: the
    policies the IAM service holds, as a function of the calls made (\<open>in_force\<close>), through the
    runs of the operator.
  \<^item> \<open>Unit_Tests\<close>: the cases of the repository's unit tests, evaluated on the model.
  \<^item> This theory: properties of a request that passes through several components.

  \<^bold>\<open>How effects are modelled.\<close> A handler that calls the cluster or Google takes the history of
  all calls so far and returns it extended by its own; the answers are functions of the
  history, in the record \<open>world\<close>. So the cluster may answer anything, and differently each
  time, and the safety properties speak of the calls made. Errors are values, and every early
  return and every panic of the code is a branch. The audit router is a state that is passed
  through. The refresh endpoint, the runs of the operator and the concurrent calls of the audit
  router are relations; in a run of the operator the handlers follow each other, but between two
  calls of a handler the world may have changed in any way. The library runs one reconcile of a
  controller at a time and the service account reconciler alone writes policies, so its reads
  and writes of them do not interleave.

  \<^bold>\<open>What is shown.\<close>

  \<^item> Access: every binding that comes into force in a run names one service account, in the
    namespace of a member whom Cloud Identity confirmed, and ends within the longest duration
    of its group; an undisturbed reconcile brings it into force; the reconcile that gives up
    the finalizer leaves the bindings from before the first grant; bindings of others stay. A
    policy is written only behind the finalizer, right after it was read. A write with an etag
    loses nothing that anybody else stored, or the reconcile fails. The webhook configurations
    and the registration put the validator before every stored service account.
  \<^item> Audit: the router is a filter with a window of a hundred hashes; an admission that needs a
    reason is in every Cloud Logging sink, in every run; what a sink refused is not retried.
    Under concurrent calls every payload still reaches every sink, a lone call does what
    \<open>record_all\<close> says, but duplicates are no longer filtered out.
  \<^item> StatefulSets: one is sent back for a group only if the owner of the namespace is a
    confirmed member, as long as the service account is not being deleted. Requested buckets
    are mounted, each at its mount point, while access lasts and unmounted when it is over;
    pods stay valid; the webhook leaves alone what it sent back, once the probe is over;
    adding is idempotent, and what mounting did unmounting takes away, the precreator
    included; names of volumes are bounded, and equal only as stated. The probe saves and
    restores the replicas; a job is deleted, and a StatefulSet revived, only after the very
    objects were read that call for it.
  \<^item> Precreator: exactly the folders of the objects of a completely listed bucket are created,
    each once; the endpoint admits one request at a time and can answer each.
  \<^item> Start-up: every setting of the flags can be given, and HTTP/2 is off unless asked for.
  \<^item> Several theorems describe defects: a grant that outlives a change of group, a retry that
    repeats the same query, panics on bindings without a condition, colliding volume names, a
    probe that is launched twice, a revival that a refused update blocks for good, a container
    that is rewritten for the order of a map, duplicates in the audit log.

  \<^bold>\<open>Assumptions.\<close> Named hypotheses state documented behaviour of code outside the repository:
  \<open>finalizer_laws\<close>, \<open>nn_string_law\<close>, \<open>google_status_law\<close>, \<open>range_law\<close> (\<open>World\<close>), \<open>api_laws\<close>
  and \<open>admission_law\<close> (\<open>Operator_Runs\<close>), \<open>admission_control\<close> (\<open>Deployment\<close>), which gives
  \<open>admission_law\<close> and \<open>update_law\<close>, \<open>etag_law\<close> (\<open>Policy_Store\<close>), \<open>iam_store\<close> and \<open>healthy\<close>
  (\<open>Bindings_In_Force\<close>, \<open>Access_Lifecycle\<close>), \<open>config_maps_stay\<close> and \<open>scaled_only_by_operator\<close>
  (\<open>Operator_Runs\<close>), \<open>engine_law\<close> (\<open>Template\<close>). By \<open>iam_store\<close> the operator is the only
  writer of a policy and a read is never stale. The witnesses satisfy them with concrete functions. All definitions are total, and nothing uses
  fuel: the loops of the code run over finite lists, and a paged listing is a finite list with
  the error it ends in.

  \<^bold>\<open>Not modelled.\<close> Logging, on which nothing depends, and the texts of errors (an error is a
  constructor with its data); TLS beyond the list of protocols, JSON and YAML texts and the
  patch between two JSON texts, which libraries handle (\<open>Patched\<close> is the object the patch leads
  to); the fields of Kubernetes objects the code passes through; handlers that interleave
  inside one another beyond the freedom of the world, the audit router apart; times and
  durations that overflow outside the parser, which lie beyond the years Kubernetes can write;
  data races on the two words of a string: in \<open>Audit_Concurrency\<close> an access to a slot of the
  ring is atomic, so a slot read half before and half after a write, and a crash from it, are
  left out; how long the precreator's walk takes, which is one step of the refresh endpoint;
  a membership that changes, since Cloud Identity answers as a function of the user and the
  group; objects of one name in the audit bucket, which the \<open>CloudStorage\<close> sink keeps both;
  the end-to-end tests, the manifests other than those of the webhooks, and the images, which
  are no part of the two programs.
\<close>

section \<open>From the configuration to the first admission\<close>

text \<open>
  An operator that starts with webhooks admits only confirmed members, from the first
  request on: its validator asks the Cloud Identity service it was started with, applies
  the same group configurations and stage as its mutating webhook, and audits to a fresh,
  well-formed router with one sink for each configured sink of a known type.
\<close>

theorem started_operator_admits_only_members:
  assumes "start_operator b = Inr op" and "op_webhooks op = Some (m, v)"
  shows "\<exists>cfg ci. bt_parse b = Inr cfg \<and> bt_cloud_identity b = Inr ci \<and>
    mu_configs m = va_configs v \<and> mu_stage m = va_stage v \<and>
    router_ok (op_router op) \<and> rt_sinks (op_router op) = List.map_filter sink_of (oc_audit_sinks cfg) \<and>
    (\<forall>sa grp env rt'. impersonates sa grp \<longrightarrow>
       validate v env (SAObject sa) (op_router op) = Returns (None, rt') \<longrightarrow>
       (\<exists>user. om_namespace (sa_meta sa) = userNamespacePrefix @ user \<and> ci_confirms ci user grp))"
  using assms(1)
proof (rule start_operator_Inr)
  fix cfg gke ci
  assume cfg: "bt_parse b = Inr cfg" and ci: "bt_cloud_identity b = Inr ci"
    and op: "op = \<lparr>op_tls = tls_opts (bt_enable_http2 b),
       op_router = new_router (List.map_filter sink_of (oc_audit_sinks cfg)),
       op_webhooks = (if bt_getenv b ''ENABLE_WEBHOOKS'' \<noteq> ''false''
         then Some (mutator_of cfg, validator_of cfg ci) else None),
       op_reconciler = \<lparr>r_group_sa_project = oc_group_sa_project cfg, r_cluster_project = gke\<rparr>\<rparr>"
  with assms(2) have mv: "m = mutator_of cfg" "v = validator_of cfg ci" by (auto split: if_splits)
  have "va_auth v = user_is_member_of ci" by (simp add: mv validator_of_def)
  then have "\<exists>user. om_namespace (sa_meta sa) = userNamespacePrefix @ user \<and> ci_confirms ci user grp"
    if "impersonates sa grp" "validate v env (SAObject sa) (op_router op) = Returns (None, rt')" for sa grp env rt'
    using google.admitted_confirmed [OF _ that] by (simp add: owner_of_Some_iff)
  with cfg ci show ?thesis
    by (intro exI [of _ cfg] exI [of _ ci])
      (auto simp: mv mutator_of_def validator_of_def op, auto simp: new_router_def)
qed

section \<open>From the StatefulSet to the service account\<close>

text \<open>
  Once the mutating webhook has brought a service account in line with its
  StatefulSet, the validating webhook judges the request of the StatefulSet: the checks
  for a group that requires a reason pass exactly when the duration of the StatefulSet
  parses and is within the limit and its reason is not empty.
\<close>

theorem synced_account_carries_the_request:
  assumes "in_sync (wanted_sa_annotations c sfs grp) sa" and "gc_reason_required c"
  shows "(\<exists>d reason. check_privileged c sa grp = Inr (d, reason)) \<longleftrightarrow>
    map_index (sfs_annotations sfs) accessReasonAnnotation \<noteq> [] \<and>
    (\<exists>d. parse_duration (map_index (sfs_annotations sfs) requestedServiceDurationAnnotation) = Some d \<and>
       d \<le> gc_max_duration c)"
proof -
  have same: "map_index (sa_annotations sa) accessReasonAnnotation = map_index (sfs_annotations sfs) accessReasonAnnotation"
    "map_index (sa_annotations sa) requestedServiceDurationAnnotation
      = map_index (sfs_annotations sfs) requestedServiceDurationAnnotation"
    using assms by (auto simp: in_sync_def wanted_sa_annotations_def)
  have get: "(\<exists>s. map_get m k = Some s \<and> P s) \<longleftrightarrow> P (map_index m k)" if "\<not> P []" for m k and P :: "string \<Rightarrow> bool"
    using that by (auto simp: map_index_def split: option.splits)
  have "(\<exists>d reason. check_privileged c sa grp = Inr (d, reason)) \<longleftrightarrow>
      (\<exists>reason. map_get (sa_annotations sa) accessReasonAnnotation = Some reason \<and> reason \<noteq> []) \<and>
      (\<exists>s. map_get (sa_annotations sa) requestedServiceDurationAnnotation = Some s \<and>
         (\<exists>d. parse_duration s = Some d \<and> d \<le> gc_max_duration c))"
    by (auto simp: check_privileged_Inr_iff privileged_ok_def)
  also have "\<dots> \<longleftrightarrow> map_index (sa_annotations sa) accessReasonAnnotation \<noteq> [] \<and>
      (\<exists>d. parse_duration (map_index (sa_annotations sa) requestedServiceDurationAnnotation) = Some d \<and>
         d \<le> gc_max_duration c)"
    using get [of "\<lambda>s. s \<noteq> []" "sa_annotations sa" accessReasonAnnotation]
      get [of "\<lambda>s. \<exists>d. parse_duration s = Some d \<and> d \<le> gc_max_duration c" "sa_annotations sa"
        requestedServiceDurationAnnotation]
    by simp
  finally show ?thesis by (simp only: same)
qed

section \<open>From the admission to the IAM binding\<close>

text \<open>
  C10: The period that is audited is the period that is enforced: for an admitted service
  account of a group that requires a reason, the audit router got a record whose end is
  within the configured limit, and the reconciler's binding for the very same service
  account carries the condition that the request is made before that end, in RFC 3339.
\<close>

theorem audited_period_is_enforced:
  assumes "impersonates sa grp" and "get_config (va_configs v) grp = Some c" and "gc_reason_required c"
    and "validate v env (SAObject sa) rt = Returns (None, rt')"
  shows "\<exists>p errs. record_all env p rt = Returns (errs, rt') \<and> pl_group p = grp \<and>
    pl_start p = om_creation (sa_meta sa) \<and> pl_end p \<le> pl_start p + gc_max_duration c \<and>
    expiration_expr sa = Inr (''request.time < timestamp('' @ [CHR 0x27] @ rfc3339_utc (pl_end p) @ [CHR 0x27] @ '')'')"
  using assms(1)
proof (cases rule: validate_cases [of sa grp v env rt])
  case (refused e)
  with assms(4) show ?thesis by simp
next
  case (unlimited c' user)
  with assms(2,3) show ?thesis by simp
next
  case (limited c' user d reason)
  with assms(2) have c' [simp]: "c' = c" by simp
  let ?p = "audit_entry v sa c user (to_team c grp) grp reason d"
  obtain errs where rec: "record_all env ?p rt = Returns (errs, rt')"
    using limited(1) assms(4) by auto
  obtain s where s: "map_get (sa_annotations sa) requestedServiceDurationAnnotation = Some s" "parse_duration s = Some d"
    and "d \<le> gc_max_duration c"
    using limited(6) by (auto simp: privileged_ok_def)
  moreover have "s \<noteq> []" using s(2) by auto
  moreover have "pl_group ?p = grp" "pl_start ?p = om_creation (sa_meta sa)" "pl_end ?p = om_creation (sa_meta sa) + d"
    by (simp_all add: audit_entry_def split: prod.split)
  ultimately show ?thesis
    using rec by (intro exI [of _ ?p] exI [of _ errs]) (simp add: expiration_expr_def map_index_get)
qed

section \<open>Witnesses\<close>

theorem started_operator_admits_only_members_witness:
  "\<exists>op m v. start_operator example_boot = Inr op \<and> op_webhooks op = Some (m, v) \<and>
    rt_sinks (op_router op) = [CloudLogging []] \<and> mu_configs m = va_configs v \<and>
    (\<forall>sa grp env rt'. impersonates sa grp \<longrightarrow>
       validate v env (SAObject sa) (op_router op) = Returns (None, rt') \<longrightarrow>
       (\<exists>user. om_namespace (sa_meta sa) = userNamespacePrefix @ user))"
proof -
  let ?op = "\<lparr>op_tls = [disable_http2], op_router = new_router [CloudLogging []],
     op_webhooks = Some (mutator_of example_operator_config, validator_of example_operator_config example_member_ci),
     op_reconciler = \<lparr>r_group_sa_project = ''groups'', r_cluster_project = ''cluster''\<rparr>\<rparr>"
  have hooks: "op_webhooks ?op = Some (mutator_of example_operator_config, validator_of example_operator_config example_member_ci)"
    by simp
  have "rt_sinks (op_router ?op) = [CloudLogging []]" by (simp add: new_router_def)
  with started_operator_admits_only_members [OF example_started hooks] example_started hooks
  show ?thesis by blast
qed

theorem synced_account_carries_the_request_witness:
  "\<exists>d reason. check_privileged (example_team_config True)
     (set_sa_annotations (Some [(impersonateGroupAnnotation, ''dapla-data-admins''), (accessReasonAnnotation, ''debug''),
        (requestedServiceDurationAnnotation, ''8h'')]) example_account) ''dapla-data-admins'' = Inr (d, reason)"
proof -
  let ?sfs = "set_sfs_annotations (Some [(accessReasonAnnotation, ''debug''), (requestedServiceDurationAnnotation, ''8h'')])
    (example_sfs ''dapla-data-admins'')"
  let ?sa = "set_sa_annotations (Some [(impersonateGroupAnnotation, ''dapla-data-admins''), (accessReasonAnnotation, ''debug''),
        (requestedServiceDurationAnnotation, ''8h'')]) example_account"
  have "in_sync (wanted_sa_annotations (example_team_config True) ?sfs ''dapla-data-admins'') ?sa"
    by (simp add: in_sync_def wanted_sa_annotations_def map_index_def annotation_keys)
  from synced_account_carries_the_request [OF this] show ?thesis
    by (simp add: map_index_def annotation_keys parse_duration_8h example_team_config_def)
qed

theorem audited_period_is_enforced_witness:
  "\<exists>p errs rt'. record_all example_audit_env p (new_router [CloudLogging []]) = Returns (errs, rt') \<and>
     pl_end p \<le> om_creation (sa_meta example_admin_sa) + 28800000000000 \<and>
     expiration_expr example_admin_sa =
       Inr (''request.time < timestamp('' @ [CHR 0x27] @ rfc3339_utc (pl_end p) @ [CHR 0x27] @ '')'')"
proof -
  obtain rt' where "validate example_validator example_audit_env (SAObject example_admin_sa)
      (new_router [CloudLogging []]) = Returns (None, rt')"
    using example_admitted by blast
  from audited_period_is_enforced [OF example_impersonates example_may(1,2) this]
  obtain p errs where p: "record_all example_audit_env p (new_router [CloudLogging []]) = Returns (errs, rt')"
    "pl_start p = om_creation (sa_meta example_admin_sa)"
    "pl_end p \<le> pl_start p + gc_max_duration example_admin_config"
    "expiration_expr example_admin_sa =
       Inr (''request.time < timestamp('' @ [CHR 0x27] @ rfc3339_utc (pl_end p) @ [CHR 0x27] @ '')'')"
    by blast
  have "gc_max_duration example_admin_config = 28800000000000" by (simp add: example_admin_config_def)
  with p(2,3) have "pl_end p \<le> om_creation (sa_meta example_admin_sa) + 28800000000000" by simp
  with p(1,4) show ?thesis by (intro exI conjI)
qed

end
